(* ===== verification/GoPrelude.thy ===== *)
theory GoPrelude
  imports Main "HOL-Library.Finite_Map" "HOL-Library.Word"
begin

text \<open>
  What every component of the development shares.

  Go's built-in map is a finite map of \<^theory_text>\<open>HOL-Library.Finite_Map\<close>: \<open>fmlookup m k\<close> is the
  two-value read \<open>v, ok := m[k]\<close>, \<open>fmupd k v m\<close> is \<open>m[k] = v\<close>, \<open>fmdrop k m\<close> is \<open>delete(m, k)\<close>,
  \<open>mlen m\<close> is \<open>len(m)\<close>, and \<open>mget z m k\<close> is the one-value read \<open>m[k]\<close> with the zero value \<open>z\<close>.
  Go leaves the order of \<open>range m\<close> open: every loop of that form takes the order it visits
  the keys in from an argument (\<open>enumerates\<close> says what that argument may be), and theorems
  quantify over it. The rest of the theory is the decimal formatting and parsing of \<open>fmt\<close> and
  \<open>strconv\<close>, and the collections \<open>go_simps\<close> and \<open>go_defs\<close> used by the component proofs.
\<close>

named_theorems go_simps "rewrite rules shared by the component proofs"
named_theorems go_defs "definitions of small operations, unfolded by the component proofs"

section \<open>Maps\<close>

definition mlen :: "('k, 'v) fmap \<Rightarrow> nat" where
  "mlen m = fcard (fmdom m)"

definition mget :: "'v \<Rightarrow> ('k, 'v) fmap \<Rightarrow> 'k \<Rightarrow> 'v" where
  "mget z m k = (case fmlookup m k of None \<Rightarrow> z | Some v \<Rightarrow> v)"

definition mhas :: "('k, 'v) fmap \<Rightarrow> 'k \<Rightarrow> bool" where
  "mhas m k \<longleftrightarrow> fmlookup m k \<noteq> None"

lemma fmap_empty_iff: "m = fmempty \<longleftrightarrow> (\<forall>k. fmlookup m k = None)"
  by (auto intro: fmap_ext)

lemma mlen_0_iff [simp]: "mlen m = 0 \<longleftrightarrow> m = fmempty"
  unfolding mlen_def fmap_empty_iff
  by (metis bot_fset.rep_eq card_0_eq fcard.rep_eq finite_fset fmdom_notI fmdom_notD fset_inject
      fempty_iff fset_eqI)

lemma mlen_pos_iff [simp]: "0 < mlen m \<longleftrightarrow> m \<noteq> fmempty"
  using mlen_0_iff [of m] by linarith

lemma mlen_empty [simp]: "mlen fmempty = 0"
  by simp

lemma mlen_upd: "mlen (fmupd k v m) = (if mhas m k then mlen m else Suc (mlen m))"
proof (cases "mhas m k")
  case True
  then have "k |\<in>| fmdom m" by (auto simp: mhas_def intro: fmdomI)
  then show ?thesis using True by (simp add: mlen_def finsert_absorb)
next
  case False
  then have "k |\<notin>| fmdom m" by (auto simp: mhas_def intro: fmdom_notI)
  then show ?thesis using False by (simp add: mlen_def fcard_finsert_disjoint)
qed

lemma mlen_drop: "mlen (fmdrop k m) = (if mhas m k then mlen m - 1 else mlen m)"
proof (cases "mhas m k")
  case True
  then have "k |\<in>| fmdom m" by (auto simp: mhas_def intro: fmdomI)
  then show ?thesis using True by (simp add: mlen_def fcard_fminus_fsingleton)
next
  case False
  then have "k |\<notin>| fmdom m" by (auto simp: mhas_def intro: fmdom_notI)
  then show ?thesis using False by (simp add: mlen_def)
qed

lemma mlen_pos_if_mhas: "mhas m k \<Longrightarrow> 0 < mlen m"
  by (auto simp: mhas_def)

lemma mhas_empty [simp]: "\<not> mhas fmempty k"
  by (simp add: mhas_def)

lemma mhas_upd [simp]: "mhas (fmupd k v m) j \<longleftrightarrow> j = k \<or> mhas m j"
  by (auto simp: mhas_def)

lemma mhas_drop [simp]: "mhas (fmdrop k m) j \<longleftrightarrow> j \<noteq> k \<and> mhas m j"
  by (auto simp: mhas_def)

lemma mhas_fmdom: "k |\<in>| fmdom m \<longleftrightarrow> mhas m k"
  by (auto simp: mhas_def intro: fmdomI fmdom_notI)

lemma mhasI: "fmlookup m k = Some v \<Longrightarrow> mhas m k"
  by (simp add: mhas_def)

lemma mhas_Some: "mhas m k \<longleftrightarrow> (\<exists>v. fmlookup m k = Some v)"
  by (auto simp: mhas_def)

lemma mget_upd [simp]: "mget z (fmupd k v m) j = (if j = k then v else mget z m j)"
  by (simp add: mget_def)

lemma mget_drop [simp]: "mget z (fmdrop k m) j = (if j = k then z else mget z m j)"
  by (simp add: mget_def)

lemma mget_empty [simp]: "mget z fmempty j = z"
  by (simp add: mget_def)

lemma mget_Some: "fmlookup m k = Some v \<Longrightarrow> mget z m k = v"
  by (simp add: mget_def)

lemma fmempty_exI: "(\<And>k. fmlookup m k = None) \<Longrightarrow> m = fmempty"
  by (simp add: fmap_empty_iff)

text \<open>A map every key of which lies in a finite interval has at most as many entries.\<close>

lemma mlen_interval:
  fixes m :: "(int, 'v) fmap"
  assumes "\<And>k. mhas m k \<Longrightarrow> lo \<le> k \<and> k < hi"
  shows "mlen m \<le> nat (hi - lo)"
proof -
  have "fset (fmdom m) \<subseteq> {lo..<hi}"
    using assms by (auto simp: mhas_fmdom)
  then have "card (fset (fmdom m)) \<le> card {lo..<hi}"
    by (intro card_mono) simp_all
  then show ?thesis by (simp add: mlen_def fcard.rep_eq)
qed

section \<open>The order of a range loop\<close>

text \<open>
  \<open>enumerates ks A\<close>: the list \<open>ks\<close> visits every key of \<open>A\<close> exactly once. A loop
  \<open>for k, v := range m\<close> visits \<open>ks\<close> with \<open>enumerates ks (fmdom m)\<close>; a key that the body has
  deleted before it is reached is not visited any more, which the models of the loops write out.
\<close>

definition enumerates :: "'k list \<Rightarrow> 'k fset \<Rightarrow> bool" where
  "enumerates ks A \<longleftrightarrow> distinct ks \<and> fset_of_list ks = A"

lemma enumerates_set: "enumerates ks A \<Longrightarrow> k \<in> set ks \<longleftrightarrow> k |\<in>| A"
  by (auto simp: enumerates_def fset_of_list_elem)

lemma enumerates_sorted: "enumerates (sorted_list_of_fset A) A"
  by (auto simp: enumerates_def fset_of_list_elem sorted_list_of_fset.rep_eq)

lemma enumerates_mhas: "enumerates ks (fmdom m) \<Longrightarrow> k \<in> set ks \<longleftrightarrow> mhas m k"
  by (simp add: enumerates_set mhas_fmdom)

lemma enumerates_length: "enumerates ks (fmdom m) \<Longrightarrow> length ks = mlen m"
  by (metis distinct_card enumerates_def fcard.rep_eq fset_of_list.rep_eq mlen_def)

text \<open>The values a loop \<open>for _, v := range m\<close> visits, in its order.\<close>

definition range_vals :: "'k list \<Rightarrow> ('k, 'v) fmap \<Rightarrow> 'v list" where
  "range_vals ks m = List.map_filter (fmlookup m) ks"

lemma set_range_vals: "x \<in> set (range_vals ks m) \<longleftrightarrow> (\<exists>k \<in> set ks. fmlookup m k = Some x)"
  by (induction ks) (auto simp: range_vals_def List.map_filter_def)

lemma range_vals_Nil [simp]: "range_vals [] m = []"
  by (simp add: range_vals_def List.map_filter_def)

lemma range_vals_Cons [simp]:
  "range_vals (k # ks) m = (case fmlookup m k of None \<Rightarrow> range_vals ks m | Some v \<Rightarrow> v # range_vals ks m)"
  by (simp add: range_vals_def List.map_filter_def split: option.split)

lemma range_vals_all:
  "enumerates ks (fmdom m) \<Longrightarrow> x \<in> set (range_vals ks m) \<longleftrightarrow> (\<exists>k. fmlookup m k = Some x)"
  by (auto simp: set_range_vals enumerates_mhas mhas_def)

section \<open>Decimal numbers\<close>

text \<open>Go's verb \<open>%d\<close> and \<open>strconv.FormatUint(n, 10)\<close>.\<close>

definition digit_char :: "nat \<Rightarrow> char" where
  "digit_char d = char_of (48 + d)"

fun show_nat :: "nat \<Rightarrow> string" where
  "show_nat n = (if n < 10 then [digit_char n] else show_nat (n div 10) @ [digit_char (n mod 10)])"

declare show_nat.simps [simp del]

definition show_int :: "int \<Rightarrow> string" where
  "show_int i = (if i < 0 then CHR ''-'' # show_nat (nat (- i)) else show_nat (nat i))"

definition is_digit_char :: "char \<Rightarrow> bool" where
  "is_digit_char c \<longleftrightarrow> 48 \<le> (of_char c :: nat) \<and> (of_char c :: nat) \<le> 57"

definition digits_value :: "string \<Rightarrow> nat" where
  "digits_value s = foldl (\<lambda>v c. 10 * v + (of_char c - 48)) 0 s"

lemma digit_char_value: "d < 10 \<Longrightarrow> (of_char (digit_char d) :: nat) = 48 + d"
  by (simp add: digit_char_def)

lemma show_nat_digits: "\<forall>c \<in> set (show_nat n). is_digit_char c"
proof (induction n rule: show_nat.induct)
  case (1 n)
  then show ?case
    by (subst show_nat.simps) (auto simp: is_digit_char_def digit_char_value)
qed

lemma show_nat_not_Nil: "show_nat n \<noteq> []"
  by (subst show_nat.simps) simp

lemma digits_value_show_nat: "digits_value (show_nat n) = n"
proof (induction n rule: show_nat.induct)
  case (1 n)
  show ?case
  proof (cases "n < 10")
    case True
    then show ?thesis by (subst show_nat.simps) (simp add: digits_value_def digit_char_value)
  next
    case False
    with 1 have "digits_value (show_nat (n div 10)) = n div 10" by simp
    with False show ?thesis
      by (subst show_nat.simps) (simp add: digits_value_def digit_char_value)
  qed
qed

lemma show_nat_inject [simp]: "show_nat m = show_nat n \<longleftrightarrow> m = n"
  by (metis digits_value_show_nat)

section \<open>Steps that may panic\<close>

text \<open>
  A handler returns the new state and its effects (sends on sockets and channels) in program
  order, or \<open>None\<close> where the code dereferences a nil pointer. \<open>safely P Q r\<close> says that the result
  \<open>r\<close> is no panic, that \<open>P\<close> holds of the new state and \<open>Q\<close> of every effect; \<open>andthen\<close> runs a
  second step after a first one, and \<open>run_loop f ks\<close> runs the body \<open>f\<close> once per key of \<open>ks\<close>.
\<close>

type_synonym ('s, 'e) outcome = "('s \<times> 'e list) option"

definition safely :: "('s \<Rightarrow> bool) \<Rightarrow> ('e \<Rightarrow> bool) \<Rightarrow> ('s, 'e) outcome \<Rightarrow> bool" where
  "safely P Q r = (case r of None \<Rightarrow> False | Some (s, es) \<Rightarrow> P s \<and> (\<forall>e \<in> set es. Q e))"

definition andthen :: "('s, 'e) outcome \<Rightarrow> ('s \<Rightarrow> ('s, 'e) outcome) \<Rightarrow> ('s, 'e) outcome" where
  "andthen r f =
     (case r of None \<Rightarrow> None
      | Some (s1, e1) \<Rightarrow> map_option (\<lambda>(s2, e2). (s2, e1 @ e2)) (f s1))"

fun run_loop :: "('k \<Rightarrow> 's \<Rightarrow> ('s, 'e) outcome) \<Rightarrow> 'k list \<Rightarrow> 's \<Rightarrow> ('s, 'e) outcome" where
  "run_loop f [] s = Some (s, [])"
| "run_loop f (k # ks) s = andthen (f k s) (run_loop f ks)"

lemma safely_Some [simp]: "safely P Q (Some (s, es)) \<longleftrightarrow> P s \<and> (\<forall>e \<in> set es. Q e)"
  by (simp add: safely_def)

lemma safely_None [simp]: "\<not> safely P Q None"
  by (simp add: safely_def)

lemma safelyE:
  assumes "safely P Q r"
  obtains s es where "r = Some (s, es)" and "P s" and "\<And>e. e \<in> set es \<Longrightarrow> Q e"
  using assms by (auto simp: safely_def split: option.splits)

lemma safely_mono:
  "safely P Q r \<Longrightarrow> (\<And>s. P s \<Longrightarrow> P' s) \<Longrightarrow> (\<And>e. Q e \<Longrightarrow> Q' e) \<Longrightarrow> safely P' Q' r"
  by (auto simp: safely_def split: option.splits)

lemma andthen_Some [simp]:
  "andthen (Some (s, es)) f = map_option (\<lambda>(s2, e2). (s2, es @ e2)) (f s)"
  by (simp add: andthen_def)

lemma andthen_None [simp]: "andthen None f = None"
  by (simp add: andthen_def)

lemma safely_andthen:
  assumes "safely P Q r" and "\<And>s. P s \<Longrightarrow> safely P' Q (f s)"
  shows "safely P' Q (andthen r f)"
  using assms(1)
proof (rule safelyE)
  fix s es
  assume r: "r = Some (s, es)" and "P s" and es: "\<And>e. e \<in> set es \<Longrightarrow> Q e"
  then have "safely P' Q (f s)" using assms(2) by blast
  then show ?thesis using r es by (auto elim!: safelyE)
qed

lemma safely_run_loop:
  assumes "\<And>k s. k \<in> set ks \<Longrightarrow> P s \<Longrightarrow> safely P Q (f k s)" and "P s"
  shows "safely P Q (run_loop f ks s)"
  using assms
proof (induction ks arbitrary: s)
  case (Cons k ks)
  have "safely P Q (f k s)" using Cons.prems(1) [of k s] Cons.prems(2) by simp
  then have "safely P Q (andthen (f k s) (run_loop f ks))"
    by (rule safely_andthen) (use Cons in auto)
  then show ?case by simp
qed simp

text \<open>The same for facts about one outcome only, where a panic is allowed.\<close>

definition whenever :: "('s \<Rightarrow> bool) \<Rightarrow> ('e \<Rightarrow> bool) \<Rightarrow> ('s, 'e) outcome \<Rightarrow> bool" where
  "whenever P Q r = (case r of None \<Rightarrow> True | Some (s, es) \<Rightarrow> P s \<and> (\<forall>e \<in> set es. Q e))"

lemma whenever_Some [simp]: "whenever P Q (Some (s, es)) \<longleftrightarrow> P s \<and> (\<forall>e \<in> set es. Q e)"
  by (simp add: whenever_def)

lemma whenever_None [simp]: "whenever P Q None"
  by (simp add: whenever_def)

lemma wheneverD: "whenever P Q r \<Longrightarrow> r = Some (s, es) \<Longrightarrow> P s \<and> (\<forall>e \<in> set es. Q e)"
  by simp

lemma safely_whenever: "safely P Q r \<Longrightarrow> whenever P Q r"
  by (auto elim!: safelyE)

lemma whenever_andthen:
  assumes "whenever P Q r" and "\<And>s. P s \<Longrightarrow> whenever P' Q (f s)"
  shows "whenever P' Q (andthen r f)"
proof (cases r)
  case (Some p)
  obtain s es where p: "p = (s, es)" by (cases p)
  with assms Some have "whenever P' Q (f s)" and "\<forall>e \<in> set es. Q e" by auto
  with Some p show ?thesis by (cases "f s") auto
qed simp

lemma whenever_run_loop:
  assumes "\<And>k s. k \<in> set ks \<Longrightarrow> P s \<Longrightarrow> whenever P Q (f k s)" and "P s"
  shows "whenever P Q (run_loop f ks s)"
  using assms
proof (induction ks arbitrary: s)
  case (Cons k ks)
  have "whenever P Q (f k s)" using Cons.prems(1) [of k s] Cons.prems(2) by simp
  then have "whenever P Q (andthen (f k s) (run_loop f ks))"
    by (rule whenever_andthen) (use Cons in auto)
  then show ?case by simp
qed simp

end
