(* ===== verification/LspNet.thy ===== *)
theory LspNet
  imports GoPrelude
begin

text \<open>
  The package \<open>lspnet\<close>: the wrapper around Go's UDP sockets that drops packets on purpose.
  \<open>conn.go\<close> (\<open>UDPConn\<close> and its methods), \<open>net.go\<close> (the table of sockets) and \<open>staff.go\<close> (the
  drop percentages). The sockets of package \<open>net\<close> belong to the operating system: what a system
  call returned, which number \<open>rand.Intn(100)\<close> drew and which datagrams arrived are arguments.
  A \<open>*net.UDPConn\<close> is known by its identity only (a \<open>nat\<close>), an address by its printed form.
\<close>

section \<open>Sockets and addresses\<close>

type_synonym bytes = string
type_synonym addr = string

record UDPConn =
  nconn :: nat

record UDPAddr =
  naddr :: addr

definition UDPAddr_String :: "UDPAddr \<Rightarrow> string" where
  [go_defs]: "UDPAddr_String a = naddr a"

definition toNet :: "UDPAddr \<Rightarrow> addr" where
  [go_defs]: "toNet a = naddr a"

section \<open>The state of the package\<close>

text \<open>
  The package-level variables: the table of sockets (true for a server's socket), the four
  percentages (\<open>uint32\<close>) and the switch of the debug log.
\<close>

record netstate =
  connectionMap :: "(UDPConn, bool) fmap"
  enableDebugLogs :: "32 word"
  clientReadDropPercent :: "32 word"
  clientWriteDropPercent :: "32 word"
  serverReadDropPercent :: "32 word"
  serverWriteDropPercent :: "32 word"

definition init_netstate :: netstate where
  "init_netstate = \<lparr>connectionMap = fmempty, enableDebugLogs = 0, clientReadDropPercent = 0,
     clientWriteDropPercent = 0, serverReadDropPercent = 0, serverWriteDropPercent = 0\<rparr>"

section \<open>The drop percentages (staff.go)\<close>

definition SetClientReadDropPercent :: "int \<Rightarrow> netstate \<Rightarrow> netstate" where
  [go_defs]: "SetClientReadDropPercent p n =
     (if 0 \<le> p \<and> p \<le> 100 then n\<lparr>clientReadDropPercent := word_of_int p\<rparr> else n)"

definition SetClientWriteDropPercent :: "int \<Rightarrow> netstate \<Rightarrow> netstate" where
  [go_defs]: "SetClientWriteDropPercent p n =
     (if 0 \<le> p \<and> p \<le> 100 then n\<lparr>clientWriteDropPercent := word_of_int p\<rparr> else n)"

definition SetServerReadDropPercent :: "int \<Rightarrow> netstate \<Rightarrow> netstate" where
  [go_defs]: "SetServerReadDropPercent p n =
     (if 0 \<le> p \<and> p \<le> 100 then n\<lparr>serverReadDropPercent := word_of_int p\<rparr> else n)"

definition SetServerWriteDropPercent :: "int \<Rightarrow> netstate \<Rightarrow> netstate" where
  [go_defs]: "SetServerWriteDropPercent p n =
     (if 0 \<le> p \<and> p \<le> 100 then n\<lparr>serverWriteDropPercent := word_of_int p\<rparr> else n)"

definition SetReadDropPercent :: "int \<Rightarrow> netstate \<Rightarrow> netstate" where
  [go_defs]: "SetReadDropPercent p n = SetServerReadDropPercent p (SetClientReadDropPercent p n)"

definition SetWriteDropPercent :: "int \<Rightarrow> netstate \<Rightarrow> netstate" where
  [go_defs]: "SetWriteDropPercent p n = SetServerWriteDropPercent p (SetClientWriteDropPercent p n)"

definition ResetDropPercent :: "netstate \<Rightarrow> netstate" where
  [go_defs]: "ResetDropPercent n = SetWriteDropPercent 0 (SetReadDropPercent 0 n)"

definition readDropPercent :: "netstate \<Rightarrow> UDPConn \<Rightarrow> int" where
  "readDropPercent n c =
     (case fmlookup (connectionMap n) c of
        Some isServer \<Rightarrow>
          (if isServer then uint (serverReadDropPercent n) else uint (clientReadDropPercent n))
      | None \<Rightarrow> 0)"

definition writeDropPercent :: "netstate \<Rightarrow> UDPConn \<Rightarrow> int" where
  "writeDropPercent n c =
     (case fmlookup (connectionMap n) c of
        Some isServer \<Rightarrow>
          (if isServer then uint (serverWriteDropPercent n) else uint (clientWriteDropPercent n))
      | None \<Rightarrow> 0)"

section \<open>Opening and closing sockets (net.go, conn.go)\<close>

text \<open>The first argument is what the call into package \<open>net\<close> returned, \<open>None\<close> for an error.\<close>

definition ResolveUDPAddr :: "addr option \<Rightarrow> UDPAddr option" where
  "ResolveUDPAddr res = (case res of None \<Rightarrow> None | Some a \<Rightarrow> Some \<lparr>naddr = a\<rparr>)"

definition ListenUDP :: "nat option \<Rightarrow> netstate \<Rightarrow> UDPConn option \<times> netstate" where
  "ListenUDP res n =
     (case res of
        None \<Rightarrow> (None, n)
      | Some h \<Rightarrow> (let conn = \<lparr>nconn = h\<rparr>
                   in (Some conn, n\<lparr>connectionMap := fmupd conn True (connectionMap n)\<rparr>)))"

definition DialUDP :: "nat option \<Rightarrow> netstate \<Rightarrow> UDPConn option \<times> netstate" where
  "DialUDP res n =
     (case res of
        None \<Rightarrow> (None, n)
      | Some h \<Rightarrow> (let conn = \<lparr>nconn = h\<rparr>
                   in (Some conn, n\<lparr>connectionMap := fmupd conn False (connectionMap n)\<rparr>)))"

definition UDPConn_Close :: "UDPConn \<Rightarrow> netstate \<Rightarrow> netstate" where
  "UDPConn_Close c n =
     (if mhas (connectionMap n) c then n\<lparr>connectionMap := fmdrop c (connectionMap n)\<rparr> else n)"

definition EnableDebugLogs :: "bool \<Rightarrow> netstate \<Rightarrow> netstate" where
  "EnableDebugLogs enable n = (if enable then n\<lparr>enableDebugLogs := 1\<rparr> else n\<lparr>enableDebugLogs := 0\<rparr>)"

definition isLoggingEnabled :: "netstate \<Rightarrow> bool" where
  "isLoggingEnabled n \<longleftrightarrow> enableDebugLogs n = 1"

section \<open>Reading and writing (conn.go)\<close>

text \<open>\<open>r\<close> is the number in \<open>0..99\<close> that \<open>rand.Intn(100)\<close> drew.\<close>

definition dropIt :: "int \<Rightarrow> int \<Rightarrow> bool" where
  "dropIt dropPercent r \<longleftrightarrow> r < dropPercent"

text \<open>
  One written datagram: what reaches the socket (\<open>None\<close> for nothing) and what the caller sees,
  the count and whether the error is non-nil. \<open>sys\<close> is the result of the system call.
\<close>

definition UDPConn_write ::
    "netstate \<Rightarrow> UDPConn \<Rightarrow> int \<Rightarrow> (nat \<times> bool) \<Rightarrow> bytes \<Rightarrow> UDPAddr option
     \<Rightarrow> (bytes \<times> addr option) option \<times> nat \<times> bool" where
  "UDPConn_write n c r sys b a =
     (if dropIt (writeDropPercent n c) r then (None, length b, False)
      else (case a of
              None \<Rightarrow> (Some (b, None), if snd sys then (0, False) else (fst sys, False))
            | Some to \<Rightarrow> (Some (b, Some (toNet to)), sys)))"

definition UDPConn_Write ::
    "netstate \<Rightarrow> UDPConn \<Rightarrow> int \<Rightarrow> (nat \<times> bool) \<Rightarrow> bytes
     \<Rightarrow> (bytes \<times> addr option) option \<times> nat \<times> bool" where
  "UDPConn_Write n c r sys b = UDPConn_write n c r sys b None"

definition WriteToUDP ::
    "netstate \<Rightarrow> UDPConn \<Rightarrow> int \<Rightarrow> (nat \<times> bool) \<Rightarrow> bytes \<Rightarrow> UDPAddr option
     \<Rightarrow> (bytes \<times> addr option) option \<times> nat \<times> bool" where
  "WriteToUDP n c r sys b a =
     (case a of None \<Rightarrow> (None, 0, True) | Some to \<Rightarrow> UDPConn_write n c r sys b (Some to))"

text \<open>
  The reading loop takes the results of the system call as they come (\<open>None\<close> an error, otherwise a
  datagram and its sender), each with the number drawn for it, until one is not dropped: the
  outer \<open>None\<close> is a call that still waits, because everything so far was dropped. A datagram longer
  than the 2000 bytes of the buffer is cut off by the socket.
\<close>

fun ReadFromUDP :: "netstate \<Rightarrow> UDPConn \<Rightarrow> ((bytes \<times> addr) option \<times> int) list
     \<Rightarrow> ((bytes \<times> UDPAddr) option \<times> ((bytes \<times> addr) option \<times> int) list) option" where
  "ReadFromUDP n c [] = None"
| "ReadFromUDP n c ((res, r) # ds) =
     (if dropIt (readDropPercent n c) r then ReadFromUDP n c ds
      else Some (case res of None \<Rightarrow> None | Some (d, a) \<Rightarrow> Some (take 2000 d, \<lparr>naddr = a\<rparr>), ds))"

fun UDPConn_Read :: "netstate \<Rightarrow> UDPConn \<Rightarrow> (bytes option \<times> int) list
     \<Rightarrow> (bytes option \<times> (bytes option \<times> int) list) option" where
  "UDPConn_Read n c [] = None"
| "UDPConn_Read n c ((res, r) # ds) =
     (if dropIt (readDropPercent n c) r then UDPConn_Read n c ds
      else Some (map_option (take 2000) res, ds))"

section \<open>Facts\<close>

text \<open>The percentages stay between 0 and 100 whatever the setters are called with.\<close>

definition percent_ok :: "netstate \<Rightarrow> bool" where
  "percent_ok n \<longleftrightarrow> uint (clientReadDropPercent n) \<le> 100 \<and> uint (clientWriteDropPercent n) \<le> 100 \<and>
     uint (serverReadDropPercent n) \<le> 100 \<and> uint (serverWriteDropPercent n) \<le> 100"

lemma uint_percent: "0 \<le> p \<Longrightarrow> p \<le> 100 \<Longrightarrow> uint (word_of_int p :: 32 word) = p"
  by (simp add: uint_word_of_int_eq take_bit_int_eq_self)

lemma percent_ok_init: "percent_ok init_netstate"
  by (simp add: percent_ok_def init_netstate_def)

lemma percent_ok_set:
  assumes "percent_ok n"
  shows "percent_ok (SetReadDropPercent p n)" and "percent_ok (SetWriteDropPercent p n)"
    and "percent_ok (SetClientReadDropPercent p n)" and "percent_ok (SetClientWriteDropPercent p n)"
    and "percent_ok (SetServerReadDropPercent p n)" and "percent_ok (SetServerWriteDropPercent p n)"
  using assms by (simp_all add: percent_ok_def go_defs uint_percent)

lemma drop_percent_range:
  assumes "percent_ok n"
  shows "0 \<le> readDropPercent n c \<and> readDropPercent n c \<le> 100"
    and "0 \<le> writeDropPercent n c \<and> writeDropPercent n c \<le> 100"
  using assms
  by (auto simp: percent_ok_def readDropPercent_def writeDropPercent_def split: option.splits)

lemma dropIt_never: "0 \<le> r \<Longrightarrow> \<not> dropIt 0 r"
  by (simp add: dropIt_def)

lemma dropIt_always: "r < 100 \<Longrightarrow> dropIt 100 r"
  by (simp add: dropIt_def)

lemma ResetDropPercent_percent:
  "readDropPercent (ResetDropPercent n) c = 0 \<and> writeDropPercent (ResetDropPercent n) c = 0"
  by (auto simp: go_defs readDropPercent_def writeDropPercent_def split: option.splits)

lemma ReadFromUDP_result:
  "ReadFromUDP n c ds = Some (v, rest) \<Longrightarrow>
     \<exists>skipped x r. ds = skipped @ (x, r) # rest \<and> v = map_option (\<lambda>(d, a). (take 2000 d, \<lparr>naddr = a\<rparr>)) x \<and>
       \<not> dropIt (readDropPercent n c) r \<and> (\<forall>y \<in> set skipped. dropIt (readDropPercent n c) (snd y))"
proof (induction ds)
  case (Cons z ds)
  obtain x r where z: "z = (x, r)" by (cases z)
  show ?case
  proof (cases "dropIt (readDropPercent n c) r")
    case True
    with Cons z obtain sk y q where "ds = sk @ (y, q) # rest"
      "v = map_option (\<lambda>(d, a). (take 2000 d, \<lparr>naddr = a\<rparr>)) y"
      "\<not> dropIt (readDropPercent n c) q" "\<forall>y \<in> set sk. dropIt (readDropPercent n c) (snd y)"
      by auto
    with True z show ?thesis
      by (intro exI [of _ "z # sk"] exI [of _ y] exI [of _ q]) simp
  next
    case False
    with Cons.prems z show ?thesis
      by (intro exI [of _ "[]"] exI [of _ x] exI [of _ r]) (auto split: option.splits)
  qed
qed simp

text \<open>What is sent to an address comes out of the other end's read, unless one of the two drops it.\<close>

lemma write_read:
  assumes "WriteToUDP n c r sys b (Some to) = (Some (b', dst), k)"
  shows "b' = b \<and> dst = Some (naddr to)"
  using assms by (auto simp: WriteToUDP_def UDPConn_write_def toNet_def split: if_splits)

end
