(* ===== verification/LspMessage.thy ===== *)
theory LspMessage
  imports LspNet
begin

text \<open>
  The messages of the Live Sequence Protocol (\<open>lsp/message.go\<close>) and the parameters of a client
  or server (\<open>lsp/params.go\<close>). Go's \<open>int\<close> is \<open>int\<close>: the protocol only compares sequence numbers,
  adds one or a window size to them and subtracts a window size, and a connection would have to
  carry 2^63 messages to leave the 64-bit range.
\<close>

section \<open>message.go\<close>

text \<open>
  \<open>MsgType\<close> is an open enumeration in Go: a message from the network may carry any integer.
  The three named constants are constructors, \<open>MsgTypeOther\<close> holds every other value.
\<close>

datatype MsgType = MsgConnect | MsgData | MsgAck | MsgTypeOther int

record Message =
  Type :: MsgType
  ConnID :: int
  SeqNum :: int
  Payload :: bytes

definition NewConnect :: Message where
  "NewConnect = \<lparr>Type = MsgConnect, ConnID = 0, SeqNum = 0, Payload = []\<rparr>"

definition NewData :: "int \<Rightarrow> int \<Rightarrow> bytes \<Rightarrow> Message" where
  "NewData connID seqNum payload =
     \<lparr>Type = MsgData, ConnID = connID, SeqNum = seqNum, Payload = payload\<rparr>"

definition NewAck :: "int \<Rightarrow> int \<Rightarrow> Message" where
  "NewAck connID seqNum = \<lparr>Type = MsgAck, ConnID = connID, SeqNum = seqNum, Payload = []\<rparr>"

text \<open>The literal \<open>&Message{}\<close>: every field has its zero value, and type 0 is \<open>MsgConnect\<close>.\<close>

definition zero_Message :: Message where
  "zero_Message = \<lparr>Type = MsgConnect, ConnID = 0, SeqNum = 0, Payload = []\<rparr>"

definition Message_String :: "Message \<Rightarrow> string" where
  "Message_String m =
     (let (name, payload) =
        (case Type m of
           MsgConnect \<Rightarrow> (''Connect'', [])
         | MsgData \<Rightarrow> (''Data'', '' '' @ Payload m)
         | MsgAck \<Rightarrow> (''Ack'', [])
         | MsgTypeOther _ \<Rightarrow> ([], []))
      in ''['' @ name @ '' '' @ show_int (ConnID m) @ '' '' @ show_int (SeqNum m) @ payload @ '']'')"

lemma NewData_simps [simp]:
  "Type (NewData i n p) = MsgData" "ConnID (NewData i n p) = i" "SeqNum (NewData i n p) = n"
  "Payload (NewData i n p) = p"
  by (simp_all add: NewData_def)

lemma NewAck_simps [simp]:
  "Type (NewAck i n) = MsgAck" "ConnID (NewAck i n) = i" "SeqNum (NewAck i n) = n"
  "Payload (NewAck i n) = []"
  by (simp_all add: NewAck_def)

lemma NewConnect_simps [simp]:
  "Type NewConnect = MsgConnect" "ConnID NewConnect = 0" "SeqNum NewConnect = 0"
  "Payload NewConnect = []"
  by (simp_all add: NewConnect_def)

lemma NewData_inject [simp]: "NewData i n p = NewData j m q \<longleftrightarrow> i = j \<and> n = m \<and> p = q"
  by (simp add: NewData_def)

lemma NewData_collapse: "Type m = MsgData \<Longrightarrow> NewData (ConnID m) (SeqNum m) (Payload m) = m"
  by (cases m) (simp add: NewData_def)

lemma NewAck_inject [simp]: "NewAck i n = NewAck j m \<longleftrightarrow> i = j \<and> n = m"
  by (simp add: NewAck_def)

section \<open>params.go\<close>

record Params =
  EpochLimit :: int
  EpochMillis :: int
  WindowSize :: int

definition DefaultEpochLimit :: int where "DefaultEpochLimit = 5"
definition DefaultEpochMillis :: int where "DefaultEpochMillis = 2000"
definition DefaultWindowSize :: int where "DefaultWindowSize = 1"

definition NewParams :: Params where
  "NewParams = \<lparr>EpochLimit = DefaultEpochLimit, EpochMillis = DefaultEpochMillis,
     WindowSize = DefaultWindowSize\<rparr>"

definition Params_String :: "Params \<Rightarrow> string" where
  "Params_String p =
     ''[EpochLimit: '' @ show_int (EpochLimit p) @ '', EpochMillis: '' @ show_int (EpochMillis p) @
     '', WindowSize: '' @ show_int (WindowSize p) @ '']''"

lemma NewParams_simps [simp]:
  "EpochLimit NewParams = 5" "EpochMillis NewParams = 2000" "WindowSize NewParams = 1"
  by (simp_all add: NewParams_def DefaultEpochLimit_def DefaultEpochMillis_def DefaultWindowSize_def)

end
