(* ===== verification/LspConnect.thy ===== *)
theory LspConnect
  imports LspMessage
begin

text \<open>
  The connection state and the packets of \<open>lsp/common.go\<close>.

  The file does not compile as it stands: two names of the first constant block are garbled
  (\<open>sconnectas= iotaasaasaasas\<close>, \<open>cconnectsssas\<close>) and three lines of \<open>connectHandler\<close> have moved
  into \<open>NewConnection\<close>. The model takes the names the callers use (\<open>cconnects\<close>, \<open>connectid\<close>,
  which the same file has in the archive \<open>lsp.tar\<close> of the repository) and puts the \<open>select\<close> back
  at the head of the loop it belongs to.

  Goroutines talk over channels. A function that runs in a goroutine is modelled as a function
  of the state that goroutine owns, which returns the new state and the list of its channel
  and socket operations in program order (\<open>effect\<close>); the fields of the Go structs that are
  channels are the constructors of \<open>effect\<close>.
\<close>

section \<open>Packet kinds\<close>

definition sconnectc :: int where [simp]: "sconnectc = 0"
definition cconnects :: int where [simp]: "cconnects = 1"
definition connectid :: int where [simp]: "connectid = 2"
definition timer :: int where [simp]: "timer = 3"
definition sread :: int where [simp]: "sread = 4"
definition cwrite :: int where [simp]: "cwrite = 5"
definition cread :: int where [simp]: "cread = 6"
definition cclose :: int where [simp]: "cclose = 7"
definition sclose :: int where [simp]: "sclose = 8"
definition receive_kind :: int where [simp]: "receive_kind = 9"
definition closeconn :: int where [simp]: "closeconn = 10"
definition swrite :: int where [simp]: "swrite = 11"

record Packet =
  msg :: "Message option"
  paddr :: "addr option"
  contype :: int

definition Pkt :: "Message option \<Rightarrow> addr option \<Rightarrow> int \<Rightarrow> Packet" where
  "Pkt m a k = \<lparr>msg = m, paddr = a, contype = k\<rparr>"

lemma Pkt_simps [simp]:
  "msg (Pkt m a k) = m" "paddr (Pkt m a k) = a" "contype (Pkt m a k) = k"
  by (simp_all add: Pkt_def)

lemma Pkt_inject [simp]: "Pkt m a k = Pkt n b j \<longleftrightarrow> m = n \<and> a = b \<and> k = j"
  by (simp add: Pkt_def)

section \<open>Channel and socket operations\<close>

datatype effect =
    Send Message               \<comment> \<open>\<open>now.send(msg)\<close>: one datagram to the dialled peer\<close>
  | Ssend Message addr         \<comment> \<open>\<open>now.ssend(msg, addr)\<close>: one datagram to an address\<close>
  | Req Packet                 \<comment> \<open>\<open>req <- packet\<close>\<close>
  | Reply Packet               \<comment> \<open>\<open>reply <- packet\<close>\<close>
  | Replyread Packet           \<comment> \<open>\<open>replyread <- packet\<close>\<close>
  | Over Packet                \<comment> \<open>\<open>over <- packet\<close>\<close>
  | TakeOver                   \<comment> \<open>\<open><-over\<close>\<close>
  | Closeans Packet            \<comment> \<open>\<open>closeans <- packet\<close>\<close>
  | Writeans Packet            \<comment> \<open>\<open>writeans <- packet\<close>\<close>
  | Build                      \<comment> \<open>\<open>build <- 1\<close>\<close>
  | Lost                       \<comment> \<open>\<open>lost <- 1\<close>\<close>
  | Exit                       \<comment> \<open>\<open>exit <- 1\<close>\<close>
  | ExitEpo                    \<comment> \<open>\<open>exitEpo <- 1\<close>\<close>
  | CloseSock UDPConn          \<comment> \<open>\<open>now.conn.Close()\<close>\<close>
  | Quit                       \<comment> \<open>\<open>now.quit <- 1\<close>\<close>

text \<open>The data messages and the acknowledgements among the datagrams a list of effects sends.\<close>

fun sent_message :: "effect \<Rightarrow> Message option" where
  "sent_message (Send m) = Some m"
| "sent_message (Ssend m _) = Some m"
| "sent_message _ = None"

definition sent :: "effect list \<Rightarrow> Message list" where
  "sent es = List.map_filter sent_message es"

lemma sent_simps [simp]:
  "sent [] = []" "sent (e # es) = (case sent_message e of None \<Rightarrow> sent es | Some m \<Rightarrow> m # sent es)"
  "sent (es @ fs) = sent es @ sent fs"
  by (simp_all add: sent_def List.map_filter_def split: option.splits)

lemma sent_map_Send [simp]: "sent (map Send ms) = ms"
  by (induction ms) auto

lemma sent_map_Ssend [simp]: "sent (map (\<lambda>m. Ssend (f m) a) ms) = map f ms"
  by (induction ms) auto

lemma set_sent: "m \<in> set (sent es) \<longleftrightarrow> (\<exists>e \<in> set es. sent_message e = Some m)"
  by (induction es) (auto split: option.splits)

section \<open>Connect\<close>

text \<open>
  \<open>params\<close> is a pointer to the parameters of the client or server, never written after
  \<open>NewConnection\<close>, so its value is kept. \<open>conn\<close> is nil for the entries of a server's table:
  only the listening connection owns a socket.
\<close>

record Connect =
  conn :: "UDPConn option"
  params :: Params
  lastrece :: int
  receive :: int
  ackbuf :: "(int, Message) fmap"
  databuf :: "(int, Message) fmap"
  writebuf :: "(int, Message) fmap"
  seq :: int
  ack :: int
  estab :: bool
  readbuf :: "(int, Message) fmap"
  losted :: bool
  caddr :: "addr option"

definition NewConnection :: "Params \<Rightarrow> Connect" where
  "NewConnection parm =
     \<lparr>conn = None, params = parm, lastrece = 0, receive = 0, ackbuf = fmempty, databuf = fmempty,
      writebuf = fmempty, seq = 0, ack = 1, estab = False, readbuf = fmempty, losted = False,
      caddr = None\<rparr>"

lemma NewConnection_simps [simp]:
  "conn (NewConnection p) = None" "params (NewConnection p) = p"
  "lastrece (NewConnection p) = 0" "receive (NewConnection p) = 0"
  "ackbuf (NewConnection p) = fmempty" "databuf (NewConnection p) = fmempty"
  "writebuf (NewConnection p) = fmempty" "seq (NewConnection p) = 0" "ack (NewConnection p) = 1"
  "estab (NewConnection p) = False" "readbuf (NewConnection p) = fmempty"
  "losted (NewConnection p) = False" "caddr (NewConnection p) = None"
  by (simp_all add: NewConnection_def)

text \<open>Closing a connection: nothing happens for one without a socket.\<close>

definition Connect_close :: "Connect \<Rightarrow> effect list" where
  "Connect_close now = (case conn now of None \<Rightarrow> [] | Some c \<Rightarrow> [CloseSock c, Quit])"

text \<open>
  \<open>send\<close> and \<open>ssend\<close> marshal the message and write one datagram; the result is whether the
  returned error is nil. \<open>marshal\<close> is \<open>json.Marshal\<close> (\<open>None\<close> for an error), \<open>wr\<close> the write of
  the socket layer, which says what was put on the wire, the byte count and whether it failed.
\<close>

definition Connect_send ::
    "(Message \<Rightarrow> bytes option) \<Rightarrow> (bytes \<Rightarrow> (bytes \<times> addr option) option \<times> nat \<times> bool) \<Rightarrow> Message
     \<Rightarrow> (bytes \<times> addr option) option \<times> bool" where
  "Connect_send marshal wr m =
     (case marshal m of
        None \<Rightarrow> (None, False)
      | Some buf \<Rightarrow> (case wr buf of (out, _, failed) \<Rightarrow> if failed then (out, False) else (out, True)))"

definition Connect_ssend ::
    "(Message \<Rightarrow> bytes option)
     \<Rightarrow> (bytes \<Rightarrow> UDPAddr option \<Rightarrow> (bytes \<times> addr option) option \<times> nat \<times> bool)
     \<Rightarrow> Message \<Rightarrow> UDPAddr option \<Rightarrow> (bytes \<times> addr option) option \<times> bool" where
  "Connect_ssend marshal wr m aaddr =
     (case marshal m of
        None \<Rightarrow> (None, False)
      | Some buf \<Rightarrow>
          (case wr buf aaddr of (out, _, failed) \<Rightarrow> if failed then (out, False) else (out, True)))"

text \<open>
  The receiving goroutine. One turn of its loop either finds a signal on \<open>quit\<close> and returns, or
  reads a datagram; a read error and a datagram that does not parse are skipped.
\<close>

datatype incoming = QuitSignal | ReadError | Datagram bytes addr

fun connectHandler :: "(bytes \<Rightarrow> Message option) \<Rightarrow> incoming list \<Rightarrow> effect list" where
  "connectHandler unmarshal [] = []"
| "connectHandler unmarshal (QuitSignal # ins) = []"
| "connectHandler unmarshal (ReadError # ins) = connectHandler unmarshal ins"
| "connectHandler unmarshal (Datagram d a # ins) =
     (case unmarshal d of
        None \<Rightarrow> connectHandler unmarshal ins
      | Some m \<Rightarrow> Req (Pkt (Some m) (Some a) receive_kind) # connectHandler unmarshal ins)"

text \<open>The epoch timer: one \<open>timer\<close> packet per elapsed epoch until a signal arrives on \<open>exitEpo\<close>.\<close>

datatype tick = Elapsed | ExitSignal

fun Timers :: "tick list \<Rightarrow> effect list" where
  "Timers [] = []"
| "Timers (Elapsed # ts) = Req (Pkt None None timer) # Timers ts"
| "Timers (ExitSignal # ts) = []"

lemma connectHandler_packets:
  "e \<in> set (connectHandler um ins) \<Longrightarrow>
     \<exists>d a m. Datagram d a \<in> set ins \<and> um d = Some m \<and> e = Req (Pkt (Some m) (Some a) receive_kind)"
  by (induction um ins rule: connectHandler.induct) (auto split: option.splits)

lemma Timers_packets: "e \<in> set (Timers ts) \<Longrightarrow> e = Req (Pkt None None timer)"
  by (induction ts rule: Timers.induct) auto

end
