(* ===== verification/LspWindow.thy ===== *)
theory LspWindow
  imports LspConnect
begin

text \<open>
  The sliding window. Client and server run the same code on a \<open>Connect\<close>, once for the client's
  connection and once per entry of the server's table: the window of sent messages
  (\<open>databuf\<close>, \<open>writebuf\<close>, \<open>seq\<close>) and the memory of received ones (\<open>ackbuf\<close>, \<open>readbuf\<close>,
  \<open>ack\<close>). This theory holds that code, loop by loop, and the two invariants it keeps:
  \<open>snd_inv\<close> for the sending half and \<open>rcv_inv\<close> for the receiving half.
\<close>

section \<open>The loops\<close>

text \<open>
  \<open>for i := seq; len(databuf) != 0 && i < hold+W-1; i++\<close>: move \<open>seq\<close> over the acknowledged
  numbers, at most to \<open>lim\<close>. The third argument is \<open>seq\<close>, the fourth the count of steps.
\<close>

function slide :: "(int, Message) fmap \<Rightarrow> int \<Rightarrow> int \<Rightarrow> int \<Rightarrow> int \<Rightarrow> int \<times> int" where
  "slide db lim i sq ct =
     (if mlen db \<noteq> 0 \<and> i < lim
      then (case fmlookup db i of Some _ \<Rightarrow> (sq, ct) | None \<Rightarrow> slide db lim (i + 1) (sq + 1) (ct + 1))
      else (sq, ct))"
  by pat_completeness auto
termination
  by (relation "measure (\<lambda>(db, lim, i, sq, ct). nat (lim - i))") auto

declare slide.simps [simp del]

text \<open>
  \<open>for i := hold+W; len(writebuf) != 0 && i < hold+W+ct; i++\<close>: move the queued messages that
  fit now from \<open>writebuf\<close> to \<open>databuf\<close>; the last component of the result lists those sent.
\<close>

function refill :: "(int, Message) fmap \<Rightarrow> (int, Message) fmap \<Rightarrow> int \<Rightarrow> int
     \<Rightarrow> (int, Message) fmap \<times> (int, Message) fmap \<times> Message list" where
  "refill wb db i lim =
     (if mlen wb \<noteq> 0 \<and> i < lim
      then (case fmlookup wb i of
              Some v \<Rightarrow> (case refill (fmdrop i wb) (fmupd i v db) (i + 1) lim of
                          (wb', db', out) \<Rightarrow> (wb', db', v # out))
            | None \<Rightarrow> refill wb db (i + 1) lim)
      else (wb, db, []))"
  by pat_completeness auto
termination
  by (relation "measure (\<lambda>(wb, db, i, lim). nat (lim - i))") auto

declare refill.simps [simp del]

text \<open>\<open>for i := ack; i <= hi; i++ { delete(ackbuf, i) }\<close>\<close>

function trim :: "(int, Message) fmap \<Rightarrow> int \<Rightarrow> int \<Rightarrow> (int, Message) fmap" where
  "trim m i hi = (if i \<le> hi then trim (fmdrop i m) (i + 1) hi else m)"
  by pat_completeness auto
termination
  by (relation "measure (\<lambda>(m, i, hi). nat (hi + 1 - i))") auto

declare trim.simps [simp del]

lemma trim_lookup: "fmlookup (trim m i hi) k = (if i \<le> k \<and> k \<le> hi then None else fmlookup m k)"
proof (induction m i hi rule: trim.induct)
  case (1 m i hi)
  then show ?case
    by (subst trim.simps) auto
qed

text \<open>
  What \<open>slide\<close> computes: it advances both numbers by the same \<open>j\<close>, over numbers that are not in
  the map, not past \<open>lim\<close>, and not at all over an empty map.
\<close>

lemma slide_result:
  "\<exists>j. slide db lim i sq ct = (sq + j, ct + j) \<and> 0 \<le> j \<and>
     (\<forall>k. i \<le> k \<and> k < i + j \<longrightarrow> \<not> mhas db k) \<and> (0 < j \<longrightarrow> i + j \<le> lim) \<and>
     (db = fmempty \<longrightarrow> j = 0) \<and> (db \<noteq> fmempty \<and> i + j < lim \<longrightarrow> mhas db (i + j))"
proof (induction db lim i sq ct rule: slide.induct)
  case (1 db lim i sq ct)
  show ?case
  proof (cases "mlen db \<noteq> 0 \<and> i < lim \<and> fmlookup db i = None")
    case True
    with 1 obtain j where j: "slide db lim (i + 1) (sq + 1) (ct + 1) = (sq + 1 + j, ct + 1 + j)"
      "0 \<le> j" "\<forall>k. i + 1 \<le> k \<and> k < i + 1 + j \<longrightarrow> \<not> mhas db k" "0 < j \<longrightarrow> i + 1 + j \<le> lim"
      "db \<noteq> fmempty \<and> i + 1 + j < lim \<longrightarrow> mhas db (i + 1 + j)"
      by auto
    have "\<not> mhas db k" if "i \<le> k" "k < i + (1 + j)" for k
      using j(3) that True by (cases "k = i") (auto simp: mhas_def)
    with j True show ?thesis
      by (intro exI [of _ "1 + j"]) (auto simp: slide.simps [of db lim i] algebra_simps)
  next
    case False
    then show ?thesis
      by (intro exI [of _ 0]) (auto simp: slide.simps [of db lim i] mhas_def split: option.split)
  qed
qed

text \<open>What \<open>refill\<close> computes: exactly the entries between \<open>i\<close> and \<open>lim\<close> move.\<close>

definition refill_moves ::
    "(int, Message) fmap \<Rightarrow> (int, Message) fmap \<Rightarrow> int \<Rightarrow> int
     \<Rightarrow> (int, Message) fmap \<times> (int, Message) fmap \<times> Message list \<Rightarrow> bool" where
  "refill_moves wb db i lim r \<longleftrightarrow>
     (\<forall>k. fmlookup (fst r) k = (if i \<le> k \<and> k < lim then None else fmlookup wb k)) \<and>
     (\<forall>k. fmlookup (fst (snd r)) k =
        (if i \<le> k \<and> k < lim \<and> mhas wb k then fmlookup wb k else fmlookup db k)) \<and>
     (\<forall>m. m \<in> set (snd (snd r)) \<longleftrightarrow> (\<exists>k. i \<le> k \<and> k < lim \<and> fmlookup wb k = Some m))"

lemma refill_moves_skip:
  assumes "refill_moves wb db (i + 1) lim r" and "fmlookup wb i = None"
  shows "refill_moves wb db i lim r"
proof -
  have step: "i \<le> k \<longleftrightarrow> k = i \<or> i + 1 \<le> k" for k by arith
  show ?thesis using assms unfolding refill_moves_def by (auto simp: step mhas_def)
qed

lemma refill_moves_take:
  assumes "refill_moves (fmdrop i wb) (fmupd i v db) (i + 1) lim (wb', db', out)"
    and "fmlookup wb i = Some v" and "i < lim"
  shows "refill_moves wb db i lim (wb', db', v # out)"
proof -
  have wb: "fmlookup wb' k = (if i + 1 \<le> k \<and> k < lim then None else fmlookup (fmdrop i wb) k)"
    and db: "fmlookup db' k = (if i + 1 \<le> k \<and> k < lim \<and> mhas (fmdrop i wb) k
        then fmlookup (fmdrop i wb) k else fmlookup (fmupd i v db) k)"
    and out: "m \<in> set out \<longleftrightarrow> (\<exists>k. i + 1 \<le> k \<and> k < lim \<and> fmlookup (fmdrop i wb) k = Some m)"
    for k m
    using assms(1) by (auto simp: refill_moves_def)
  have "m \<in> set (v # out) \<longleftrightarrow> (\<exists>k. i \<le> k \<and> k < lim \<and> fmlookup wb k = Some m)" for m
  proof
    assume "m \<in> set (v # out)"
    then consider "m = v" | k where "i + 1 \<le> k" "k < lim" "fmlookup (fmdrop i wb) k = Some m"
      using out by auto
    then show "\<exists>k. i \<le> k \<and> k < lim \<and> fmlookup wb k = Some m"
    proof cases
      case 1
      then show ?thesis using assms(2,3) by blast
    next
      case 2
      then have "i \<le> k" "k < lim" "fmlookup wb k = Some m" by simp_all
      then show ?thesis by blast
    qed
  next
    assume "\<exists>k. i \<le> k \<and> k < lim \<and> fmlookup wb k = Some m"
    then obtain k where k: "i \<le> k" "k < lim" "fmlookup wb k = Some m" by blast
    show "m \<in> set (v # out)"
    proof (cases "k = i")
      case True
      then show ?thesis using k assms(2) by simp
    next
      case False
      with k have "i + 1 \<le> k" "k < lim" "fmlookup (fmdrop i wb) k = Some m" by simp_all
      then have "m \<in> set out" using out by blast
      then show ?thesis by simp
    qed
  qed
  moreover have "fmlookup wb' k = (if i \<le> k \<and> k < lim then None else fmlookup wb k)" for k
    using wb [of k] assms(3) by (cases "k = i") simp_all
  moreover have "fmlookup db' k = (if i \<le> k \<and> k < lim \<and> mhas wb k then fmlookup wb k else fmlookup db k)" for k
    using db [of k] assms(2,3) by (cases "k = i") (auto simp: mhas_def)
  ultimately show ?thesis by (simp add: refill_moves_def)
qed

lemma refill_spec: "refill_moves wb db i lim (refill wb db i lim)"
proof (induction wb db i lim rule: refill.induct)
  case (1 wb db i lim)
  show ?case
  proof (cases "mlen wb \<noteq> 0 \<and> i < lim")
    case False
    then show ?thesis by (auto simp: refill.simps [of wb db i lim] refill_moves_def)
  next
    case True
    show ?thesis
    proof (cases "fmlookup wb i")
      case None
      with True have "refill wb db i lim = refill wb db (i + 1) lim"
        by (simp add: refill.simps [of wb db i lim])
      moreover have "refill_moves wb db (i + 1) lim (refill wb db (i + 1) lim)"
        using "1.IH"(1) [OF True None] .
      ultimately show ?thesis using None by (simp add: refill_moves_skip)
    next
      case (Some v)
      obtain wb' db' out where r: "refill (fmdrop i wb) (fmupd i v db) (i + 1) lim = (wb', db', out)"
        by (metis prod_cases3)
      with True Some have "refill wb db i lim = (wb', db', v # out)"
        by (simp add: refill.simps [of wb db i lim])
      moreover have "refill_moves (fmdrop i wb) (fmupd i v db) (i + 1) lim (wb', db', out)"
        using "1.IH"(2) [OF True Some] r by simp
      ultimately show ?thesis using Some True by (simp add: refill_moves_take)
    qed
  qed
qed

lemma refill_lookup:
  assumes "refill wb db i lim = (wb', db', out)"
  shows "fmlookup wb' k = (if i \<le> k \<and> k < lim then None else fmlookup wb k)"
    and "fmlookup db' k = (if i \<le> k \<and> k < lim \<and> mhas wb k then fmlookup wb k else fmlookup db k)"
    and "m \<in> set out \<longleftrightarrow> (\<exists>k. i \<le> k \<and> k < lim \<and> fmlookup wb k = Some m)"
  using refill_spec [of wb db i lim] assms by (simp_all add: refill_moves_def)

section \<open>Operations on a connection\<close>

text \<open>A new message: into the window if it fits, otherwise into the queue.\<close>

definition enqueue :: "int \<Rightarrow> Message \<Rightarrow> Connect \<Rightarrow> Connect \<times> Message list" where
  "enqueue n m v =
     (if n < seq v + WindowSize (params v)
      then (v\<lparr>databuf := fmupd n m (databuf v)\<rparr>, [m])
      else (v\<lparr>writebuf := fmupd n m (writebuf v)\<rparr>, []))"

definition ack_in_window :: "int \<Rightarrow> Connect \<Rightarrow> bool" where
  "ack_in_window n v \<longleftrightarrow> seq v \<le> n \<and> n \<le> seq v + WindowSize (params v)"

text \<open>An acknowledgement inside the window: drop the message, and slide if it was the oldest.\<close>

definition ack_slide :: "int \<Rightarrow> Connect \<Rightarrow> Connect \<times> Message list" where
  "ack_slide n v =
     (let v1 = v\<lparr>databuf := fmdrop n (databuf v)\<rparr>
      in if n = seq v
         then (let hold = seq v1; W = WindowSize (params v1);
                   (sq, ct) = slide (databuf v1) (hold + W - 1) (hold + 1) (hold + 1) 1;
                   (wb, db, out) = refill (writebuf v1) (databuf v1) (hold + W) (hold + W + ct)
               in (v1\<lparr>seq := sq, writebuf := wb, databuf := db\<rparr>, out))
         else (v1, []))"

text \<open>
  A data message that is not older than \<open>ack\<close>: remember the acknowledgement, drop the memory of
  those a window behind, and keep the message if it is new (the second result).
\<close>

definition accept_data :: "int \<Rightarrow> Message \<Rightarrow> Connect \<Rightarrow> Connect \<times> bool" where
  "accept_data cid m v =
     (let n = SeqNum m; W = WindowSize (params v); ackk = NewAck cid n;
          ex = mhas (ackbuf v) n;
          v1 = v\<lparr>ackbuf := fmupd n ackk (ackbuf v)\<rparr>;
          v2 = (if n - W \<ge> ack v1
                then v1\<lparr>ackbuf := trim (ackbuf v1) (ack v1) (n - W), ack := n - W + 1\<rparr> else v1);
          v3 = (if \<not> ex then v2\<lparr>readbuf := fmupd n m (readbuf v2)\<rparr> else v2)
      in (v3, \<not> ex))"

lemma enqueue_frame [simp]:
  "params (fst (enqueue n m v)) = params v" "seq (fst (enqueue n m v)) = seq v"
  "ackbuf (fst (enqueue n m v)) = ackbuf v" "readbuf (fst (enqueue n m v)) = readbuf v"
  "ack (fst (enqueue n m v)) = ack v" "estab (fst (enqueue n m v)) = estab v"
  "losted (fst (enqueue n m v)) = losted v" "lastrece (fst (enqueue n m v)) = lastrece v"
  "receive (fst (enqueue n m v)) = receive v" "caddr (fst (enqueue n m v)) = caddr v"
  "conn (fst (enqueue n m v)) = conn v"
  by (simp_all add: enqueue_def)

lemma ack_slide_frame [simp]:
  "params (fst (ack_slide n v)) = params v" "ackbuf (fst (ack_slide n v)) = ackbuf v"
  "readbuf (fst (ack_slide n v)) = readbuf v" "ack (fst (ack_slide n v)) = ack v"
  "estab (fst (ack_slide n v)) = estab v" "losted (fst (ack_slide n v)) = losted v"
  "lastrece (fst (ack_slide n v)) = lastrece v" "receive (fst (ack_slide n v)) = receive v"
  "caddr (fst (ack_slide n v)) = caddr v" "conn (fst (ack_slide n v)) = conn v"
  by (simp_all add: ack_slide_def Let_def split_beta)

section \<open>The sending half\<close>

text \<open>
  \<open>hist\<close> lists the payloads written so far, so message \<open>n\<close> (counting from 1) is \<open>wmsg cid hist n\<close>;
  \<open>A\<close> is the set of the numbers the peer has acknowledged, \<open>ct\<close> the next number to use. Sent and
  not acknowledged messages lie in \<open>[seq, seq + W)\<close>, queued ones behind it, and nothing that was
  written is in neither place unless it was acknowledged.
\<close>

definition wmsg :: "int \<Rightarrow> bytes list \<Rightarrow> int \<Rightarrow> Message" where
  "wmsg cid hist n = NewData cid n (hist ! nat (n - 1))"

lemma wmsg_append: "1 \<le> n \<Longrightarrow> n \<le> int (length hist) \<Longrightarrow> wmsg cid (hist @ ps) n = wmsg cid hist n"
  by (simp add: wmsg_def nth_append nat_less_iff)

lemma wmsg_last: "n = int (length hist) + 1 \<Longrightarrow> wmsg cid (hist @ [p]) n = NewData cid n p"
  by (simp add: wmsg_def)

lemma SeqNum_wmsg [simp]: "SeqNum (wmsg cid hist n) = n" "ConnID (wmsg cid hist n) = cid"
  "Type (wmsg cid hist n) = MsgData"
  by (simp_all add: wmsg_def)

definition snd_inv :: "int \<Rightarrow> bytes list \<Rightarrow> int set \<Rightarrow> int \<Rightarrow> Connect \<Rightarrow> bool" where
  "snd_inv cid hist A ct v \<longleftrightarrow>
     ct = int (length hist) + 1 \<and> 1 \<le> WindowSize (params v) \<and> 1 \<le> seq v \<and> seq v \<le> ct \<and>
     (\<forall>n. n \<in> A \<longrightarrow> 1 \<le> n \<and> n < ct \<and> n < seq v + WindowSize (params v)) \<and>
     (\<forall>n m. fmlookup (databuf v) n = Some m \<longrightarrow>
        seq v \<le> n \<and> n < seq v + WindowSize (params v) \<and> n < ct \<and> m = wmsg cid hist n) \<and>
     (\<forall>n m. fmlookup (writebuf v) n = Some m \<longrightarrow>
        seq v + WindowSize (params v) \<le> n \<and> n < ct \<and> m = wmsg cid hist n) \<and>
     (\<forall>n. 1 \<le> n \<and> n < ct \<longrightarrow> n \<in> A \<or> mhas (databuf v) n \<or> mhas (writebuf v) n)"

lemma snd_invD:
  assumes "snd_inv cid hist A ct v"
  shows "ct = int (length hist) + 1" and "1 \<le> WindowSize (params v)" and "1 \<le> seq v" and "seq v \<le> ct"
    and "n \<in> A \<Longrightarrow> 1 \<le> n \<and> n < ct \<and> n < seq v + WindowSize (params v)"
    and "fmlookup (databuf v) n = Some m \<Longrightarrow>
      seq v \<le> n \<and> n < seq v + WindowSize (params v) \<and> n < ct \<and> m = wmsg cid hist n"
    and "fmlookup (writebuf v) n = Some m \<Longrightarrow>
      seq v + WindowSize (params v) \<le> n \<and> n < ct \<and> m = wmsg cid hist n"
    and "1 \<le> n \<Longrightarrow> n < ct \<Longrightarrow> n \<in> A \<or> mhas (databuf v) n \<or> mhas (writebuf v) n"
  using assms unfolding snd_inv_def by blast+

lemma snd_invI:
  assumes "ct = int (length hist) + 1" and "1 \<le> WindowSize (params v)" and "1 \<le> seq v" and "seq v \<le> ct"
    and "\<And>n. n \<in> A \<Longrightarrow> 1 \<le> n \<and> n < ct \<and> n < seq v + WindowSize (params v)"
    and "\<And>n m. fmlookup (databuf v) n = Some m \<Longrightarrow>
      seq v \<le> n \<and> n < seq v + WindowSize (params v) \<and> n < ct \<and> m = wmsg cid hist n"
    and "\<And>n m. fmlookup (writebuf v) n = Some m \<Longrightarrow>
      seq v + WindowSize (params v) \<le> n \<and> n < ct \<and> m = wmsg cid hist n"
    and "\<And>n. 1 \<le> n \<Longrightarrow> n < ct \<Longrightarrow> n \<in> A \<or> mhas (databuf v) n \<or> mhas (writebuf v) n"
  shows "snd_inv cid hist A ct v"
  using assms unfolding snd_inv_def by blast

lemma snd_inv_frame:
  assumes "params v' = params v" and "seq v' = seq v" and "databuf v' = databuf v"
    and "writebuf v' = writebuf v"
  shows "snd_inv cid hist A ct v' = snd_inv cid hist A ct v"
  using assms by (simp add: snd_inv_def)

lemma snd_inv_init:
  assumes "seq v = 1" and "databuf v = fmempty" and "writebuf v = fmempty"
    and "1 \<le> WindowSize (params v)"
  shows "snd_inv cid [] {} 1 v"
  using assms by (simp add: snd_inv_def)

text \<open>All that lies below the window has been acknowledged.\<close>

lemma snd_inv_below:
  assumes "snd_inv cid hist A ct v" and "1 \<le> n" and "n < seq v"
  shows "n \<in> A"
proof -
  have "n < ct" using snd_invD(4) [OF assms(1)] assms(3) by simp
  then have "n \<in> A \<or> mhas (databuf v) n \<or> mhas (writebuf v) n"
    using snd_invD(8) [OF assms(1)] assms(2) by blast
  moreover have "\<not> mhas (databuf v) n"
    using snd_invD(6) [OF assms(1)] assms(3) by (force simp: mhas_def)
  moreover have "\<not> mhas (writebuf v) n"
    using snd_invD(7) [OF assms(1)] snd_invD(2) [OF assms(1)] assms(3) by (force simp: mhas_def)
  ultimately show ?thesis by blast
qed

text \<open>The number of messages in flight is at most the window size.\<close>

lemma snd_inv_in_flight:
  assumes "snd_inv cid hist A ct v"
  shows "mlen (databuf v) \<le> nat (WindowSize (params v))"
proof -
  have "mlen (databuf v) \<le> nat (seq v + WindowSize (params v) - seq v)"
    by (rule mlen_interval) (use snd_invD(6) [OF assms] in \<open>force simp: mhas_def\<close>)
  then show ?thesis by simp
qed

lemma snd_inv_enqueue:
  assumes inv: "snd_inv cid hist A ct v"
  shows "snd_inv cid (hist @ [p]) A (ct + 1) (fst (enqueue ct (NewData cid ct p) v))"
proof -
  note D = snd_invD [OF inv]
  have new: "NewData cid ct p = wmsg cid (hist @ [p]) ct"
    using D(1) by (simp add: wmsg_last)
  have old: "wmsg cid (hist @ [p]) n = wmsg cid hist n" if "1 \<le> n" "n < ct" for n
    using D(1) that by (simp add: wmsg_append)
  show ?thesis
  proof (rule snd_invI)
    fix n m
    assume "fmlookup (databuf (fst (enqueue ct (NewData cid ct p) v))) n = Some m"
    then have "n = ct \<and> m = NewData cid ct p \<and> ct < seq v + WindowSize (params v) \<or>
        fmlookup (databuf v) n = Some m"
      by (auto simp: enqueue_def split: if_splits)
    with D(3) D(4) D(6) [of n m] new old [of n]
    show "seq (fst (enqueue ct (NewData cid ct p) v)) \<le> n \<and>
        n < seq (fst (enqueue ct (NewData cid ct p) v)) +
          WindowSize (params (fst (enqueue ct (NewData cid ct p) v))) \<and>
        n < ct + 1 \<and> m = wmsg cid (hist @ [p]) n"
      by auto
  next
    fix n m
    assume "fmlookup (writebuf (fst (enqueue ct (NewData cid ct p) v))) n = Some m"
    then have "n = ct \<and> m = NewData cid ct p \<and> seq v + WindowSize (params v) \<le> ct \<or>
        fmlookup (writebuf v) n = Some m"
      by (auto simp: enqueue_def split: if_splits)
    with D(2) D(3) D(7) [of n m] new old [of n]
    show "seq (fst (enqueue ct (NewData cid ct p) v)) +
          WindowSize (params (fst (enqueue ct (NewData cid ct p) v))) \<le> n \<and>
        n < ct + 1 \<and> m = wmsg cid (hist @ [p]) n"
      by auto
  next
    fix n :: int
    assume n: "1 \<le> n" "n < ct + 1"
    show "n \<in> A \<or> mhas (databuf (fst (enqueue ct (NewData cid ct p) v))) n \<or>
        mhas (writebuf (fst (enqueue ct (NewData cid ct p) v))) n"
      using D(8) [of n] n by (cases "n = ct") (auto simp: enqueue_def)
  qed (use D(1-5) in \<open>force simp: enqueue_def\<close>)+
qed

text \<open>
  What an acknowledgement does: the window moves up by some \<open>j\<close> (by none if a younger message is
  acknowledged), the messages that the new window admits move from the queue into it and are
  sent, and no message in flight falls behind it.
\<close>

definition slid :: "int \<Rightarrow> Connect \<Rightarrow> int \<Rightarrow> Connect \<Rightarrow> Message list \<Rightarrow> bool" where
  "slid n v j v' out \<longleftrightarrow>
     0 \<le> j \<and> j \<le> WindowSize (params v) \<and> (0 < j \<longleftrightarrow> n = seq v) \<and> seq v' = seq v + j \<and>
     (\<forall>k. fmlookup (databuf v') k =
        (if seq v + WindowSize (params v) \<le> k \<and> k < seq v + WindowSize (params v) + j \<and> mhas (writebuf v) k
         then fmlookup (writebuf v) k else if k = n then None else fmlookup (databuf v) k)) \<and>
     (\<forall>k. fmlookup (writebuf v') k =
        (if seq v + WindowSize (params v) \<le> k \<and> k < seq v + WindowSize (params v) + j
         then None else fmlookup (writebuf v) k)) \<and>
     (\<forall>m. m \<in> set out \<longleftrightarrow> (\<exists>k. seq v + WindowSize (params v) \<le> k \<and>
        k < seq v + WindowSize (params v) + j \<and> fmlookup (writebuf v) k = Some m)) \<and>
     (\<forall>k. mhas (databuf v) k \<longrightarrow> k \<noteq> n \<longrightarrow> seq v \<le> k \<longrightarrow> seq v + j \<le> k) \<and>
     (1 < j \<longrightarrow> (\<exists>k. mhas (databuf v) k \<and> k \<noteq> n))"

lemma slidD:
  assumes "slid n v j v' out"
  shows "0 \<le> j" and "j \<le> WindowSize (params v)" and "0 < j \<longleftrightarrow> n = seq v" and "seq v' = seq v + j"
    and "fmlookup (databuf v') k =
      (if seq v + WindowSize (params v) \<le> k \<and> k < seq v + WindowSize (params v) + j \<and> mhas (writebuf v) k
       then fmlookup (writebuf v) k else if k = n then None else fmlookup (databuf v) k)"
    and "fmlookup (writebuf v') k =
      (if seq v + WindowSize (params v) \<le> k \<and> k < seq v + WindowSize (params v) + j
       then None else fmlookup (writebuf v) k)"
    and "m \<in> set out \<longleftrightarrow> (\<exists>k. seq v + WindowSize (params v) \<le> k \<and>
        k < seq v + WindowSize (params v) + j \<and> fmlookup (writebuf v) k = Some m)"
    and "mhas (databuf v) k \<Longrightarrow> k \<noteq> n \<Longrightarrow> seq v \<le> k \<Longrightarrow> seq v + j \<le> k"
    and "1 < j \<Longrightarrow> \<exists>k. mhas (databuf v) k \<and> k \<noteq> n"
  using assms unfolding slid_def by blast+

lemma slid_unmoved: "n \<noteq> seq v \<Longrightarrow> 1 \<le> WindowSize (params v) \<Longrightarrow>
  slid n v 0 (fst (ack_slide n v)) (snd (ack_slide n v))"
  by (auto simp: slid_def ack_slide_def)

lemma slid_moved:
  assumes n: "n = seq v" and W: "1 \<le> WindowSize (params v)"
  shows "\<exists>j. slid n v j (fst (ack_slide n v)) (snd (ack_slide n v))"
proof -
  let ?W = "WindowSize (params v)" and ?db = "fmdrop n (databuf v)"
  obtain j where sl: "slide ?db (n + ?W - 1) (n + 1) (n + 1) 1 = (n + 1 + j, 1 + j)" and j0: "0 \<le> j"
    and gap: "\<forall>k. n + 1 \<le> k \<and> k < n + 1 + j \<longrightarrow> \<not> mhas ?db k"
    and lim: "0 < j \<longrightarrow> n + 1 + j \<le> n + ?W - 1" and emp: "?db = fmempty \<longrightarrow> j = 0"
    using slide_result [of ?db "n + ?W - 1" "n + 1" "n + 1" 1] by blast
  obtain wb' db' out where re: "refill (writebuf v) ?db (n + ?W) (n + ?W + (1 + j)) = (wb', db', out)"
    by (metis prod_cases3)
  have eq: "ack_slide n v = (v\<lparr>databuf := db', writebuf := wb', seq := n + 1 + j\<rparr>, out)"
    using n sl re by (simp add: ack_slide_def Let_def)
  have above: "n + (1 + j) \<le> k" if "mhas (databuf v) k" "k \<noteq> n" "n \<le> k" for k
    using gap [rule_format, of k] that by (cases "k < n + 1 + j") auto
  have more: "\<exists>k. mhas (databuf v) k \<and> k \<noteq> n" if "1 < 1 + j"
  proof -
    have "?db \<noteq> fmempty" using that emp by auto
    then obtain k where "mhas ?db k" by (auto simp: fmap_empty_iff mhas_def)
    then show ?thesis by auto
  qed
  have jW: "1 + j \<le> ?W" using j0 lim W by (cases "0 < j") auto
  have "slid n v (1 + j) (fst (ack_slide n v)) (snd (ack_slide n v))"
    unfolding slid_def eq using n j0 jW above more refill_lookup [OF re] by simp
  then show ?thesis by blast
qed

lemma ack_slide_slid:
  assumes "1 \<le> WindowSize (params v)"
  obtains j where "slid n v j (fst (ack_slide n v)) (snd (ack_slide n v))"
  using assms slid_moved slid_unmoved by (cases "n = seq v") blast+

text \<open>The window never passes the next number to use.\<close>

lemma slid_bound:
  assumes inv: "snd_inv cid hist A ct v" and n: "n < ct" and sl: "slid n v j v' out"
  shows "seq v + j \<le> ct"
proof (cases "1 < j")
  case True
  then obtain k where k: "mhas (databuf v) k" "k \<noteq> n" using slidD(9) [OF sl] by blast
  then have "seq v \<le> k" "k < ct" using snd_invD(6) [OF inv, of k] by (auto simp: mhas_def)
  then show ?thesis using slidD(8) [OF sl k] by simp
next
  case False
  then show ?thesis
    using slidD(1,3) [OF sl] snd_invD(4) [OF inv] n by (cases "j = 0") auto
qed

lemma slid_snd_inv:
  assumes inv: "snd_inv cid hist A ct v" and n: "seq v \<le> n" "n < ct" "n < seq v + WindowSize (params v)"
    and sl: "slid n v j v' out" and par: "params v' = params v"
  shows "snd_inv cid hist (insert n A) ct v'"
proof (rule snd_invI)
  note D = snd_invD [OF inv] and S = slidD [OF sl]
  show "ct = int (length hist) + 1" "1 \<le> WindowSize (params v')" "1 \<le> seq v'" "seq v' \<le> ct"
    using D(1-3) S(1,4) par slid_bound [OF inv n(2) sl] by simp_all
  show "1 \<le> k \<and> k < ct \<and> k < seq v' + WindowSize (params v')" if "k \<in> insert n A" for k
    using that D(3) D(5) [of k] S(1,4) n par by auto
  show "seq v' \<le> k \<and> k < seq v' + WindowSize (params v') \<and> k < ct \<and> m = wmsg cid hist k"
    if "fmlookup (databuf v') k = Some m" for k m
    using that S(1,2,4) S(5) [of k] S(8) [of k] D(6) [of k m] D(7) [of k m] par
    by (auto simp: mhas_def split: if_splits)
  show "seq v' + WindowSize (params v') \<le> k \<and> k < ct \<and> m = wmsg cid hist k"
    if "fmlookup (writebuf v') k = Some m" for k m
    using that S(4) S(6) [of k] D(7) [of k m] par by (auto split: if_splits)
  show "k \<in> insert n A \<or> mhas (databuf v') k \<or> mhas (writebuf v') k" if "1 \<le> k" "k < ct" for k
    using D(8) [OF that] S(5) [of k] S(6) [of k] by (auto simp: mhas_def)
qed

text \<open>
  Processing an acknowledgement keeps the invariant, moves the window up, and sends only messages
  that are in flight afterwards.
\<close>

lemma snd_inv_ack:
  assumes inv: "snd_inv cid hist A ct v" and n: "seq v \<le> n" "n < ct" "n < seq v + WindowSize (params v)"
  shows "snd_inv cid hist (insert n A) ct (fst (ack_slide n v))"
    and "seq v \<le> seq (fst (ack_slide n v))"
    and "m \<in> set (snd (ack_slide n v)) \<Longrightarrow> \<exists>k. fmlookup (databuf (fst (ack_slide n v))) k = Some m"
proof -
  obtain j where sl: "slid n v j (fst (ack_slide n v)) (snd (ack_slide n v))"
    using ack_slide_slid snd_invD(2) [OF inv] by blast
  show "snd_inv cid hist (insert n A) ct (fst (ack_slide n v))"
    by (rule slid_snd_inv [OF inv n sl]) simp
  show "seq v \<le> seq (fst (ack_slide n v))"
    using slidD(1,4) [OF sl] by simp
  show "\<exists>k. fmlookup (databuf (fst (ack_slide n v))) k = Some m" if "m \<in> set (snd (ack_slide n v))"
    using that slidD(5) [OF sl] unfolding slidD(7) [OF sl] by (force simp: mhas_def)
qed

end
