(* ===== verification/LspReceive.thy ===== *)
theory LspReceive
  imports LspWindow
begin

text \<open>
  The receiving half of the window: the invariant of \<open>ack\<close>, \<open>ackbuf\<close> and \<open>readbuf\<close>, kept by
  \<open>accept_data\<close> (a data message arrives) and by the hand-over of the next message in order to
  the reader. \<open>R\<close> is the set of the numbers of the messages that have arrived, \<open>rct\<close> the number of
  the next message to hand over (\<open>readct\<close> in the code).
\<close>

definition rcv_inv :: "int \<Rightarrow> bytes list \<Rightarrow> int set \<Rightarrow> int \<Rightarrow> Connect \<Rightarrow> bool" where
  "rcv_inv cid hist R rct v \<longleftrightarrow>
     1 \<le> WindowSize (params v) \<and> 1 \<le> ack v \<and> 1 \<le> rct \<and>
     (\<forall>n. n \<in> R \<longrightarrow> 1 \<le> n \<and> n \<le> int (length hist)) \<and>
     (\<forall>n. mhas (ackbuf v) n \<longleftrightarrow> n \<in> R \<and> ack v \<le> n) \<and>
     (\<forall>n m. fmlookup (ackbuf v) n = Some m \<longrightarrow> m = NewAck cid n) \<and>
     (\<forall>n. 1 \<le> n \<and> n < ack v \<longrightarrow> n \<in> R) \<and>
     (\<forall>n. mhas (readbuf v) n \<longleftrightarrow> n \<in> R \<and> rct \<le> n) \<and>
     (\<forall>n m. fmlookup (readbuf v) n = Some m \<longrightarrow> m = wmsg cid hist n) \<and>
     (\<forall>n. 1 \<le> n \<and> n < rct \<longrightarrow> n \<in> R) \<and>
     (ack v = 1 \<or> ack v + WindowSize (params v) - 1 \<in> R)"

lemma rcv_invD:
  assumes "rcv_inv cid hist R rct v"
  shows "1 \<le> WindowSize (params v)" and "1 \<le> ack v" and "1 \<le> rct"
    and "n \<in> R \<Longrightarrow> 1 \<le> n \<and> n \<le> int (length hist)"
    and "mhas (ackbuf v) n \<longleftrightarrow> n \<in> R \<and> ack v \<le> n"
    and "fmlookup (ackbuf v) n = Some m \<Longrightarrow> m = NewAck cid n"
    and "1 \<le> n \<Longrightarrow> n < ack v \<Longrightarrow> n \<in> R"
    and "mhas (readbuf v) n \<longleftrightarrow> n \<in> R \<and> rct \<le> n"
    and "fmlookup (readbuf v) n = Some m \<Longrightarrow> m = wmsg cid hist n"
    and "1 \<le> n \<Longrightarrow> n < rct \<Longrightarrow> n \<in> R"
    and "ack v = 1 \<or> ack v + WindowSize (params v) - 1 \<in> R"
  using assms unfolding rcv_inv_def by blast+

lemma rcv_invI:
  assumes "1 \<le> WindowSize (params v)" and "1 \<le> ack v" and "1 \<le> rct"
    and "\<And>n. n \<in> R \<Longrightarrow> 1 \<le> n \<and> n \<le> int (length hist)"
    and "\<And>n. mhas (ackbuf v) n \<longleftrightarrow> n \<in> R \<and> ack v \<le> n"
    and "\<And>n m. fmlookup (ackbuf v) n = Some m \<Longrightarrow> m = NewAck cid n"
    and "\<And>n. 1 \<le> n \<Longrightarrow> n < ack v \<Longrightarrow> n \<in> R"
    and "\<And>n. mhas (readbuf v) n \<longleftrightarrow> n \<in> R \<and> rct \<le> n"
    and "\<And>n m. fmlookup (readbuf v) n = Some m \<Longrightarrow> m = wmsg cid hist n"
    and "\<And>n. 1 \<le> n \<Longrightarrow> n < rct \<Longrightarrow> n \<in> R"
    and "ack v = 1 \<or> ack v + WindowSize (params v) - 1 \<in> R"
  shows "rcv_inv cid hist R rct v"
  using assms unfolding rcv_inv_def by blast

lemma rcv_inv_frame:
  assumes "params v' = params v" and "ack v' = ack v" and "ackbuf v' = ackbuf v"
    and "readbuf v' = readbuf v"
  shows "rcv_inv cid hist R rct v' = rcv_inv cid hist R rct v"
  using assms by (simp add: rcv_inv_def)

lemma rcv_inv_init:
  assumes "ack v = 1" and "ackbuf v = fmempty" and "readbuf v = fmempty"
    and "1 \<le> WindowSize (params v)"
  shows "rcv_inv cid hist {} 1 v"
  using assms by (simp add: rcv_inv_def)

lemma rcv_inv_hist:
  assumes inv: "rcv_inv cid hist R rct v"
  shows "rcv_inv cid (hist @ ps) R rct v"
proof (rule rcv_invI)
  note D = rcv_invD [OF inv]
  show "m = wmsg cid (hist @ ps) n" if "fmlookup (readbuf v) n = Some m" for n m
  proof -
    have "n \<in> R" using D(8) [of n] that by (simp add: mhas_def)
    then show ?thesis using D(4) [of n] D(9) [OF that] by (simp add: wmsg_append)
  qed
  show "1 \<le> n \<and> n \<le> int (length (hist @ ps))" if "n \<in> R" for n
    using D(4) [OF that] by simp
  show "mhas (ackbuf v) n \<longleftrightarrow> n \<in> R \<and> ack v \<le> n" "mhas (readbuf v) n \<longleftrightarrow> n \<in> R \<and> rct \<le> n" for n
    using D(5,8) by blast+
qed (use rcv_invD [OF inv] in blast)+

text \<open>What \<open>accept_data\<close> does to the buffers.\<close>

lemma accept_data_fields:
  assumes W: "1 \<le> WindowSize (params v)" and n: "ack v \<le> SeqNum m"
  shows "ack (fst (accept_data cid m v)) = max (ack v) (SeqNum m - WindowSize (params v) + 1)"
    and "mhas (ackbuf (fst (accept_data cid m v))) k \<longleftrightarrow>
      (k = SeqNum m \<or> mhas (ackbuf v) k) \<and>
      (\<not> (ack v \<le> k \<and> k \<le> SeqNum m - WindowSize (params v)))"
    and "fmlookup (ackbuf (fst (accept_data cid m v))) k = Some x \<Longrightarrow>
      k = SeqNum m \<and> x = NewAck cid (SeqNum m) \<or> fmlookup (ackbuf v) k = Some x"
    and "readbuf (fst (accept_data cid m v)) =
      (if mhas (ackbuf v) (SeqNum m) then readbuf v else fmupd (SeqNum m) m (readbuf v))"
    and "snd (accept_data cid m v) \<longleftrightarrow> \<not> mhas (ackbuf v) (SeqNum m)"
  using W n by (auto simp: accept_data_def Let_def mhas_def trim_lookup split: if_splits)

lemma accept_data_frame [simp]:
  "params (fst (accept_data cid m v)) = params v" "seq (fst (accept_data cid m v)) = seq v"
  "databuf (fst (accept_data cid m v)) = databuf v" "writebuf (fst (accept_data cid m v)) = writebuf v"
  "estab (fst (accept_data cid m v)) = estab v" "losted (fst (accept_data cid m v)) = losted v"
  "lastrece (fst (accept_data cid m v)) = lastrece v" "receive (fst (accept_data cid m v)) = receive v"
  "caddr (fst (accept_data cid m v)) = caddr v" "conn (fst (accept_data cid m v)) = conn v"
  by (simp_all add: accept_data_def Let_def)

text \<open>
  A genuine message arrives, old or new, once or many times: the invariant holds with its number
  added. The sender's window must not be larger than the receiver's (the last premise): all
  messages a window behind have arrived, so nothing is thrown away that has not been received.
\<close>

lemma rcv_inv_accept:
  assumes inv: "rcv_inv cid hist R rct v" and m: "m = wmsg cid hist n"
    and n: "1 \<le> n" "n \<le> int (length hist)" "ack v \<le> n"
    and prev: "\<And>k. 1 \<le> k \<Longrightarrow> k \<le> n - WindowSize (params v) \<Longrightarrow> k \<in> R"
  shows "rcv_inv cid hist (insert n R) rct (fst (accept_data cid m v))"
proof (rule rcv_invI)
  note D = rcv_invD [OF inv]
  have sn: "SeqNum m = n" using m by simp
  note F = accept_data_fields [OF D(1), of m, unfolded sn, OF n(3), where cid = cid]
  let ?v = "fst (accept_data cid m v)"
  show "1 \<le> WindowSize (params ?v)" "1 \<le> ack ?v" "1 \<le> rct"
    using D(1-3) F(1) by simp_all
  show "1 \<le> k \<and> k \<le> int (length hist)" if "k \<in> insert n R" for k
    using that D(4) [of k] n by auto
  show "mhas (ackbuf ?v) k \<longleftrightarrow> k \<in> insert n R \<and> ack ?v \<le> k" for k
    using D(1) D(5) [of k] F(1) F(2) [of k] n by auto
  show "x = NewAck cid k" if "fmlookup (ackbuf ?v) k = Some x" for k x
    using F(3) [OF that] D(6) by blast
  show "k \<in> insert n R" if "1 \<le> k" "k < ack ?v" for k
    using that F(1) D(7) [of k] prev [of k] by (auto simp: max_def split: if_splits)
  show "mhas (readbuf ?v) k \<longleftrightarrow> k \<in> insert n R \<and> rct \<le> k" for k
    using D(5) [of n] D(8) [of k] D(10) [of n] F(4) n by (cases "n < rct") auto
  show "x = wmsg cid hist k" if "fmlookup (readbuf ?v) k = Some x" for k x
    using that F(4) D(9) m by (auto split: if_splits)
  show "k \<in> insert n R" if "1 \<le> k" "k < rct" for k
    using D(10) [OF that] by simp
  show "ack ?v = 1 \<or> ack ?v + WindowSize (params ?v) - 1 \<in> insert n R"
    using D(11) F(1) by (simp add: max_def)
qed

text \<open>A message older than \<open>ack\<close> has been received before: ignoring it loses nothing.\<close>

lemma rcv_inv_old: "rcv_inv cid hist R rct v \<Longrightarrow> 1 \<le> n \<Longrightarrow> n < ack v \<Longrightarrow> insert n R = R"
  using rcv_invD(7) by blast

text \<open>The reader takes the next message.\<close>

definition take_read :: "int \<Rightarrow> Connect \<Rightarrow> Connect" where
  "take_read rct v = v\<lparr>readbuf := fmdrop rct (readbuf v)\<rparr>"

lemma take_read_frame [simp]:
  "params (take_read n v) = params v" "seq (take_read n v) = seq v"
  "databuf (take_read n v) = databuf v" "writebuf (take_read n v) = writebuf v"
  "estab (take_read n v) = estab v" "losted (take_read n v) = losted v"
  "ack (take_read n v) = ack v" "ackbuf (take_read n v) = ackbuf v"
  "lastrece (take_read n v) = lastrece v" "receive (take_read n v) = receive v"
  "caddr (take_read n v) = caddr v" "conn (take_read n v) = conn v"
  by (simp_all add: take_read_def)

lemma rcv_inv_read:
  assumes inv: "rcv_inv cid hist R rct v" and m: "fmlookup (readbuf v) rct = Some m"
  shows "rcv_inv cid hist R (rct + 1) (take_read rct v)"
    and "m = wmsg cid hist rct" and "1 \<le> rct \<and> rct \<le> int (length hist)"
proof -
  note D = rcv_invD [OF inv]
  have rct: "rct \<in> R" using D(8) [of rct] m by (simp add: mhas_def)
  show "m = wmsg cid hist rct" using D(9) [OF m] .
  show "1 \<le> rct \<and> rct \<le> int (length hist)" using D(4) [OF rct] .
  show "rcv_inv cid hist R (rct + 1) (take_read rct v)"
  proof (rule rcv_invI)
    show "mhas (readbuf (take_read rct v)) k \<longleftrightarrow> k \<in> R \<and> rct + 1 \<le> k" for k
      using D(8) [of k] by (auto simp: take_read_def)
    show "x = wmsg cid hist k" if "fmlookup (readbuf (take_read rct v)) k = Some x" for k x
      using that D(9) by (auto simp: take_read_def split: if_splits)
    show "k \<in> R" if "1 \<le> k" "k < rct + 1" for k
      using that D(10) [of k] rct by (cases "k = rct") auto
    show "mhas (ackbuf (take_read rct v)) k \<longleftrightarrow> k \<in> R \<and> ack (take_read rct v) \<le> k" for k
      using D(5) by simp
    show "x = NewAck cid k" if "fmlookup (ackbuf (take_read rct v)) k = Some x" for k x
      using that D(6) by simp
    show "k \<in> R" if "1 \<le> k" "k < ack (take_read rct v)" for k
      using that D(7) by simp
    show "1 \<le> k \<and> k \<le> int (length hist)" if "k \<in> R" for k
      using D(4) [OF that] .
  qed (use D(1-3) D(11) in simp_all)
qed

section \<open>Steps that leave the window alone\<close>

text \<open>Two connections that agree on all that the window invariants look at.\<close>

definition same_window :: "Connect \<Rightarrow> Connect \<Rightarrow> bool" where
  "same_window v v' \<longleftrightarrow>
     params v' = params v \<and> seq v' = seq v \<and> databuf v' = databuf v \<and> writebuf v' = writebuf v \<and>
     ack v' = ack v \<and> ackbuf v' = ackbuf v \<and> readbuf v' = readbuf v \<and> caddr v' = caddr v"

lemma same_window_refl [simp]: "same_window v v"
  by (simp add: same_window_def)

lemma same_window_trans: "same_window u v \<Longrightarrow> same_window v w \<Longrightarrow> same_window u w"
  by (simp add: same_window_def)

lemma same_window_snd: "same_window v v' \<Longrightarrow> snd_inv cid h A ct v' = snd_inv cid h A ct v"
  by (rule snd_inv_frame) (simp_all add: same_window_def)

lemma same_window_rcv: "same_window v v' \<Longrightarrow> rcv_inv cid h R k v' = rcv_inv cid h R k v"
  by (rule rcv_inv_frame) (simp_all add: same_window_def)

text \<open>
  Facts that need no invariant: which entries the buffers can have after each operation. They
  carry the claim that a connection's buffers hold messages of that connection only.
\<close>

lemma refill_subset:
  assumes "refill wb db i lim = (wb', db', out)"
  shows "fmlookup db' k = Some m \<Longrightarrow> fmlookup db k = Some m \<or> fmlookup wb k = Some m"
    and "fmlookup wb' k = Some m \<Longrightarrow> fmlookup wb k = Some m"
    and "m \<in> set out \<Longrightarrow> \<exists>k. fmlookup db' k = Some m"
  using refill_lookup(1,2) [OF assms, of k] refill_lookup(2,3) [OF assms]
  by (auto simp: mhas_def split: if_splits)

lemma ack_slide_subset:
  shows "fmlookup (databuf (fst (ack_slide n v))) k = Some m \<Longrightarrow>
      fmlookup (databuf v) k = Some m \<or> fmlookup (writebuf v) k = Some m"
    and "fmlookup (writebuf (fst (ack_slide n v))) k = Some m \<Longrightarrow> fmlookup (writebuf v) k = Some m"
    and "m \<in> set (snd (ack_slide n v)) \<Longrightarrow> \<exists>k. fmlookup (databuf (fst (ack_slide n v))) k = Some m"
proof -
  obtain j where j: "slide (fmdrop n (databuf v)) (seq v + WindowSize (params v) - 1) (seq v + 1) (seq v + 1) 1
      = (seq v + 1 + j, 1 + j)"
    using slide_result [of "fmdrop n (databuf v)" "seq v + WindowSize (params v) - 1"
      "seq v + 1" "seq v + 1" 1] by blast
  obtain wb' db' out where r: "refill (writebuf v) (fmdrop n (databuf v)) (seq v + WindowSize (params v))
      (seq v + WindowSize (params v) + (1 + j)) = (wb', db', out)"
    by (metis prod_cases3)
  note R = refill_subset [OF r]
  have eq: "n = seq v \<Longrightarrow> databuf (fst (ack_slide n v)) = db' \<and> writebuf (fst (ack_slide n v)) = wb' \<and>
      snd (ack_slide n v) = out"
    "n \<noteq> seq v \<Longrightarrow> databuf (fst (ack_slide n v)) = fmdrop n (databuf v) \<and>
      writebuf (fst (ack_slide n v)) = writebuf v \<and> snd (ack_slide n v) = []"
    using j r by (simp_all add: ack_slide_def Let_def)
  show "fmlookup (databuf (fst (ack_slide n v))) k = Some m \<Longrightarrow>
      fmlookup (databuf v) k = Some m \<or> fmlookup (writebuf v) k = Some m"
    using eq R(1) [of k m] by (cases "n = seq v") (auto split: if_splits)
  show "fmlookup (writebuf (fst (ack_slide n v))) k = Some m \<Longrightarrow> fmlookup (writebuf v) k = Some m"
    using eq R(2) [of k m] by (cases "n = seq v") auto
  show "m \<in> set (snd (ack_slide n v)) \<Longrightarrow> \<exists>k. fmlookup (databuf (fst (ack_slide n v))) k = Some m"
    using eq R(3) [of m] by (cases "n = seq v") auto
qed

lemma accept_data_subset:
  shows "fmlookup (ackbuf (fst (accept_data cid m v))) k = Some x \<Longrightarrow>
      k = SeqNum m \<and> x = NewAck cid k \<or> fmlookup (ackbuf v) k = Some x"
    and "fmlookup (readbuf (fst (accept_data cid m v))) k = Some x \<Longrightarrow>
      k = SeqNum m \<and> x = m \<or> fmlookup (readbuf v) k = Some x"
  by (auto simp: accept_data_def Let_def trim_lookup split: if_splits)

end
