(* ===== verification/LspClient.thy ===== *)
theory LspClient
  imports LspReceive
begin

text \<open>
  The client of \<open>lsp/client_impl.go\<close>: the state of the \<open>client\<close> struct, the handlers its goroutine
  runs for the packets of the channel \<open>req\<close>, and the functions of the API, which post a packet and
  wait for the answer on a channel. A result \<open>None\<close> of a handler is a nil pointer dereference.
\<close>

section \<open>State\<close>

record client =
  c_initparams :: Params
  c_conn :: Connect
  c_conId :: int
  c_closepend :: bool
  c_closeack :: bool
  c_sendct :: int
  c_readct :: int
  c_readnum :: int
  c_lastreadnum :: int

text \<open>The struct as \<open>NewClient\<close> builds it, with the connection that \<open>dial\<close> has filled in.\<close>

definition dial :: "UDPAddr option \<Rightarrow> UDPConn option \<Rightarrow> Connect \<Rightarrow> Connect option" where
  "dial resolved dialled now =
     (case resolved of
        None \<Rightarrow> None
      | Some serverAddr \<Rightarrow>
          (case dialled of
             None \<Rightarrow> None
           | Some c \<Rightarrow> Some (now\<lparr>caddr := Some (UDPAddr_String serverAddr), conn := Some c\<rparr>)))"

definition new_client :: "Params \<Rightarrow> client" where
  "new_client parm =
     \<lparr>c_initparams = parm, c_conn = NewConnection parm, c_conId = 0, c_closepend = False,
      c_closeack = False, c_sendct = 1, c_readct = 1, c_readnum = 0, c_lastreadnum = 0\<rparr>"

text \<open>
  \<open>NewClient\<close> up to the point where it waits (\<open>None\<close>: an error), and what it does with the
  signal it gets: \<open>LostSignal\<close> from \<open>lost\<close>, \<open>BuildSignal\<close> from \<open>build\<close>. The result is an error or
  the client.
\<close>

definition NewClient_start ::
    "UDPAddr option \<Rightarrow> UDPConn option \<Rightarrow> Params \<Rightarrow> (client \<times> effect list) option" where
  "NewClient_start resolved dialled parm =
     (let c = new_client parm in
      case dial resolved dialled (c_conn c) of
        None \<Rightarrow> None
      | Some cn \<Rightarrow> Some (c\<lparr>c_conn := cn\<rparr>, [Req (Pkt (Some zero_Message) None cconnects)]))"

datatype signal = LostSignal | BuildSignal

definition NewClient_wait :: "signal \<Rightarrow> client \<Rightarrow> (string + client) \<times> effect list" where
  "NewClient_wait sig c =
     (case sig of
        LostSignal \<Rightarrow>
          (Inl ''connection is lost during establishment'',
           [ExitEpo, Exit] @ Connect_close (c_conn c))
      | BuildSignal \<Rightarrow>
          (Inr (c\<lparr>c_conn := (c_conn c)\<lparr>lastrece := receive (c_conn c), estab := True\<rparr>\<rparr>), []))"

section \<open>Closing\<close>

text \<open>
  \<open>Close\<close> posts a packet, waits for one from \<open>over\<close> (the argument) and shuts the goroutines down.
  It returns an error in every case.
\<close>

definition client_Close :: "Packet \<Rightarrow> client \<Rightarrow> client \<times> effect list" where
  "client_Close x c =
     (if contype x > 0
      then (c\<lparr>c_conn := (c_conn c)\<lparr>estab := False\<rparr>\<rparr>,
            [Req (Pkt None None cclose), TakeOver] @ Connect_close (c_conn c) @ [ExitEpo, Exit])
      else (c, [Req (Pkt None None cclose), TakeOver]))"

definition client_Close_result :: "client \<Rightarrow> string option" where
  "client_Close_result c = Some (''#Client# client '' @ show_int (c_conId c) @ ''closed'')"

section \<open>Handlers\<close>

definition client_handleEstab :: "client \<Rightarrow> client \<times> effect list" where
  "client_handleEstab c = (c, [Send NewConnect])"

text \<open>
  One epoch has passed. The first two arguments are the orders in which the resend loops visit
  \<open>ackbuf\<close> and \<open>databuf\<close>. The packet on \<open>over\<close> that the nested call of \<open>Close\<close> takes is the one put
  there just before: all packets ever sent on that channel are the same.
\<close>

definition client_lost :: "client \<Rightarrow> client \<times> effect list" where
  "client_lost c =
     (let c1 = c\<lparr>c_conn := (c_conn c)\<lparr>losted := True\<rparr>\<rparr>;
          e1 = [Replyread (Pkt None None (- 2))]
      in if c_closepend c1
         then (c1\<lparr>c_closeack := True\<rparr>, e1 @ [Req (Pkt None None cclose)])
         else (let ss = Pkt None None 5; (c2, e2) = client_Close ss c1
               in (c2, e1 @ [Over ss] @ e2)))"

definition client_handleEpoch :: "int list \<Rightarrow> int list \<Rightarrow> client \<Rightarrow> client \<times> effect list" where
  "client_handleEpoch oa od c =
     (if c_conId c = 0
      then (c\<lparr>c_conn := (c_conn c)\<lparr>lastrece := receive (c_conn c)\<rparr>\<rparr>, [Send NewConnect])
      else
        let e0 = [Send (NewAck (c_conId c) 0)];
            c1 = c\<lparr>c_conn := (c_conn c)\<lparr>receive := receive (c_conn c) + 1\<rparr>\<rparr>;
            v1 = c_conn c1
        in if receive v1 - lastrece v1 \<ge> EpochLimit (params v1) \<and> c_conId c1 = 0
           then (c1, e0 @ [Lost])
           else
             let (c2, e2) =
               (if receive v1 - lastrece v1 \<ge> EpochLimit (params v1) then client_lost c1 else (c1, []))
             in (c2, e0 @ e2 @ map Send (range_vals oa (ackbuf (c_conn c2)))
                           @ map Send (range_vals od (databuf (c_conn c2)))))"

text \<open>An acknowledgement, a data message, and the guards in front of both.\<close>

definition client_ack :: "Message \<Rightarrow> client \<Rightarrow> client \<times> effect list" where
  "client_ack m c =
     (if c_conId c = 0 \<and> SeqNum m = 0 \<and> \<not> estab (c_conn c)
      then (c\<lparr>c_conId := ConnID m, c_conn := (c_conn c)\<lparr>seq := seq (c_conn c) + 1\<rparr>\<rparr>, [Build])
      else if c_conId c > 0 \<and> SeqNum m = 0 \<and> estab (c_conn c)
      then (c\<lparr>c_conn := (c_conn c)\<lparr>lastrece := receive (c_conn c)\<rparr>\<rparr>, [])
      else if ack_in_window (SeqNum m) (c_conn c)
      then (let (v, out) = ack_slide (SeqNum m) ((c_conn c)\<lparr>receive := lastrece (c_conn c)\<rparr>)
            in (c\<lparr>c_conn := v\<rparr>, map Send out))
      else (c, []))"

definition client_data :: "Message \<Rightarrow> client \<Rightarrow> client \<times> effect list" where
  "client_data m c =
     (if SeqNum m \<ge> ack (c_conn c) \<and> \<not> losted (c_conn c) \<and> estab (c_conn c)
      then (let (v, fresh) = accept_data (c_conId c) m ((c_conn c)\<lparr>receive := lastrece (c_conn c)\<rparr>)
            in (c\<lparr>c_conn := v\<rparr>,
                Send (NewAck (c_conId c) (SeqNum m)) #
                  (if fresh then [Req (Pkt None None cread)] else [])))
      else (c, []))"

definition client_handleReceive :: "Message \<Rightarrow> client \<Rightarrow> client \<times> effect list" where
  "client_handleReceive m c =
     (if Type m = MsgConnect then (c, [])
      else if c_closepend c \<and> mlen (writebuf (c_conn c)) = 0 \<and> mlen (databuf (c_conn c)) = 0
      then (c\<lparr>c_closeack := True\<rparr>, [Req (Pkt None None cclose)])
      else if c_closepend c \<and> losted (c_conn c)
      then (c\<lparr>c_closeack := True\<rparr>, [Req (Pkt None None cclose)])
      else if c_closepend c \<and> Type m \<noteq> MsgAck then (c, [])
      else
        let c1 = c\<lparr>c_readnum := c_readnum c + 1\<rparr>
        in case Type m of
             MsgAck \<Rightarrow> client_ack m c1
           | MsgData \<Rightarrow> client_data m c1
           | _ \<Rightarrow> (c1, []))"

definition client_handleWrite :: "bytes \<Rightarrow> client \<Rightarrow> client \<times> effect list" where
  "client_handleWrite dat c =
     (let m = NewData (c_conId c) (c_sendct c) dat;
          (v, out) = enqueue (c_sendct c) m (c_conn c)
      in (c\<lparr>c_conn := v, c_sendct := c_sendct c + 1\<rparr>, map Send out))"

definition client_handleRead :: "client \<Rightarrow> client \<times> effect list" where
  "client_handleRead c =
     (case fmlookup (readbuf (c_conn c)) (c_readct c) of
        Some m \<Rightarrow> (c\<lparr>c_conn := take_read (c_readct c) (c_conn c), c_readct := c_readct c + 1\<rparr>,
                   [Replyread (Pkt (Some m) None 1)])
      | None \<Rightarrow> (c, []))"

definition client_handleClose :: "client \<Rightarrow> client \<times> effect list" where
  "client_handleClose c =
     (if estab (c_conn c)
      then (let c1 = c\<lparr>c_closepend := True\<rparr>
            in if \<not> losted (c_conn c1)
               then (if c_closeack c1 then (c1, [Over (Pkt None None 5)]) else (c1, []))
               else (c1, [Over (Pkt None None 5)]))
      else (c, []))"

text \<open>One turn of the switch in \<open>handler\<close>.\<close>

definition client_handle :: "int list \<Rightarrow> int list \<Rightarrow> Packet \<Rightarrow> client \<Rightarrow> (client, effect) outcome" where
  "client_handle oa od now c =
     (if contype now = cconnects then Some (client_handleEstab c)
      else if contype now = cread then Some (client_handleRead c)
      else if contype now = connectid then Some (c, [Reply (Pkt None None (c_conId c))])
      else if contype now = timer then Some (client_handleEpoch oa od c)
      else if contype now = cclose then Some (client_handleClose c)
      else if contype now = receive_kind then map_option (\<lambda>m. client_handleReceive m c) (msg now)
      else if contype now = cwrite then map_option (\<lambda>m. client_handleWrite (Payload m) c) (msg now)
      else Some (c, []))"

text \<open>
  The loop of the goroutine: it ends at a signal on \<open>exit\<close>, and takes the next packet otherwise.
\<close>

datatype handler_input = ExitNow | Take "int list" "int list" Packet

fun client_handler :: "handler_input list \<Rightarrow> client \<Rightarrow> (client, effect) outcome" where
  "client_handler [] c = Some (c, [])"
| "client_handler (ExitNow # ins) c = Some (c, [])"
| "client_handler (Take oa od p # ins) c =
     andthen (client_handle oa od p c) (client_handler ins)"

section \<open>The API\<close>

text \<open>
  Each call is split at the point where it waits for a channel: what it posts, and what it returns
  for the packet \<open>x\<close> it receives (\<open>Inl\<close> an error).
\<close>

definition client_ConnID_start :: "client \<Rightarrow> int + effect list" where
  "client_ConnID_start c =
     (if \<not> estab (c_conn c) then Inl 0 else Inr [Req (Pkt (Some zero_Message) None connectid)])"

definition client_ConnID_result :: "Packet \<Rightarrow> int" where
  "client_ConnID_result x = (if contype x > 0 then contype x else 0)"

definition client_Read_start :: "client \<Rightarrow> string + effect list" where
  "client_Read_start c =
     (if c_closepend c then Inl ''connection is going to close before read''
      else Inr [Req (Pkt None None cread)])"

definition client_Read_result :: "Packet \<Rightarrow> (string + bytes) option" where
  "client_Read_result x =
     (if contype x = - 1 then Some (Inl ''connection closed during read'')
      else if contype x = - 2 then Some (Inl ''connection lost during read'')
      else map_option (\<lambda>m. Inr (Payload m)) (msg x))"

definition client_Write :: "bytes \<Rightarrow> client \<Rightarrow> (string + unit) \<times> effect list" where
  "client_Write payload c =
     (if losted (c_conn c) then Inl ''connection has lost before trying to write'' else Inr (),
      [Req (Pkt (Some (zero_Message\<lparr>Payload := payload\<rparr>)) None cwrite)])"

end
