(* ===== verification/LspClientProps.thy ===== *)
theory LspClientProps
  imports LspClient
begin

text \<open>
  What the client's handlers keep: the window invariants of its connection, the orders in which a
  packet may change them, the detection of a lost server and what \<open>Close\<close> waits for.
\<close>

section \<open>Frames\<close>

lemma client_Close_conn:
  "seq (c_conn (fst (client_Close x c))) = seq (c_conn c)"
  "params (c_conn (fst (client_Close x c))) = params (c_conn c)"
  "databuf (c_conn (fst (client_Close x c))) = databuf (c_conn c)"
  "writebuf (c_conn (fst (client_Close x c))) = writebuf (c_conn c)"
  "ack (c_conn (fst (client_Close x c))) = ack (c_conn c)"
  "ackbuf (c_conn (fst (client_Close x c))) = ackbuf (c_conn c)"
  "readbuf (c_conn (fst (client_Close x c))) = readbuf (c_conn c)"
  "losted (c_conn (fst (client_Close x c))) = losted (c_conn c)"
  "lastrece (c_conn (fst (client_Close x c))) = lastrece (c_conn c)"
  "receive (c_conn (fst (client_Close x c))) = receive (c_conn c)"
  "c_sendct (fst (client_Close x c)) = c_sendct c" "c_readct (fst (client_Close x c)) = c_readct c"
  "c_conId (fst (client_Close x c)) = c_conId c" "c_closepend (fst (client_Close x c)) = c_closepend c"
  "c_closeack (fst (client_Close x c)) = c_closeack c" "caddr (c_conn (fst (client_Close x c))) = caddr (c_conn c)"
  by (simp_all add: client_Close_def)

lemma client_lost_conn:
  "seq (c_conn (fst (client_lost c))) = seq (c_conn c)"
  "params (c_conn (fst (client_lost c))) = params (c_conn c)"
  "databuf (c_conn (fst (client_lost c))) = databuf (c_conn c)"
  "writebuf (c_conn (fst (client_lost c))) = writebuf (c_conn c)"
  "ack (c_conn (fst (client_lost c))) = ack (c_conn c)"
  "ackbuf (c_conn (fst (client_lost c))) = ackbuf (c_conn c)"
  "readbuf (c_conn (fst (client_lost c))) = readbuf (c_conn c)"
  "losted (c_conn (fst (client_lost c)))"
  "lastrece (c_conn (fst (client_lost c))) = lastrece (c_conn c)"
  "receive (c_conn (fst (client_lost c))) = receive (c_conn c)"
  "c_sendct (fst (client_lost c)) = c_sendct c" "c_readct (fst (client_lost c)) = c_readct c"
  "c_conId (fst (client_lost c)) = c_conId c" "c_closepend (fst (client_lost c)) = c_closepend c"
  "caddr (c_conn (fst (client_lost c))) = caddr (c_conn c)"
  by (simp_all add: client_lost_def Let_def split_beta client_Close_conn)

lemmas client_frames = client_Close_conn client_lost_conn

text \<open>Two client states that agree on the window, on the counters and on the connection ID.\<close>

definition c_quiet :: "client \<Rightarrow> client \<Rightarrow> bool" where
  "c_quiet c c' \<longleftrightarrow> same_window (c_conn c) (c_conn c') \<and> c_sendct c' = c_sendct c \<and>
     c_readct c' = c_readct c \<and> c_conId c' = c_conId c"

lemma client_handleEpoch_quiet: "c_quiet c (fst (client_handleEpoch oa od c))"
  by (simp add: c_quiet_def same_window_def client_handleEpoch_def Let_def split_beta client_frames)

lemma client_handleClose_quiet: "c_quiet c (fst (client_handleClose c))"
  by (simp add: c_quiet_def client_handleClose_def Let_def)

section \<open>The sending half\<close>

definition c_snd_inv :: "int \<Rightarrow> bytes list \<Rightarrow> int set \<Rightarrow> client \<Rightarrow> bool" where
  "c_snd_inv cid h A c \<longleftrightarrow> 0 < cid \<and> c_conId c = cid \<and> snd_inv cid h A (c_sendct c) (c_conn c)"

definition c_rcv_inv :: "int \<Rightarrow> bytes list \<Rightarrow> int set \<Rightarrow> int \<Rightarrow> client \<Rightarrow> bool" where
  "c_rcv_inv cid h R k c \<longleftrightarrow>
     0 < cid \<and> c_conId c = cid \<and> c_readct c = k \<and> rcv_inv cid h R k (c_conn c)"

lemma c_quiet_snd: "c_quiet c c' \<Longrightarrow> c_snd_inv cid h A c \<Longrightarrow> c_snd_inv cid h A c'"
  by (auto simp: c_quiet_def c_snd_inv_def same_window_snd)

lemma c_quiet_rcv: "c_quiet c c' \<Longrightarrow> c_rcv_inv cid h R k c \<Longrightarrow> c_rcv_inv cid h R k c'"
  by (auto simp: c_quiet_def c_rcv_inv_def same_window_rcv)

text \<open>A write appends to the history and sends at most the new message.\<close>

lemma client_write_inv:
  assumes inv: "c_snd_inv cid h A c"
  shows "c_snd_inv cid (h @ [p]) A (fst (client_handleWrite p c))"
    and "m \<in> set (sent (snd (client_handleWrite p c))) \<Longrightarrow>
      \<exists>n. fmlookup (databuf (c_conn (fst (client_handleWrite p c)))) n = Some m"
  using inv snd_inv_enqueue [of cid h A "c_sendct c" "c_conn c" p]
  by (auto simp: c_snd_inv_def client_handleWrite_def Let_def split_beta enqueue_def split: if_splits)

text \<open>
  An acknowledgement of a message that has been sent: either the guards of the handler drop the
  packet, or the window moves.
\<close>

lemma client_ack_cases:
  assumes m: "SeqNum m > 0"
  shows "client_ack m c = (c, []) \<or>
    ack_in_window (SeqNum m) (c_conn c) \<and>
    client_ack m c =
      (c\<lparr>c_conn := fst (ack_slide (SeqNum m) ((c_conn c)\<lparr>receive := lastrece (c_conn c)\<rparr>))\<rparr>,
       map Send (snd (ack_slide (SeqNum m) ((c_conn c)\<lparr>receive := lastrece (c_conn c)\<rparr>))))"
  using m by (simp add: client_ack_def Let_def split_beta)

lemma client_ack_inv:
  assumes inv: "c_snd_inv cid h A c" and n: "0 < SeqNum m" "SeqNum m \<le> int (length h)"
    and w: "SeqNum m < seq (c_conn c) + WindowSize (params (c_conn c))"
  shows "\<exists>A'. A \<subseteq> A' \<and> A' \<subseteq> insert (SeqNum m) A \<and> c_snd_inv cid h A' (fst (client_ack m c)) \<and>
    seq (c_conn c) \<le> seq (c_conn (fst (client_ack m c))) \<and>
    (\<forall>x \<in> set (sent (snd (client_ack m c))). \<exists>k. fmlookup (databuf (c_conn (fst (client_ack m c)))) k = Some x)"
  using client_ack_cases [OF n(1), of c]
proof
  assume "client_ack m c = (c, [])"
  then show ?thesis using inv by auto
next
  let ?v = "(c_conn c)\<lparr>receive := lastrece (c_conn c)\<rparr>"
  assume *: "ack_in_window (SeqNum m) (c_conn c) \<and>
    client_ack m c = (c\<lparr>c_conn := fst (ack_slide (SeqNum m) ?v)\<rparr>, map Send (snd (ack_slide (SeqNum m) ?v)))"
  have i: "snd_inv cid h A (c_sendct c) ?v"
    using inv by (simp add: c_snd_inv_def snd_inv_frame [of ?v "c_conn c"])
  have b: "seq ?v \<le> SeqNum m" "SeqNum m < c_sendct c" "SeqNum m < seq ?v + WindowSize (params ?v)"
    using * n w snd_invD(1) [OF i] by (auto simp: ack_in_window_def)
  note S = snd_inv_ack [OF i b]
  show ?thesis using * inv S by (intro exI [of _ "insert (SeqNum m) A"]) (auto simp: c_snd_inv_def)
qed

section \<open>The receiving half\<close>

lemma client_data_cases:
  "client_data m c = (c, []) \<or>
    (ack (c_conn c) \<le> SeqNum m \<and>
     (\<exists>v r es. v = fst (accept_data (c_conId c) m ((c_conn c)\<lparr>receive := lastrece (c_conn c)\<rparr>)) \<and>
        client_data m c = (c\<lparr>c_conn := v\<rparr>, Send (NewAck (c_conId c) (SeqNum m)) # es) \<and>
        (es = [] \<or> es = [Req (Pkt None None cread)])))"
  by (auto simp: client_data_def Let_def split_beta)

lemma client_data_inv:
  assumes inv: "c_rcv_inv cid h R k c" and m: "m = wmsg cid h n" and n: "1 \<le> n" "n \<le> int (length h)"
    and prev: "\<And>j. 1 \<le> j \<Longrightarrow> j \<le> n - WindowSize (params (c_conn c)) \<Longrightarrow> j \<in> R"
  shows "\<exists>R'. R \<subseteq> R' \<and> R' \<subseteq> insert n R \<and> c_rcv_inv cid h R' k (fst (client_data m c)) \<and>
    (\<forall>x \<in> set (sent (snd (client_data m c))). \<exists>j \<in> R'. x = NewAck cid j)"
  using client_data_cases [of m c]
proof
  assume "client_data m c = (c, [])"
  then show ?thesis using inv by auto
next
  let ?v = "(c_conn c)\<lparr>receive := lastrece (c_conn c)\<rparr>"
  assume *: "ack (c_conn c) \<le> SeqNum m \<and>
     (\<exists>v r es. v = fst (accept_data (c_conId c) m ?v) \<and>
        client_data m c = (c\<lparr>c_conn := v\<rparr>, Send (NewAck (c_conId c) (SeqNum m)) # es) \<and>
        (es = [] \<or> es = [Req (Pkt None None cread)]))"
  have i: "rcv_inv cid h R k ?v"
    using inv by (simp add: c_rcv_inv_def rcv_inv_frame [of ?v "c_conn c"])
  have "rcv_inv cid h (insert n R) k (fst (accept_data cid m ?v))"
    by (rule rcv_inv_accept [OF i m n]) (use * m prev in auto)
  then show ?thesis using * inv m
    by (intro exI [of _ "insert n R"]) (auto simp: c_rcv_inv_def)
qed

lemma client_read_inv:
  assumes inv: "c_rcv_inv cid h R k c"
  shows "client_handleRead c = (c, []) \<or>
    (\<exists>c'. client_handleRead c = (c', [Replyread (Pkt (Some (wmsg cid h k)) None 1)]) \<and>
      c_rcv_inv cid h R (k + 1) c' \<and> 1 \<le> k \<and> k \<le> int (length h) \<and> c_sendct c' = c_sendct c \<and>
      seq (c_conn c') = seq (c_conn c) \<and> databuf (c_conn c') = databuf (c_conn c) \<and>
      writebuf (c_conn c') = writebuf (c_conn c) \<and> params (c_conn c') = params (c_conn c) \<and>
      c_conId c' = c_conId c)"
proof (cases "fmlookup (readbuf (c_conn c)) (c_readct c)")
  case None
  then show ?thesis by (simp add: client_handleRead_def)
next
  case (Some m)
  then show ?thesis
    using inv rcv_inv_read [of cid h R k "c_conn c" m]
    by (auto simp: client_handleRead_def c_rcv_inv_def)
qed

end
