(* ===== verification/LspLink.thy ===== *)
theory LspLink
  imports LspReceive
begin

text \<open>
  One direction of a connection over UDP: a sender and a receiver, each a handler of the code, and
  a network between them that may lose, repeat and reorder datagrams. The network is the set of
  everything ever sent: a delivery takes any element, any number of times or never.

  The two halves meet in the interfaces \<open>window_sender\<close> and \<open>window_receiver\<close>: what every
  step of a sender and of a receiver owes the other side. \<open>reliable_link\<close> puts them together
  and proves, once, that what the receiver hands to its reader is a prefix of what the sender was
  given to write, and that no message is given up before it has arrived. Client and server are
  instances of both interfaces.
\<close>

section \<open>The system\<close>

datatype sev = SWrite bytes | SAck int | SOther
datatype rev = RData Message | ROther

type_synonym 's sender_step = "'s \<Rightarrow> sev \<Rightarrow> 's \<Rightarrow> Message set \<Rightarrow> bool"
type_synonym 'r receiver_step = "'r \<Rightarrow> rev \<Rightarrow> 'r \<Rightarrow> int set \<Rightarrow> bytes list \<Rightarrow> bool"

text \<open>
  The state: the two ends, the payloads written so far, the data messages and the numbers of the
  acknowledgements in the network, and the payloads handed to the reader so far.
\<close>

record ('s, 'r) link =
  l_snd :: 's
  l_rcv :: 'r
  l_hist :: "bytes list"
  l_dnet :: "Message set"
  l_anet :: "int set"
  l_out :: "bytes list"

definition link_start :: "'s \<Rightarrow> 'r \<Rightarrow> ('s, 'r) link" where
  "link_start s r = \<lparr>l_snd = s, l_rcv = r, l_hist = [], l_dnet = {}, l_anet = {}, l_out = []\<rparr>"

inductive link_step :: "'s sender_step \<Rightarrow> 'r receiver_step \<Rightarrow> ('s, 'r) link \<Rightarrow> ('s, 'r) link \<Rightarrow> bool"
  for sstep :: "'s sender_step" and rstep :: "'r receiver_step" where
  link_write: "sstep (l_snd l) (SWrite p) s' D \<Longrightarrow>
    link_step sstep rstep l (l\<lparr>l_snd := s', l_hist := l_hist l @ [p], l_dnet := l_dnet l \<union> D\<rparr>)"
| link_ack: "n \<in> l_anet l \<Longrightarrow> sstep (l_snd l) (SAck n) s' D \<Longrightarrow>
    link_step sstep rstep l (l\<lparr>l_snd := s', l_dnet := l_dnet l \<union> D\<rparr>)"
| link_snd: "sstep (l_snd l) SOther s' D \<Longrightarrow>
    link_step sstep rstep l (l\<lparr>l_snd := s', l_dnet := l_dnet l \<union> D\<rparr>)"
| link_data: "m \<in> l_dnet l \<Longrightarrow> rstep (l_rcv l) (RData m) r' As out \<Longrightarrow>
    link_step sstep rstep l (l\<lparr>l_rcv := r', l_anet := l_anet l \<union> As, l_out := l_out l @ out\<rparr>)"
| link_rcv: "rstep (l_rcv l) ROther r' As out \<Longrightarrow>
    link_step sstep rstep l (l\<lparr>l_rcv := r', l_anet := l_anet l \<union> As, l_out := l_out l @ out\<rparr>)"

inductive link_reach :: "'s sender_step \<Rightarrow> 'r receiver_step \<Rightarrow> 's \<Rightarrow> 'r \<Rightarrow> ('s, 'r) link \<Rightarrow> bool"
  for sstep :: "'s sender_step" and rstep :: "'r receiver_step" and s0 :: 's and r0 :: 'r where
  reach_start: "link_reach sstep rstep s0 r0 (link_start s0 r0)"
| reach_step: "link_reach sstep rstep s0 r0 l \<Longrightarrow> link_step sstep rstep l l' \<Longrightarrow>
    link_reach sstep rstep s0 r0 l'"

inductive_cases link_stepE: "link_step sstep rstep l l'"

section \<open>The specification: a queue\<close>

text \<open>
  What a direction promises its two applications is a first-in-first-out queue of payloads: writing
  appends one, reading takes from the front. \<open>link_queue\<close> is the queue a state of the link stands for.
\<close>

datatype queue_event = Enq bytes | Deq "bytes list"

inductive queue_step :: "queue_event \<Rightarrow> bytes list \<Rightarrow> bytes list \<Rightarrow> bool" where
  queue_enq: "queue_step (Enq p) q (q @ [p])"
| queue_deq: "queue_step (Deq ps) (ps @ q) q"

inductive_simps queue_step_simps [simp]: "queue_step (Enq p) q q'" "queue_step (Deq ps) q q'"

definition link_queue :: "('s, 'r) link \<Rightarrow> bytes list" where
  "link_queue l = drop (length (l_out l)) (l_hist l)"

text \<open>The event of the queue that a step of the link amounts to, read off the two applications.\<close>

definition link_event :: "('s, 'r) link \<Rightarrow> ('s, 'r) link \<Rightarrow> queue_event" where
  "link_event l l' =
     (if length (l_hist l) < length (l_hist l') then Enq (last (l_hist l'))
      else Deq (drop (length (l_out l)) (l_out l')))"

lemma link_step_event:
  assumes "link_step sstep rstep l l'"
  shows "(\<exists>p. l_hist l' = l_hist l @ [p] \<and> l_out l' = l_out l) \<or>
    (\<exists>out. l_hist l' = l_hist l \<and> l_out l' = l_out l @ out)"
  using assms by (cases rule: link_step.cases) auto

section \<open>The interfaces\<close>

text \<open>
  A message \<open>m\<close> of connection \<open>cid\<close> that a sender with history \<open>h\<close> and window \<open>[lo, lo + W)\<close> may send.
\<close>

definition sendable :: "int \<Rightarrow> int \<Rightarrow> bytes list \<Rightarrow> int \<Rightarrow> Message \<Rightarrow> bool" where
  "sendable cid W h lo m \<longleftrightarrow>
     (\<exists>n. m = wmsg cid h n \<and> 1 \<le> n \<and> n \<le> int (length h) \<and> n < lo + W)"

lemma sendable_mono:
  assumes "sendable cid W h lo m" and "lo \<le> lo'"
  shows "sendable cid W (h @ ps) lo' m"
proof -
  obtain n where n: "m = wmsg cid h n" "1 \<le> n" "n \<le> int (length h)" "n < lo + W"
    using assms(1) unfolding sendable_def by blast
  then show ?thesis
    using assms(2) unfolding sendable_def by (intro exI [of _ n]) (simp add: wmsg_append)
qed

lemma sendable_later: "sendable cid W h lo m \<Longrightarrow> lo \<le> lo' \<Longrightarrow> sendable cid W h lo' m"
  using sendable_mono [of cid W h lo m lo' "[]"] by simp

text \<open>
  The sender's side: \<open>sinv h A lo s\<close> relates its state to the history, to the numbers acknowledged
  to it and to the start of its window.
\<close>

locale window_sender =
  fixes sstep :: "'s sender_step"
    and sinv :: "bytes list \<Rightarrow> int set \<Rightarrow> int \<Rightarrow> 's \<Rightarrow> bool"
    and cid :: int and W :: int
  assumes snd_write: "sinv h A lo s \<Longrightarrow> sstep s (SWrite p) s' D \<Longrightarrow>
      sinv (h @ [p]) A lo s' \<and> (\<forall>m \<in> D. sendable cid W (h @ [p]) lo m)"
    and snd_ack: "sinv h A lo s \<Longrightarrow> sstep s (SAck n) s' D \<Longrightarrow> 1 \<le> n \<Longrightarrow> n \<le> int (length h) \<Longrightarrow>
      n < lo + W \<Longrightarrow>
      \<exists>A' lo'. A' \<subseteq> insert n A \<and> lo \<le> lo' \<and> sinv h A' lo' s' \<and> (\<forall>m \<in> D. sendable cid W h lo' m)"
    and snd_other: "sinv h A lo s \<Longrightarrow> sstep s SOther s' D \<Longrightarrow>
      sinv h A lo s' \<and> (\<forall>m \<in> D. sendable cid W h lo m)"
    and snd_acked: "sinv h A lo s \<Longrightarrow> 1 \<le> n \<Longrightarrow> n < lo \<Longrightarrow> n \<in> A"

text \<open>
  The receiver's side: \<open>rinv h R k r\<close> relates its state to the history of the other end, to the
  numbers that have arrived and to the next number to hand over.
\<close>

locale window_receiver =
  fixes rstep :: "'r receiver_step"
    and rinv :: "bytes list \<Rightarrow> int set \<Rightarrow> int \<Rightarrow> 'r \<Rightarrow> bool"
    and cid :: int and W :: int
  assumes rcv_data: "rinv h R k r \<Longrightarrow> rstep r (RData (wmsg cid h n)) r' As out \<Longrightarrow> 1 \<le> n \<Longrightarrow>
      n \<le> int (length h) \<Longrightarrow> (\<And>j. 1 \<le> j \<Longrightarrow> j \<le> n - W \<Longrightarrow> j \<in> R) \<Longrightarrow>
      \<exists>R'. R \<subseteq> R' \<and> R' \<subseteq> insert n R \<and> rinv h R' k r' \<and> As \<subseteq> R' \<and> out = []"
    and rcv_other: "rinv h R k r \<Longrightarrow> rstep r ROther r' As out \<Longrightarrow>
      rinv h R (k + int (length out)) r' \<and> As \<subseteq> R \<and>
      out = take (length out) (drop (nat (k - 1)) h)"
    and rcv_hist: "rinv h R k r \<Longrightarrow> rinv (h @ [p]) R k r"
    and rcv_bounds: "rinv h R k r \<Longrightarrow> n \<in> R \<Longrightarrow> 1 \<le> n \<and> n \<le> int (length h)"
    and rcv_next: "rinv h R k r \<Longrightarrow> 1 \<le> k \<and> k \<le> int (length h) + 1"

locale reliable_link =
  snd: window_sender sstep sinv cid W + rcv: window_receiver rstep rinv cid W'
  for sstep :: "'s sender_step" and sinv and rstep :: "'r receiver_step" and rinv and cid and W and W' +
  assumes windows: "W \<le> W'"
begin

text \<open>The invariant of the whole: acknowledged implies arrived, and the network tells the truth.\<close>

lemma link_inv_step:
  assumes inv: "sinv (l_hist l) A lo (l_snd l)" "rinv (l_hist l) R k (l_rcv l)" "A \<subseteq> R" "A \<subseteq> l_anet l"
      "\<forall>m \<in> l_dnet l. sendable cid W (l_hist l) lo m" "l_anet l \<subseteq> R"
      "l_out l = take (nat (k - 1)) (l_hist l)" "\<forall>n \<in> R. n < lo + W"
    and st: "link_step sstep rstep l l'"
  shows "\<exists>A lo R k. sinv (l_hist l') A lo (l_snd l') \<and> rinv (l_hist l') R k (l_rcv l') \<and> A \<subseteq> R \<and> A \<subseteq> l_anet l' \<and>
      (\<forall>m \<in> l_dnet l'. sendable cid W (l_hist l') lo m) \<and> l_anet l' \<subseteq> R \<and>
      l_out l' = take (nat (k - 1)) (l_hist l') \<and> (\<forall>n \<in> R. n < lo + W)"
  using st
proof (cases rule: link_step.cases)
  case (link_write p s' D)
  have "sinv (l_hist l @ [p]) A lo s'" and "\<forall>m \<in> D. sendable cid W (l_hist l @ [p]) lo m"
    using snd.snd_write [OF inv(1) link_write(2)] by blast+
  moreover have "\<forall>m \<in> l_dnet l. sendable cid W (l_hist l @ [p]) lo m"
    using inv(5) sendable_mono by blast
  moreover have "nat (k - 1) \<le> length (l_hist l)" using rcv.rcv_next [OF inv(2)] by linarith
  ultimately show ?thesis
    unfolding link_write(1) using inv rcv.rcv_hist [OF inv(2)]
    by (intro exI [of _ A] exI [of _ lo] exI [of _ R] exI [of _ k]) auto
next
  case (link_ack n s' D)
  have n: "n \<in> R" using link_ack(2) inv(6) by blast
  have b: "1 \<le> n" "n \<le> int (length (l_hist l))" "n < lo + W"
    using rcv.rcv_bounds [OF inv(2) n] inv(8) n by blast+
  obtain A' lo' where A': "A' \<subseteq> insert n A" "lo \<le> lo'" "sinv (l_hist l) A' lo' s'"
    "\<forall>m \<in> D. sendable cid W (l_hist l) lo' m"
    using snd.snd_ack [OF inv(1) link_ack(3) b] by blast
  moreover have "\<forall>m \<in> l_dnet l. sendable cid W (l_hist l) lo' m"
    using inv(5) sendable_later A'(2) by blast
  ultimately show ?thesis
    unfolding link_ack(1) using inv n link_ack(2)
    by (intro exI [of _ A'] exI [of _ lo'] exI [of _ R] exI [of _ k]) auto
next
  case (link_snd s' D)
  then show ?thesis
    using inv snd.snd_other [OF inv(1) link_snd(2)]
    by (intro exI [of _ A] exI [of _ lo] exI [of _ R] exI [of _ k]) auto
next
  case (link_data m r' As out)
  obtain n where n: "m = wmsg cid (l_hist l) n" "1 \<le> n" "n \<le> int (length (l_hist l))" "n < lo + W"
    using inv(5) link_data(2) unfolding sendable_def by blast
  have prev: "j \<in> R" if "1 \<le> j" "j \<le> n - W'" for j
    using that n(4) windows snd.snd_acked [OF inv(1)] inv(3) by force
  obtain R' where R': "R \<subseteq> R'" "R' \<subseteq> insert n R" "rinv (l_hist l) R' k r'" "As \<subseteq> R'" "out = []"
    using rcv.rcv_data [OF inv(2) link_data(3) [unfolded n(1)] n(2,3) prev] by blast
  then show ?thesis
    unfolding link_data(1) using inv n(4)
    by (intro exI [of _ A] exI [of _ lo] exI [of _ R'] exI [of _ k]) auto
next
  case (link_rcv r' As out)
  have o: "rinv (l_hist l) R (k + int (length out)) r'" "As \<subseteq> R"
    "out = take (length out) (drop (nat (k - 1)) (l_hist l))"
    using rcv.rcv_other [OF inv(2) link_rcv(2)] by blast+
  have "nat (k + int (length out) - 1) = nat (k - 1) + length out"
    using rcv.rcv_next [OF inv(2)] by linarith
  then have "take (nat (k - 1)) (l_hist l) @ out = take (nat (k + int (length out) - 1)) (l_hist l)"
    using o(3) by (metis take_add)
  then show ?thesis
    unfolding link_rcv(1) using inv o(1,2)
    by (intro exI [of _ A] exI [of _ lo] exI [of _ R] exI [of _ "k + int (length out)"]) auto
qed

lemma link_inv:
  assumes reach: "link_reach sstep rstep s0 r0 l" and s0: "sinv [] {} lo0 s0" and r0: "rinv [] {} 1 r0"
  shows "\<exists>A lo R k. sinv (l_hist l) A lo (l_snd l) \<and> rinv (l_hist l) R k (l_rcv l) \<and> A \<subseteq> R \<and> A \<subseteq> l_anet l \<and>
      (\<forall>m \<in> l_dnet l. sendable cid W (l_hist l) lo m) \<and> l_anet l \<subseteq> R \<and>
      l_out l = take (nat (k - 1)) (l_hist l) \<and> (\<forall>n \<in> R. n < lo + W)"
  using reach
proof (induction rule: link_reach.induct)
  case reach_start
  show ?case
    using s0 r0 by (intro exI [of _ "{}"] exI [of _ lo0] exI [of _ 1]) (auto simp: link_start_def)
next
  case (reach_step l l')
  then show ?case using link_inv_step by blast
qed

text \<open>The reader gets a prefix of what was written: no loss, no repetition, no reordering.\<close>

lemma delivered_prefix:
  assumes "link_reach sstep rstep s0 r0 l" and "sinv [] {} lo0 s0" and "rinv [] {} 1 r0"
  shows "\<exists>n. l_out l = take n (l_hist l)"
  using link_inv [OF assms] by blast

text \<open>
  Every step of the link is a step of the queue: the one that its event names. A step that neither
  application sees is the event \<open>Deq []\<close>, which leaves the queue as it is.
\<close>

lemma queue_refined:
  assumes reach: "link_reach sstep rstep s0 r0 l" and s0: "sinv [] {} lo0 s0" and r0: "rinv [] {} 1 r0"
    and step: "link_step sstep rstep l l'"
  shows "queue_step (link_event l l') (link_queue l) (link_queue l')"
proof -
  obtain n where n: "l_out l = take n (l_hist l)" using delivered_prefix [OF reach s0 r0] by blast
  obtain n' where n': "l_out l' = take n' (l_hist l')"
    using delivered_prefix [OF link_reach.reach_step [OF reach step] s0 r0] by blast
  from link_step_event [OF step] show ?thesis
  proof (elim disjE exE conjE)
    fix p
    assume e: "l_hist l' = l_hist l @ [p]" "l_out l' = l_out l"
    have "length (l_out l) \<le> length (l_hist l)" using n by simp
    then show ?thesis by (simp add: link_event_def link_queue_def e)
  next
    fix out
    assume e: "l_hist l' = l_hist l" "l_out l' = l_out l @ out"
    have "l_hist l = (l_out l @ out) @ drop n' (l_hist l)" using n' e by (metis append_take_drop_id)
    then have h: "l_hist l = l_out l @ out @ drop n' (l_hist l)" by simp
    have "drop (length (l_out l)) (l_hist l) = out @ drop n' (l_hist l)"
      by (subst h) simp
    moreover have "drop (length (l_out l @ out)) (l_hist l) = drop n' (l_hist l)"
      by (subst h) simp
    ultimately show ?thesis by (simp add: link_event_def link_queue_def e)
  qed
qed

text \<open>What the sender has had acknowledged has arrived.\<close>

lemma acknowledged_arrived:
  assumes "link_reach sstep rstep s0 r0 l" and "sinv [] {} lo0 s0" and "rinv [] {} 1 r0"
  obtains A lo R k where "sinv (l_hist l) A lo (l_snd l)" and "rinv (l_hist l) R k (l_rcv l)"
    and "A \<subseteq> R" and "l_out l = take (nat (k - 1)) (l_hist l)"
  using link_inv [OF assms] by blast

end

end
