(* ===== verification/LspClientLink.thy ===== *)
theory LspClientLink
  imports LspClientProps LspLink
begin

text \<open>
  The client as one end of a link: every change of its state, by the handler or by the calls that
  touch the struct directly (\<open>NewClient\<close> after \<open>build\<close>, \<open>Close\<close>), is a \<open>client_step\<close>, and the client
  is a \<open>window_sender\<close> and a \<open>window_receiver\<close>.
\<close>

section \<open>Steps\<close>

datatype client_input = CPacket "int list" "int list" Packet | CBuilt | CClosed Packet

fun client_step :: "client_input \<Rightarrow> client \<Rightarrow> (client, effect) outcome" where
  "client_step (CPacket oa od p) c = client_handle oa od p c"
| "client_step CBuilt c =
     (case NewClient_wait BuildSignal c of
        (Inl e, es) \<Rightarrow> Some (c, es)
      | (Inr c', es) \<Rightarrow> Some (c', es))"
| "client_step (CClosed x) c = Some (client_Close x c)"

text \<open>What a step means to the peer: a write, an acknowledgement, a data message.\<close>

fun client_sev :: "client_input \<Rightarrow> sev" where
  "client_sev (CPacket oa od p) =
     (case msg p of
        None \<Rightarrow> SOther
      | Some m \<Rightarrow>
          if contype p = cwrite then SWrite (Payload m)
          else if contype p = receive_kind \<and> Type m = MsgAck \<and> SeqNum m > 0 then SAck (SeqNum m)
          else SOther)"
| "client_sev _ = SOther"

fun client_rev :: "client_input \<Rightarrow> rev" where
  "client_rev (CPacket oa od p) =
     (case msg p of
        None \<Rightarrow> ROther
      | Some m \<Rightarrow> if contype p = receive_kind \<and> Type m = MsgData then RData m else ROther)"
| "client_rev _ = ROther"

definition data_sent :: "effect list \<Rightarrow> Message set" where
  "data_sent es = {m \<in> set (sent es). Type m = MsgData}"

definition acks_sent :: "effect list \<Rightarrow> int set" where
  "acks_sent es = SeqNum ` {m \<in> set (sent es). Type m = MsgAck \<and> SeqNum m > 0}"

text \<open>The payloads handed to the reader.\<close>

fun read_payload :: "effect \<Rightarrow> bytes option" where
  "read_payload (Replyread p) = (if contype p = 1 then map_option Payload (msg p) else None)"
| "read_payload _ = None"

definition client_reads :: "effect list \<Rightarrow> bytes list" where
  "client_reads es = List.map_filter read_payload es"

lemma client_reads_simps [simp]:
  "client_reads [] = []"
  "client_reads (e # es) = (case read_payload e of None \<Rightarrow> client_reads es | Some p \<Rightarrow> p # client_reads es)"
  "client_reads (es @ fs) = client_reads es @ client_reads fs"
  by (simp_all add: client_reads_def List.map_filter_def split: option.splits)

lemma client_reads_Send [simp]: "client_reads (map Send ms) = []"
  by (induction ms) auto

lemma data_sent_simps [simp]:
  "data_sent [] = {}" "data_sent (es @ fs) = data_sent es \<union> data_sent fs"
  by (auto simp: data_sent_def)

lemma acks_sent_simps [simp]:
  "acks_sent [] = {}" "acks_sent (es @ fs) = acks_sent es \<union> acks_sent fs"
  by (auto simp: acks_sent_def)

definition client_sstep :: "client sender_step" where
  "client_sstep c ev c' D \<longleftrightarrow>
     (\<exists>i es. client_step i c = Some (c', es) \<and> client_sev i = ev \<and> D = data_sent es)"

definition client_rstep :: "client receiver_step" where
  "client_rstep c ev c' As out \<longleftrightarrow>
     (\<exists>i es. client_step i c = Some (c', es) \<and> client_rev i = ev \<and> As = acks_sent es \<and>
        out = client_reads es)"

section \<open>Steps that are quiet\<close>

text \<open>The effects of a quiet step: it resends what is in the buffers and hands nothing over.\<close>

definition resends :: "client \<Rightarrow> effect list \<Rightarrow> bool" where
  "resends c es \<longleftrightarrow> client_reads es = [] \<and>
     (\<forall>m \<in> set (sent es).
        (Type m = MsgData \<longrightarrow> (\<exists>n. fmlookup (databuf (c_conn c)) n = Some m \<or> fmlookup (ackbuf (c_conn c)) n = Some m)) \<and>
        (Type m = MsgAck \<longrightarrow> SeqNum m > 0 \<longrightarrow>
          (\<exists>n. fmlookup (databuf (c_conn c)) n = Some m \<or> fmlookup (ackbuf (c_conn c)) n = Some m)))"

lemma resends_Nil [simp]: "resends c []"
  by (simp add: resends_def)

lemma resends_append: "resends c (es @ fs) \<longleftrightarrow> resends c es \<and> resends c fs"
  by (auto simp: resends_def)

lemma resends_Cons: "resends c (e # es) \<longleftrightarrow> resends c [e] \<and> resends c es"
  using resends_append [of c "[e]" es] by simp

lemma resends_single [simp]:
  "resends c [Send (NewAck i 0)]" "resends c [Send NewConnect]" "resends c [Req p]" "resends c [Reply p]"
  "resends c [Over p]" "resends c [TakeOver]" "resends c [Build]" "resends c [Lost]" "resends c [Exit]"
  "resends c [ExitEpo]" "resends c [CloseSock u]" "resends c [Quit]"
  "resends c [Replyread (Pkt m a k)] \<longleftrightarrow> k \<noteq> 1 \<or> m = None"
  by (cases m; auto simp: resends_def)+

lemma resends_range:
  "resends c (map Send (range_vals oa (ackbuf (c_conn c))))"
  "resends c (map Send (range_vals od (databuf (c_conn c))))"
  by (auto simp: resends_def set_range_vals)

lemma client_Close_resends: "resends c' (snd (client_Close x c))"
  by (auto simp: client_Close_def Connect_close_def resends_append resends_Cons [of _ _ "_ # _"] split: option.split)

lemma client_lost_resends: "resends c' (snd (client_lost c))"
  using client_Close_resends [of c' "Pkt None None 5"]
  by (auto simp: client_lost_def Let_def split_beta resends_append resends_Cons [of _ _ "_ # _"]
      resends_Cons [of _ _ "snd _"])

lemma resends_same: "same_window (c_conn c) (c_conn c') \<Longrightarrow> resends c' es = resends c es"
  by (simp add: resends_def same_window_def)

lemma client_handleEpoch_resends: "resends c (snd (client_handleEpoch oa od c))"
proof (cases "c_conId c = 0")
  case True
  then show ?thesis by (simp add: client_handleEpoch_def)
next
  case False
  define c1 where "c1 = c\<lparr>c_conn := (c_conn c)\<lparr>receive := receive (c_conn c) + 1\<rparr>\<rparr>"
  define r where "r = (if receive (c_conn c1) - lastrece (c_conn c1) \<ge> EpochLimit (params (c_conn c1))
     then client_lost c1 else (c1, []))"
  have ab: "ackbuf (c_conn (fst r)) = ackbuf (c_conn c)" "databuf (c_conn (fst r)) = databuf (c_conn c)"
    by (simp_all add: r_def c1_def client_frames)
  have "snd (client_handleEpoch oa od c) = [Send (NewAck (c_conId c) 0)] @ snd r @
      map Send (range_vals oa (ackbuf (c_conn c))) @ map Send (range_vals od (databuf (c_conn c)))"
    using False ab [unfolded r_def c1_def]
    by (simp add: client_handleEpoch_def Let_def c1_def r_def split_beta split: if_splits)
  moreover have "resends c (snd r)" by (simp add: r_def client_lost_resends)
  ultimately show ?thesis
    by (simp only: resends_append resends_range resends_single)
qed

lemma client_handleClose_resends: "resends c' (snd (client_handleClose c))"
  by (simp add: client_handleClose_def Let_def)

section \<open>Messages are filed by kind\<close>

definition client_tags :: "client \<Rightarrow> bool" where
  "client_tags c \<longleftrightarrow>
     (\<forall>n m. fmlookup (ackbuf (c_conn c)) n = Some m \<longrightarrow> Type m = MsgAck) \<and>
     (\<forall>n m. fmlookup (databuf (c_conn c)) n = Some m \<or> fmlookup (writebuf (c_conn c)) n = Some m \<longrightarrow>
        Type m = MsgData)"

lemma client_tags_same: "same_window (c_conn c) (c_conn c') \<Longrightarrow> client_tags c' = client_tags c"
  by (simp add: client_tags_def same_window_def)

lemma client_tags_write: "client_tags c \<Longrightarrow> client_tags (fst (client_handleWrite p c))"
  by (auto simp: client_tags_def client_handleWrite_def Let_def split_beta enqueue_def)

lemma client_tags_read: "client_tags c \<Longrightarrow> client_tags (fst (client_handleRead c))"
  by (auto simp: client_tags_def client_handleRead_def split: option.split)

lemma client_tags_ack: "client_tags c \<Longrightarrow> client_tags (fst (client_ack m c))"
  using ack_slide_subset [where n = "SeqNum m" and v = "(c_conn c)\<lparr>receive := lastrece (c_conn c)\<rparr>"]
  by (auto simp: client_tags_def client_ack_def Let_def split_beta) blast+

lemma client_tags_data: "client_tags c \<Longrightarrow> client_tags (fst (client_data m c))"
  using accept_data_subset [where cid = "c_conId c" and m = m
    and v = "(c_conn c)\<lparr>receive := lastrece (c_conn c)\<rparr>"]
  by (auto simp: client_tags_def client_data_def Let_def split_beta) fastforce+

lemma resends_data:
  assumes "client_tags c" and "resends c es" and "m \<in> data_sent es"
  shows "\<exists>n. fmlookup (databuf (c_conn c)) n = Some m"
  using assms by (fastforce simp: client_tags_def resends_def data_sent_def)

lemma resends_acks:
  assumes "client_tags c" and "resends c es" and "n \<in> acks_sent es"
  shows "\<exists>k m. fmlookup (ackbuf (c_conn c)) k = Some m \<and> SeqNum m = n"
  using assms by (fastforce simp: client_tags_def resends_def acks_sent_def)

section \<open>One step\<close>

text \<open>A step is quiet, or it is one of the four operations on the window.\<close>

abbreviation counted :: "client \<Rightarrow> client" where
  "counted c \<equiv> c\<lparr>c_readnum := c_readnum c + 1\<rparr>"

lemma client_receive_cases:
  obtains (rq) "c_quiet c (fst (client_handleReceive m c))" and "resends c (snd (client_handleReceive m c))"
  | (ra) "Type m = MsgAck" and "client_handleReceive m c = client_ack m (counted c)"
  | (rd) "Type m = MsgData" and "client_handleReceive m c = client_data m (counted c)"
proof -
  have "c_quiet c (fst (client_handleReceive m c)) \<and> resends c (snd (client_handleReceive m c)) \<or>
    Type m = MsgAck \<and> client_handleReceive m c = client_ack m (counted c) \<or>
    Type m = MsgData \<and> client_handleReceive m c = client_data m (counted c)"
    by (simp add: client_handleReceive_def c_quiet_def Let_def split: MsgType.split)
  then show thesis using rq ra rd by blast
qed

lemma client_step_cases:
  assumes "client_step i c = Some (c', es)"
  obtains (quiet) "c_quiet c c'" and "resends c es" and "\<And>p. client_sev i \<noteq> SWrite p"
  | (swrite) p where "client_sev i = SWrite p" and "client_rev i = ROther" and "(c', es) = client_handleWrite p c"
  | (sread) "client_sev i = SOther" and "client_rev i = ROther" and "(c', es) = client_handleRead c"
  | (sack) m where "client_sev i = (if SeqNum m > 0 then SAck (SeqNum m) else SOther)"
      and "client_rev i = ROther" and "(c', es) = client_ack m (counted c)"
  | (sdata) m where "client_sev i = SOther" and "client_rev i = RData m"
      and "(c', es) = client_data m (counted c)"
proof (cases i)
  case (CPacket oa od p)
  consider (epoch) "contype p = timer" | (close) "contype p = cclose" | (recv) "contype p = receive_kind"
    | (wr) "contype p = cwrite" | (read) "contype p = cread"
    | (rest) "contype p \<noteq> timer" "contype p \<noteq> cclose" "contype p \<noteq> receive_kind"
        "contype p \<noteq> cwrite" "contype p \<noteq> cread" by blast
  then show thesis
  proof cases
    case epoch
    then show thesis
      using assms client_handleEpoch_quiet [of c oa od] client_handleEpoch_resends [of c oa od]
      by (intro quiet) (auto simp: CPacket client_handle_def split: option.splits)
  next
    case close
    then show thesis
      using assms client_handleClose_quiet [of c] client_handleClose_resends [of c c]
      by (intro quiet) (auto simp: CPacket client_handle_def split: option.splits)
  next
    case recv
    then obtain m where m: "msg p = Some m" and r: "client_handleReceive m c = (c', es)"
      using assms by (auto simp: CPacket client_handle_def)
    show thesis
    proof (cases rule: client_receive_cases [of c m])
      case rq
      then show thesis using r recv m by (intro quiet) (auto simp: CPacket)
    next
      case ra
      then show thesis using r recv m by (intro sack [of m]) (auto simp: CPacket)
    next
      case rd
      then show thesis using r recv m by (intro sdata [of m]) (auto simp: CPacket)
    qed
  next
    case wr
    then obtain m where "msg p = Some m" "client_handleWrite (Payload m) c = (c', es)"
      using assms by (auto simp: CPacket client_handle_def)
    then show thesis using wr by (intro swrite [of "Payload m"]) (auto simp: CPacket)
  next
    case read
    then show thesis using assms
      by (intro sread) (auto simp: CPacket client_handle_def split: option.split)
  next
    case rest
    then show thesis using assms
      by (intro quiet) (auto simp: CPacket client_handle_def client_handleEstab_def c_quiet_def
          split: if_splits option.splits)
  qed
next
  case CBuilt
  then show thesis using assms
    by (intro quiet) (auto simp: NewClient_wait_def c_quiet_def same_window_def)
next
  case (CClosed x)
  then have "c' = fst (client_Close x c)" "es = snd (client_Close x c)" using assms by simp_all
  then show thesis using CClosed client_Close_resends [of c x c]
    by (intro quiet) (auto simp: c_quiet_def same_window_def client_frames)
qed

section \<open>The client sends\<close>

definition client_sinv :: "int \<Rightarrow> int \<Rightarrow> bytes list \<Rightarrow> int set \<Rightarrow> int \<Rightarrow> client \<Rightarrow> bool" where
  "client_sinv cid W h A lo c \<longleftrightarrow> client_tags c \<and> c_snd_inv cid h A c \<and> lo = seq (c_conn c) \<and>
     W = WindowSize (params (c_conn c))"

lemma client_sinv_in_flight:
  assumes "client_sinv cid W h A lo c" and "fmlookup (databuf (c_conn c)) k = Some m"
  shows "sendable cid W h lo m"
proof -
  have inv: "snd_inv cid h A (c_sendct c) (c_conn c)" using assms(1) by (simp add: client_sinv_def c_snd_inv_def)
  show ?thesis
    using assms(1) snd_invD(1,3) [OF inv] snd_invD(6) [OF inv assms(2)]
    by (auto simp: sendable_def client_sinv_def intro!: exI [of _ k])
qed

lemma client_sinv_same:
  assumes "client_sinv cid W h A lo c" and "c_quiet c c'"
  shows "client_sinv cid W h A lo c'"
  using assms c_quiet_snd [OF assms(2)] client_tags_same [of c c']
  by (auto simp: client_sinv_def c_quiet_def same_window_def)

lemma client_sinv_resends:
  assumes "client_sinv cid W h A lo c" and "resends c es" and "m \<in> data_sent es"
  shows "sendable cid W h lo m"
  using assms client_sinv_in_flight resends_data by (metis client_sinv_def)

lemma client_snd_frame:
  assumes inv: "client_sinv cid W h A lo c" and t: "client_tags c'"
    and f: "params (c_conn c') = params (c_conn c)" "seq (c_conn c') = seq (c_conn c)"
      "databuf (c_conn c') = databuf (c_conn c)" "writebuf (c_conn c') = writebuf (c_conn c)"
      "c_sendct c' = c_sendct c" "c_conId c' = c_conId c"
  shows "client_sinv cid W h A lo c'"
  using inv t f snd_inv_frame [OF f(1-4)] by (simp add: client_sinv_def c_snd_inv_def)

lemma client_data_snd_frame:
  "params (c_conn (fst (client_data m c))) = params (c_conn c)"
  "seq (c_conn (fst (client_data m c))) = seq (c_conn c)"
  "databuf (c_conn (fst (client_data m c))) = databuf (c_conn c)"
  "writebuf (c_conn (fst (client_data m c))) = writebuf (c_conn c)"
  "c_sendct (fst (client_data m c)) = c_sendct c" "c_conId (fst (client_data m c)) = c_conId c"
  "data_sent (snd (client_data m c)) = {}"
  by (simp_all add: client_data_def Let_def split_beta data_sent_def)

lemma client_handleRead_snd_frame:
  "params (c_conn (fst (client_handleRead c))) = params (c_conn c)"
  "seq (c_conn (fst (client_handleRead c))) = seq (c_conn c)"
  "databuf (c_conn (fst (client_handleRead c))) = databuf (c_conn c)"
  "writebuf (c_conn (fst (client_handleRead c))) = writebuf (c_conn c)"
  "c_sendct (fst (client_handleRead c)) = c_sendct c" "c_conId (fst (client_handleRead c)) = c_conId c"
  "data_sent (snd (client_handleRead c)) = {}"
  by (simp_all add: client_handleRead_def data_sent_def split: option.split)

lemma client_sinv_ack:
  assumes inv: "client_sinv cid W h A lo c" and n: "0 < SeqNum m" "SeqNum m \<le> int (length h)" "SeqNum m < lo + W"
  shows "\<exists>A' lo'. A' \<subseteq> insert (SeqNum m) A \<and> lo \<le> lo' \<and>
    client_sinv cid W h A' lo' (fst (client_ack m c)) \<and>
    (\<forall>x \<in> data_sent (snd (client_ack m c)). sendable cid W h lo' x)"
proof -
  have c: "c_snd_inv cid h A c" and lo: "lo = seq (c_conn c)" "W = WindowSize (params (c_conn c))"
    and t: "client_tags c"
    using inv by (simp_all add: client_sinv_def)
  obtain A' where A': "A' \<subseteq> insert (SeqNum m) A" "c_snd_inv cid h A' (fst (client_ack m c))"
    "seq (c_conn c) \<le> seq (c_conn (fst (client_ack m c)))"
    "\<forall>x \<in> set (sent (snd (client_ack m c))). \<exists>k. fmlookup (databuf (c_conn (fst (client_ack m c)))) k = Some x"
    using client_ack_inv [OF c n(1,2)] n(3) lo by blast
  have "params (c_conn (fst (client_ack m c))) = params (c_conn c)"
    by (simp add: client_ack_def Let_def split_beta)
  then have inv': "client_sinv cid W h A' (seq (c_conn (fst (client_ack m c)))) (fst (client_ack m c))"
    using A'(2) client_tags_ack [OF t] lo by (simp add: client_sinv_def)
  then show ?thesis
    using A' lo client_sinv_in_flight [OF inv']
    by (intro exI [of _ A'] exI [of _ "seq (c_conn (fst (client_ack m c)))"]) (auto simp: data_sent_def)
qed

lemma client_ack_old:
  assumes inv: "client_sinv cid W h A lo c" and n: "SeqNum m \<le> 0"
  shows "c_quiet c (fst (client_ack m c)) \<and> snd (client_ack m c) = []"
proof -
  have "c_conId c \<noteq> 0" "1 \<le> seq (c_conn c)"
    using inv snd_invD(3) by (auto simp: client_sinv_def c_snd_inv_def)
  then show ?thesis using n by (auto simp: client_ack_def ack_in_window_def c_quiet_def same_window_def)
qed

lemma client_sstep_write:
  assumes inv: "client_sinv cid W h A lo c" and st: "client_sstep c (SWrite p) c' D"
  shows "client_sinv cid W (h @ [p]) A lo c' \<and> (\<forall>m \<in> D. sendable cid W (h @ [p]) lo m)"
proof -
  obtain i es where i: "client_step i c = Some (c', es)" "client_sev i = SWrite p" "D = data_sent es"
    using st by (auto simp: client_sstep_def)
  have w: "(c', es) = client_handleWrite p c"
    using i(1)
  proof (cases rule: client_step_cases)
    case quiet
    then show ?thesis using i(2) by blast
  next
    case (swrite q)
    then show ?thesis using i(2) by simp
  next
    case (sack m)
    then show ?thesis using i(2) by (simp split: if_splits)
  qed (use i(2) in simp_all)
  then have c': "c' = fst (client_handleWrite p c)" "es = snd (client_handleWrite p c)"
    by (metis fst_conv, metis snd_conv)
  have "seq (c_conn c') = seq (c_conn c)" "params (c_conn c') = params (c_conn c)"
    by (simp_all add: c' client_handleWrite_def Let_def split_beta enqueue_def)
  then have inv': "client_sinv cid W (h @ [p]) A lo c'"
    using inv client_write_inv(1) [of cid h A c p] client_tags_write [of c p]
    by (simp add: client_sinv_def c')
  have "sendable cid W (h @ [p]) lo m" if m: "m \<in> D" for m
  proof -
    have "m \<in> set (sent (snd (client_handleWrite p c)))" using m by (simp add: i(3) c' data_sent_def)
    then obtain n where "fmlookup (databuf (c_conn c')) n = Some m"
      using client_write_inv(2) [of cid h A c m p] inv by (auto simp: client_sinv_def c')
    then show ?thesis by (rule client_sinv_in_flight [OF inv'])
  qed
  with inv' show ?thesis by blast
qed

lemma client_sstep_ack:
  assumes inv: "client_sinv cid W h A lo c" and st: "client_sstep c (SAck n) c' D"
    and n: "1 \<le> n" "n \<le> int (length h)" "n < lo + W"
  shows "\<exists>A' lo'. A' \<subseteq> insert n A \<and> lo \<le> lo' \<and> client_sinv cid W h A' lo' c' \<and>
    (\<forall>m \<in> D. sendable cid W h lo' m)"
proof -
  obtain i es where i: "client_step i c = Some (c', es)" "client_sev i = SAck n" "D = data_sent es"
    using st by (auto simp: client_sstep_def)
  show ?thesis
    using i(1)
  proof (cases rule: client_step_cases)
    case quiet
    then show ?thesis
      using inv client_sinv_same [OF inv quiet(1)] client_sinv_resends [OF inv quiet(2)] i(3)
      by (intro exI [of _ A] exI [of _ lo]) auto
  next
    case (sack m)
    have m: "SeqNum m = n" using sack(1) i(2) by (simp split: if_splits)
    have inv1: "client_sinv cid W h A lo (counted c)"
      by (rule client_sinv_same [OF inv]) (simp add: c_quiet_def)
    have c': "c' = fst (client_ack m (counted c))" "es = snd (client_ack m (counted c))"
      using sack(3) by (metis fst_conv, metis snd_conv)
    show ?thesis
      using client_sinv_ack [OF inv1, of m] n by (simp add: m i(3) c')
  qed (use i(2) in simp_all)
qed

lemma client_sstep_other:
  assumes inv: "client_sinv cid W h A lo c" and st: "client_sstep c SOther c' D"
  shows "client_sinv cid W h A lo c' \<and> (\<forall>m \<in> D. sendable cid W h lo m)"
proof -
  obtain i es where i: "client_step i c = Some (c', es)" "client_sev i = SOther" "D = data_sent es"
    using st by (auto simp: client_sstep_def)
  have inv1: "client_sinv cid W h A lo (counted c)"
    by (rule client_sinv_same [OF inv]) (simp add: c_quiet_def)
  have t: "client_tags c" "client_tags (counted c)" using inv inv1 by (simp_all add: client_sinv_def)
  show ?thesis
    using i(1)
  proof (cases rule: client_step_cases)
    case quiet
    then show ?thesis
      using client_sinv_same [OF inv quiet(1)] client_sinv_resends [OF inv quiet(2)] i(3) by blast
  next
    case (sack m)
    have "SeqNum m \<le> 0" using sack(1) i(2) by (simp split: if_splits)
    then have "c_quiet (counted c) (fst (client_ack m (counted c)))" "snd (client_ack m (counted c)) = []"
      using client_ack_old [OF inv1] by blast+
    then show ?thesis using client_sinv_same [OF inv1] sack(3) i(3) by (metis fst_conv snd_conv data_sent_simps(1) empty_iff)
  next
    case (sdata m)
    have c': "c' = fst (client_data m (counted c))" "es = snd (client_data m (counted c))"
      using sdata(3) by (metis fst_conv, metis snd_conv)
    have "client_sinv cid W h A lo c'" unfolding c'
      by (rule client_snd_frame [OF inv1 client_tags_data [OF t(2)] client_data_snd_frame(1-6)])
    then show ?thesis using client_data_snd_frame(7) i(3) c'(2) by simp
  next
    case sread
    have c': "c' = fst (client_handleRead c)" "es = snd (client_handleRead c)"
      using sread(3) by (metis fst_conv, metis snd_conv)
    have "client_sinv cid W h A lo c'" unfolding c'
      by (rule client_snd_frame [OF inv client_tags_read [OF t(1)] client_handleRead_snd_frame(1-6)])
    then show ?thesis using client_handleRead_snd_frame(7) i(3) c'(2) by simp
  qed (use i(2) in simp_all)
qed

lemma client_sinv_acked: "client_sinv cid W h A lo c \<Longrightarrow> 1 \<le> n \<Longrightarrow> n < lo \<Longrightarrow> n \<in> A"
  using snd_inv_below by (auto simp: client_sinv_def c_snd_inv_def)

interpretation csend: window_sender client_sstep "client_sinv cid W" cid W for cid W
  by unfold_locales
    (erule (1) client_sstep_write, erule (4) client_sstep_ack, erule (1) client_sstep_other,
      erule (2) client_sinv_acked)

section \<open>The client receives\<close>

definition client_rinv :: "int \<Rightarrow> int \<Rightarrow> bytes list \<Rightarrow> int set \<Rightarrow> int \<Rightarrow> client \<Rightarrow> bool" where
  "client_rinv cid W h R k c \<longleftrightarrow> client_tags c \<and> c_rcv_inv cid h R k c \<and>
     W = WindowSize (params (c_conn c)) \<and> k \<le> int (length h) + 1"

lemma client_rinv_same:
  assumes "client_rinv cid W h R k c" and "c_quiet c c'"
  shows "client_rinv cid W h R k c'"
  using assms c_quiet_rcv [OF assms(2)] client_tags_same [of c c']
  by (auto simp: client_rinv_def c_quiet_def same_window_def)

lemma client_rinv_resends:
  assumes "client_rinv cid W h R k c" and "resends c es"
  shows "acks_sent es \<subseteq> R"
proof
  fix n assume n: "n \<in> acks_sent es"
  have t: "client_tags c" and inv: "rcv_inv cid h R k (c_conn c)"
    using assms(1) by (simp_all add: client_rinv_def c_rcv_inv_def)
  obtain j m where j: "fmlookup (ackbuf (c_conn c)) j = Some m" "SeqNum m = n"
    using resends_acks [OF t assms(2) n] by blast
  have "j \<in> R" using rcv_invD(5) [OF inv, of j] j(1) by (simp add: mhas_def)
  moreover have "m = NewAck cid j" using rcv_invD(6) [OF inv j(1)] .
  ultimately show "n \<in> R" using j(2) by simp
qed

lemma client_rcv_frame:
  assumes inv: "client_rinv cid W h R k c" and t: "client_tags c'"
    and f: "params (c_conn c') = params (c_conn c)" "ack (c_conn c') = ack (c_conn c)"
      "ackbuf (c_conn c') = ackbuf (c_conn c)" "readbuf (c_conn c') = readbuf (c_conn c)"
      "c_readct c' = c_readct c" "c_conId c' = c_conId c"
  shows "client_rinv cid W h R k c'"
  using inv t f rcv_inv_frame [OF f(1-4)] by (simp add: client_rinv_def c_rcv_inv_def)

lemma client_write_rcv_frame:
  "params (c_conn (fst (client_handleWrite p c))) = params (c_conn c)"
  "ack (c_conn (fst (client_handleWrite p c))) = ack (c_conn c)"
  "ackbuf (c_conn (fst (client_handleWrite p c))) = ackbuf (c_conn c)"
  "readbuf (c_conn (fst (client_handleWrite p c))) = readbuf (c_conn c)"
  "c_readct (fst (client_handleWrite p c)) = c_readct c" "c_conId (fst (client_handleWrite p c)) = c_conId c"
  "acks_sent (snd (client_handleWrite p c)) = {}" "client_reads (snd (client_handleWrite p c)) = []"
  by (auto simp: client_handleWrite_def Let_def split_beta enqueue_def acks_sent_def)

text \<open>An acknowledgement leaves the receiving half alone, once the connection has its ID.\<close>

lemma client_ack_rcv_frame:
  assumes t: "client_tags c" and i: "c_conId c \<noteq> 0"
  shows "params (c_conn (fst (client_ack m c))) = params (c_conn c)"
  and "ack (c_conn (fst (client_ack m c))) = ack (c_conn c)"
  and "ackbuf (c_conn (fst (client_ack m c))) = ackbuf (c_conn c)"
  and "readbuf (c_conn (fst (client_ack m c))) = readbuf (c_conn c)"
  and "c_readct (fst (client_ack m c)) = c_readct c" and "c_conId (fst (client_ack m c)) = c_conId c"
  and "acks_sent (snd (client_ack m c)) = {}" and "client_reads (snd (client_ack m c)) = []"
proof -
  show "acks_sent (snd (client_ack m c)) = {}"
  proof -
    have "Type x = MsgData" if "x \<in> set (sent (snd (client_ack m c)))" for x
      using that i t ack_slide_subset(1,3) [where n = "SeqNum m" and v = "(c_conn c)\<lparr>receive := lastrece (c_conn c)\<rparr>"]
      by (fastforce simp: client_ack_def Let_def split_beta client_tags_def split: if_splits)
    then show ?thesis by (force simp: acks_sent_def)
  qed
qed (use i in \<open>simp_all add: client_ack_def Let_def split_beta\<close>)

lemma client_rstep_data:
  assumes inv: "client_rinv cid W h R k c" and st: "client_rstep c (RData (wmsg cid h n)) c' As out"
    and n: "1 \<le> n" "n \<le> int (length h)" and prev: "\<And>j. 1 \<le> j \<Longrightarrow> j \<le> n - W \<Longrightarrow> j \<in> R"
  shows "\<exists>R'. R \<subseteq> R' \<and> R' \<subseteq> insert n R \<and> client_rinv cid W h R' k c' \<and> As \<subseteq> R' \<and> out = []"
proof -
  obtain i es where i: "client_step i c = Some (c', es)" "client_rev i = RData (wmsg cid h n)"
    "As = acks_sent es" "out = client_reads es"
    using st by (auto simp: client_rstep_def)
  show ?thesis
    using i(1)
  proof (cases rule: client_step_cases)
    case quiet
    then show ?thesis
      using client_rinv_same [OF inv quiet(1)] client_rinv_resends [OF inv quiet(2)] i(3,4)
      by (intro exI [of _ R]) (auto simp: resends_def)
  next
    case (sdata m)
    have m: "m = wmsg cid h n" using sdata(2) i(2) by simp
    have inv1: "client_rinv cid W h R k (counted c)"
      by (rule client_rinv_same [OF inv]) (simp add: c_quiet_def)
    have c': "c' = fst (client_data m (counted c))" "es = snd (client_data m (counted c))"
      using sdata(3) by (metis fst_conv, metis snd_conv)
    obtain R' where R': "R \<subseteq> R'" "R' \<subseteq> insert n R" "c_rcv_inv cid h R' k c'"
      "\<forall>x \<in> set (sent es). \<exists>j \<in> R'. x = NewAck cid j"
      using client_data_inv [of cid h R k "counted c" m n] inv1 m n prev
      unfolding c' client_rinv_def by blast
    have "params (c_conn c') = params (c_conn c)" using client_data_snd_frame(1) by (simp add: c')
    then have "client_rinv cid W h R' k c'"
      using R'(3) inv1 client_tags_data [of "counted c" m] by (simp add: client_rinv_def c')
    moreover have "As \<subseteq> R'" using R'(4) by (auto simp: i(3) acks_sent_def)
    moreover have "out = []"
      unfolding i(4) c'(2) by (simp add: client_data_def Let_def split_beta)
    ultimately show ?thesis using R'(1,2) by blast
  qed (use i(2) in simp_all)
qed

lemma client_rstep_other:
  assumes inv: "client_rinv cid W h R k c" and st: "client_rstep c ROther c' As out"
  shows "client_rinv cid W h R (k + int (length out)) c' \<and> As \<subseteq> R \<and>
      out = take (length out) (drop (nat (k - 1)) h)"
proof -
  obtain i es where i: "client_step i c = Some (c', es)" "client_rev i = ROther"
    "As = acks_sent es" "out = client_reads es"
    using st by (auto simp: client_rstep_def)
  have inv1: "client_rinv cid W h R k (counted c)"
    by (rule client_rinv_same [OF inv]) (simp add: c_quiet_def)
  have t: "client_tags c" "client_tags (counted c)" and id: "c_conId (counted c) \<noteq> 0"
    using inv inv1 by (auto simp: client_rinv_def c_rcv_inv_def)
  show ?thesis
    using i(1)
  proof (cases rule: client_step_cases)
    case quiet
    then show ?thesis
      using client_rinv_same [OF inv quiet(1)] client_rinv_resends [OF inv quiet(2)] i(3,4)
      by (simp add: resends_def)
  next
    case (swrite p)
    have c': "c' = fst (client_handleWrite p c)" "es = snd (client_handleWrite p c)"
      using swrite(3) by (metis fst_conv, metis snd_conv)
    have "client_rinv cid W h R k c'" unfolding c'
      by (rule client_rcv_frame [OF inv client_tags_write [OF t(1)] client_write_rcv_frame(1-6)])
    then show ?thesis using client_write_rcv_frame(7,8) i(3,4) c'(2) by simp
  next
    case (sack m)
    have c': "c' = fst (client_ack m (counted c))" "es = snd (client_ack m (counted c))"
      using sack(3) by (metis fst_conv, metis snd_conv)
    have "client_rinv cid W h R k c'" unfolding c'
      by (rule client_rcv_frame [OF inv1 client_tags_ack [OF t(2)] client_ack_rcv_frame(1-6) [OF t(2) id]])
    then show ?thesis using client_ack_rcv_frame(7,8) [OF t(2) id] i(3,4) c'(2) by simp
  next
    case sread
    have c: "c_rcv_inv cid h R k c" using inv by (simp add: client_rinv_def)
    show ?thesis
      using client_read_inv [OF c]
    proof
      assume "client_handleRead c = (c, [])"
      then show ?thesis using sread(3) i(3,4) inv by simp
    next
      assume "\<exists>c'. client_handleRead c = (c', [Replyread (Pkt (Some (wmsg cid h k)) None 1)]) \<and>
        c_rcv_inv cid h R (k + 1) c' \<and> 1 \<le> k \<and> k \<le> int (length h) \<and> c_sendct c' = c_sendct c \<and>
        seq (c_conn c') = seq (c_conn c) \<and> databuf (c_conn c') = databuf (c_conn c) \<and>
        writebuf (c_conn c') = writebuf (c_conn c) \<and> params (c_conn c') = params (c_conn c) \<and>
        c_conId c' = c_conId c"
      then have r: "client_handleRead c = (c', [Replyread (Pkt (Some (wmsg cid h k)) None 1)])"
        "c_rcv_inv cid h R (k + 1) c'" "1 \<le> k" "k \<le> int (length h)" "params (c_conn c') = params (c_conn c)"
        using sread(3) by auto
      have es: "es = [Replyread (Pkt (Some (wmsg cid h k)) None 1)]" using r(1) sread(3) by simp
      have out: "out = [h ! nat (k - 1)]" unfolding i(4) es by (simp add: wmsg_def NewData_def)
      have "take 1 (drop (nat (k - 1)) h) = [h ! nat (k - 1)]"
        using r(3,4) by (simp add: take_Suc_conv_app_nth nat_less_iff)
      moreover have "client_tags c'" using client_tags_read [OF t(1)] r(1) by (metis fst_conv)
      ultimately show ?thesis
        using inv r(2-5) by (simp add: out i(3) es acks_sent_def client_rinv_def)
    qed
  qed (use i(2) in simp_all)
qed

lemma client_rinv_hist: "client_rinv cid W h R k c \<Longrightarrow> client_rinv cid W (h @ [p]) R k c"
  using rcv_inv_hist by (auto simp: client_rinv_def c_rcv_inv_def)

lemma client_rinv_bounds: "client_rinv cid W h R k c \<Longrightarrow> n \<in> R \<Longrightarrow> 1 \<le> n \<and> n \<le> int (length h)"
  using rcv_invD(4) by (auto simp: client_rinv_def c_rcv_inv_def)

lemma client_rinv_next: "client_rinv cid W h R k c \<Longrightarrow> 1 \<le> k \<and> k \<le> int (length h) + 1"
  using rcv_invD(3) by (auto simp: client_rinv_def c_rcv_inv_def)

interpretation crecv: window_receiver client_rstep "client_rinv cid W" cid W for cid W
  by unfold_locales
    (erule (3) client_rstep_data, simp, erule (1) client_rstep_other, erule client_rinv_hist,
      erule (1) client_rinv_bounds, erule client_rinv_next)

section \<open>A client that has just been built\<close>

definition client_fresh :: "int \<Rightarrow> int \<Rightarrow> client \<Rightarrow> bool" where
  "client_fresh cid W c \<longleftrightarrow> 0 < cid \<and> c_conId c = cid \<and> c_sendct c = 1 \<and> c_readct c = 1 \<and>
     seq (c_conn c) = 1 \<and> ack (c_conn c) = 1 \<and> databuf (c_conn c) = fmempty \<and>
     writebuf (c_conn c) = fmempty \<and> ackbuf (c_conn c) = fmempty \<and> readbuf (c_conn c) = fmempty \<and>
     WindowSize (params (c_conn c)) = W \<and> 1 \<le> W"

lemma client_fresh_inv:
  assumes "client_fresh cid W c"
  shows "client_sinv cid W [] {} 1 c" and "client_rinv cid W [] {} 1 c"
  using assms snd_inv_init [of "c_conn c" cid] rcv_inv_init [of "c_conn c" cid]
  by (simp_all add: client_fresh_def client_sinv_def client_rinv_def c_snd_inv_def c_rcv_inv_def
      client_tags_def)

end
