(* ===== verification/LspServer.thy ===== *)
theory LspServer
  imports LspReceive
begin

text \<open>
  The server of \<open>lsp/server_impl.go\<close>: the state of the \<open>server\<close> struct, the handlers its goroutine
  runs for the packets of the channel \<open>req\<close>, and the functions of the API. The table \<open>conn\<close> holds
  pointers in Go; every function that writes through one puts the changed connection back here.
  A result \<open>None\<close> is a nil pointer dereference: of a connection that is not in the table, of an
  address, or of the message of a packet.
\<close>

section \<open>State\<close>

record fk =
  f_databuf :: "(int, Message) fmap"
  f_lastEpo :: int
  f_rece :: int
  f_addr :: "addr option"
  f_params :: Params

record server =
  s_listenconn :: Connect
  s_initparams :: Params
  s_conn :: "(int, Connect) fmap"
  s_readclose :: bool
  s_connCt :: int
  s_banclose :: "(int, fk) fmap"
  s_closepend :: "(int, bool) fmap"
  s_closeack :: "(int, bool) fmap"
  s_sendct :: "(int, int) fmap"
  s_addmap :: "(addr, int) fmap"
  s_pendconn :: "(int, int) fmap"
  s_readnum :: int
  s_estab :: bool
  s_readct :: "(int, int) fmap"

definition new_server :: "Params \<Rightarrow> server" where
  "new_server parm =
     \<lparr>s_listenconn = NewConnection parm, s_initparams = parm, s_conn = fmempty, s_readclose = False,
      s_connCt = 1, s_banclose = fmempty, s_closepend = fmempty, s_closeack = fmempty,
      s_sendct = fmempty, s_addmap = fmempty, s_pendconn = fmempty, s_readnum = 0, s_estab = False,
      s_readct = fmempty\<rparr>"

text \<open>
  \<open>listen\<close> returns whether its error is nil: it is nil also when the address does not resolve,
  and then the connection has no socket.
\<close>

definition server_listen :: "UDPAddr option \<Rightarrow> UDPConn option \<Rightarrow> Connect \<Rightarrow> Connect \<times> bool" where
  "server_listen resolved listening now =
     (case resolved of
        None \<Rightarrow> (now, True)
      | Some serverAddr \<Rightarrow>
          (case listening of
             None \<Rightarrow> (now, False)
           | Some c \<Rightarrow> (now\<lparr>conn := Some c, caddr := Some (UDPAddr_String serverAddr)\<rparr>, True)))"

definition NewServer :: "UDPAddr option \<Rightarrow> UDPConn option \<Rightarrow> Params \<Rightarrow> server option" where
  "NewServer resolved listening parm =
     (let s = new_server parm; (lc, ok) = server_listen resolved listening (s_listenconn s)
      in if ok then Some (s\<lparr>s_listenconn := lc\<rparr>) else None)"

text \<open>
  The orders in which the \<open>range\<close> loops of one turn of the handler visit their maps: over
  \<open>banclose\<close>, over \<open>conn\<close> (and over \<open>conn\<close> once more, in the second loop of \<open>sclose\<close>), and per
  connection over the buffers.
\<close>

record orders =
  o_ban :: "int list"
  o_conn :: "int list"
  o_conn2 :: "int list"
  o_banbuf :: "int \<Rightarrow> int list"
  o_ackbuf :: "int \<Rightarrow> int list"
  o_databuf :: "int \<Rightarrow> int list"
  o_writebuf :: "int \<Rightarrow> int list"

text \<open>\<open>s.listenconn.ssend(msg, addr)\<close>: a write to a nil address fails without sending.\<close>

definition ssend :: "Message \<Rightarrow> addr option \<Rightarrow> effect list" where
  "ssend m a = (case a of None \<Rightarrow> [] | Some x \<Rightarrow> [Ssend m x])"

definition ssend_all :: "Message list \<Rightarrow> addr option \<Rightarrow> effect list" where
  "ssend_all ms a = concat (map (\<lambda>m. ssend m a) ms)"

lemma set_ssend: "e \<in> set (ssend m a) \<longleftrightarrow> (\<exists>x. a = Some x \<and> e = Ssend m x)"
  by (auto simp: ssend_def split: option.splits)

lemma set_ssend_all: "e \<in> set (ssend_all ms a) \<longleftrightarrow> (\<exists>x. a = Some x \<and> (\<exists>m \<in> set ms. e = Ssend m x))"
  by (auto simp: ssend_all_def set_ssend)

abbreviation set_conn :: "int \<Rightarrow> Connect \<Rightarrow> server \<Rightarrow> server" where
  "set_conn i v s \<equiv> s\<lparr>s_conn := fmupd i v (s_conn s)\<rparr>"

section \<open>Closing one connection\<close>

definition server_handleclosecon :: "orders \<Rightarrow> Packet \<Rightarrow> server \<Rightarrow> (server, effect) outcome" where
  "server_handleclosecon rg pak s =
     (case msg pak of
        None \<Rightarrow> None
      | Some m \<Rightarrow>
          (let i = ConnID m in
           case fmlookup (s_conn s) i of
             None \<Rightarrow> None
           | Some v \<Rightarrow>
               (let (s1, e1) =
                  (if \<not> losted v
                   then (let hold = \<lparr>f_databuf = fmadd (databuf v) (writebuf v), f_lastEpo = 0,
                                     f_rece = 0, f_addr = paddr pak, f_params = params v\<rparr>
                         in (s\<lparr>s_banclose := fmupd i hold (s_banclose s)\<rparr>,
                             ssend_all (range_vals (o_writebuf rg i) (writebuf v)) (paddr pak)))
                   else (s, []))
                in case paddr pak of
                     None \<Rightarrow> None
                   | Some a \<Rightarrow>
                       Some (s1\<lparr>s_readct := fmdrop i (s_readct s1), s_addmap := fmdrop a (s_addmap s1),
                                s_closepend := fmdrop i (s_closepend s1), s_conn := fmdrop i (s_conn s1),
                                s_sendct := fmdrop i (s_sendct s1), s_closeack := fmdrop i (s_closeack s1)\<rparr>,
                             e1))))"

section \<open>Epochs\<close>

text \<open>The body of the first loop of \<open>handleEpoch\<close>: a connection closed by \<open>CloseConn\<close>.\<close>

definition epoch_ban :: "orders \<Rightarrow> int \<Rightarrow> server \<Rightarrow> (server, effect) outcome" where
  "epoch_ban rg k s =
     (case fmlookup (s_banclose s) k of
        None \<Rightarrow> Some (s, [])
      | Some v0 \<Rightarrow>
          (let v = v0\<lparr>f_rece := f_rece v0 + 1\<rparr>
           in if f_rece v - f_lastEpo v \<ge> EpochLimit (f_params v)
              then Some (s\<lparr>s_banclose := fmdrop k (s_banclose s)\<rparr>, [])
              else Some (s\<lparr>s_banclose := fmupd k v (s_banclose s)\<rparr>,
                         ssend_all (range_vals (o_banbuf rg k) (f_databuf v)) (f_addr v))))"

text \<open>
  The body of the second loop. The acknowledgement sent to a connection that is not yet
  established carries \<open>pendconn[i]\<close>, the value stored under the connection's number, as its ID.
\<close>

definition epoch_lost_pending :: "int \<Rightarrow> Connect \<Rightarrow> server \<Rightarrow> (server, effect) outcome" where
  "epoch_lost_pending i v s =
     (if s_readclose s
      then Some (s\<lparr>s_closeack := fmupd i True (s_closeack s)\<rparr>, [Req (Pkt None None sclose)])
      else
        case caddr v of
          None \<Rightarrow> None
        | Some a \<Rightarrow>
            Some (s\<lparr>s_addmap := fmdrop a (s_addmap s), s_readct := fmdrop i (s_readct s),
                    s_closeack := fmdrop i (s_closeack s), s_closepend := fmdrop i (s_closepend s),
                    s_pendconn := fmdrop i (s_pendconn s), s_conn := fmdrop i (s_conn s),
                    s_sendct := fmdrop i (s_sendct s)\<rparr>, []))"

definition epoch_lost :: "orders \<Rightarrow> int \<Rightarrow> Connect \<Rightarrow> server \<Rightarrow> (server, effect) outcome" where
  "epoch_lost rg i v s =
     (let s1 = set_conn i (v\<lparr>losted := True\<rparr>) s;
          m = zero_Message\<lparr>ConnID := i\<rparr>;
          e1 = [Reply (Pkt (Some m) None (- 1))]
      in if mget False (s_closepend s1) i
         then Some (s1\<lparr>s_closeack := fmupd i True (s_closeack s1)\<rparr>, e1 @ [Req (Pkt None None sclose)])
         else andthen (Some (s1, e1)) (server_handleclosecon rg (Pkt (Some m) (caddr v) sclose)))"

definition epoch_alive :: "orders \<Rightarrow> int \<Rightarrow> Connect \<Rightarrow> server \<Rightarrow> (server, effect) outcome" where
  "epoch_alive rg i v s =
     (case fmlookup (s_pendconn s) i of
        Some k \<Rightarrow> Some (s, ssend (NewAck k 0) (caddr v) @
                           ssend_all (range_vals (o_databuf rg i) (databuf v)) (caddr v))
      | None \<Rightarrow> Some (s, ssend_all (range_vals (o_ackbuf rg i) (ackbuf v)) (caddr v) @
                         ssend_all (range_vals (o_databuf rg i) (databuf v)) (caddr v)))"

definition epoch_conn :: "orders \<Rightarrow> int \<Rightarrow> server \<Rightarrow> (server, effect) outcome" where
  "epoch_conn rg i s =
     (case fmlookup (s_conn s) i of
        None \<Rightarrow> Some (s, [])
      | Some v0 \<Rightarrow>
          (let v = v0\<lparr>receive := receive v0 + 1\<rparr>; s1 = set_conn i v s
           in if receive v - lastrece v + 1 > EpochLimit (params v)
              then (if mhas (s_pendconn s1) i then epoch_lost_pending i v s1 else epoch_lost rg i v s1)
              else epoch_alive rg i v s1))"

definition server_handleEpoch :: "orders \<Rightarrow> server \<Rightarrow> (server, effect) outcome" where
  "server_handleEpoch rg s =
     andthen (run_loop (epoch_ban rg) (o_ban rg) s) (run_loop (epoch_conn rg) (o_conn rg))"

section \<open>Receiving\<close>

definition recv_connect :: "addr option \<Rightarrow> server \<Rightarrow> (server, effect) outcome" where
  "recv_connect pa s =
     (case pa of
        None \<Rightarrow> None
      | Some hold \<Rightarrow>
          (case fmlookup (s_addmap s) hold of
             None \<Rightarrow>
               (let i = s_connCt s;
                    cc = (NewConnection (s_initparams s))\<lparr>caddr := pa, seq := 1\<rparr>
                in Some (s\<lparr>s_addmap := fmupd hold i (s_addmap s), s_conn := fmupd i cc (s_conn s),
                           s_closepend := fmupd i False (s_closepend s),
                           s_closeack := fmupd i False (s_closeack s),
                           s_readct := fmupd i 1 (s_readct s), s_pendconn := fmupd i 1 (s_pendconn s),
                           s_sendct := fmupd i 1 (s_sendct s), s_connCt := i + 1\<rparr>,
                         ssend (NewAck i 0) (caddr cc)))
           | Some idd \<Rightarrow>
               (let ok2 = mhas (s_pendconn s) idd in
                case fmlookup (s_conn s) idd of
                  None \<Rightarrow> Some (s, [])
                | Some v \<Rightarrow>
                    if \<not> ok2 then Some (set_conn idd (v\<lparr>lastrece := receive v\<rparr>) s, [])
                    else Some (s, ssend (NewAck idd 0) (caddr v)))))"

text \<open>
  The first message with a positive number confirms the connection: \<open>confirm\<close> takes it out of
  \<open>pendconn\<close>. It panics when the number is in \<open>pendconn\<close> but not in the table.
\<close>

definition confirm :: "int \<Rightarrow> server \<Rightarrow> server option" where
  "confirm i s =
     (let s1 = s\<lparr>s_pendconn := fmdrop i (s_pendconn s)\<rparr> in
      case fmlookup (s_conn s1) i of
        None \<Rightarrow> None
      | Some v \<Rightarrow> Some (set_conn i (v\<lparr>estab := True, losted := False\<rparr>) s1))"

definition recv_data :: "Message \<Rightarrow> server \<Rightarrow> (server, effect) outcome" where
  "recv_data m s =
     (let i = ConnID m; pend = mhas (s_pendconn s) i;
          r = (if SeqNum m > 0 \<and> pend then map_option (\<lambda>s'. (s', False)) (confirm i s) else Some (s, pend))
      in case r of
           None \<Rightarrow> None
         | Some (s1, ok2) \<Rightarrow>
             (case fmlookup (s_conn s1) i of
                None \<Rightarrow> Some (s1, [])
              | Some v \<Rightarrow>
                  if \<not> ok2 \<and> SeqNum m \<ge> ack v
                  then (let (v1, fresh) = accept_data i m (v\<lparr>lastrece := receive v\<rparr>)
                        in Some (set_conn i v1 s1,
                                 ssend (NewAck i (SeqNum m)) (caddr v) @
                                   (if fresh then [Req (Pkt None None sread)] else [])))
                  else Some (s1, [])))"

text \<open>An acknowledgement for a connection closed by \<open>CloseConn\<close>, and the window of a live one.\<close>

definition recv_ack_ban :: "Message \<Rightarrow> fk \<Rightarrow> server \<Rightarrow> (server, effect) outcome" where
  "recv_ack_ban m nani s =
     (let i = ConnID m;
          nani1 = nani\<lparr>f_lastEpo := f_rece nani, f_databuf := fmdrop (SeqNum m) (f_databuf nani)\<rparr>
      in if mlen (f_databuf nani1) = 0
         then Some (s\<lparr>s_banclose := fmdrop i (s_banclose s)\<rparr>, [])
         else Some (s\<lparr>s_banclose := fmupd i nani1 (s_banclose s)\<rparr>, []))"

definition recv_ack_window :: "Message \<Rightarrow> bool \<Rightarrow> server \<Rightarrow> (server, effect) outcome" where
  "recv_ack_window m ok2 s =
     (case fmlookup (s_conn s) (ConnID m) of
        None \<Rightarrow> Some (s, [])
      | Some v \<Rightarrow>
          if \<not> ok2 \<and> SeqNum m = 0
          then Some (set_conn (ConnID m) (v\<lparr>lastrece := receive v\<rparr>) s, [])
          else if \<not> ok2 \<and> ack_in_window (SeqNum m) v
          then (let (v1, out) = ack_slide (SeqNum m) (v\<lparr>lastrece := receive v\<rparr>)
                in Some (set_conn (ConnID m) v1 s, ssend_all out (caddr v)))
          else Some (s, []))"

definition recv_ack :: "Message \<Rightarrow> server \<Rightarrow> (server, effect) outcome" where
  "recv_ack m s =
     (let i = ConnID m; pend = mhas (s_pendconn s) i in
      case (if \<not> pend \<and> SeqNum m = 0 then fmlookup (s_conn s) i else None) of
        Some v \<Rightarrow> Some (set_conn i (v\<lparr>lastrece := receive v\<rparr>) s, ssend (NewAck i 0) (caddr v))
      | None \<Rightarrow>
          (case fmlookup (s_banclose s) i of
             Some nani \<Rightarrow> recv_ack_ban m nani s
           | None \<Rightarrow>
               if SeqNum m > 0 \<and> pend
               then (case confirm i s of None \<Rightarrow> None | Some s1 \<Rightarrow> recv_ack_window m False s1)
               else recv_ack_window m pend s))"

definition server_handleReceive :: "Packet \<Rightarrow> server \<Rightarrow> (server, effect) outcome" where
  "server_handleReceive pak s =
     (case msg pak of
        None \<Rightarrow> None
      | Some m \<Rightarrow>
          (let closing = mget False (s_closepend s) (ConnID m) in
           if closing \<and> Type m \<noteq> MsgAck then Some (s, [])
           else
             case (if closing then (case fmlookup (s_conn s) (ConnID m) of
                                      None \<Rightarrow> None
                                    | Some v \<Rightarrow> Some (mlen (writebuf v) = 0 \<and> mlen (databuf v) = 0))
                   else Some False) of
               None \<Rightarrow> None
             | Some True \<Rightarrow> Some (s\<lparr>s_closeack := fmupd (ConnID m) True (s_closeack s)\<rparr>,
                                 [Req (Pkt None None sclose)])
             | Some False \<Rightarrow>
                 (case Type m of
                    MsgConnect \<Rightarrow> recv_connect (paddr pak) s
                  | MsgData \<Rightarrow> recv_data m s
                  | MsgAck \<Rightarrow> recv_ack m s
                  | MsgTypeOther _ \<Rightarrow> Some (s, []))))"

section \<open>Writing and reading\<close>

definition server_handleWrite :: "int \<Rightarrow> bytes \<Rightarrow> server \<Rightarrow> (server, effect) outcome" where
  "server_handleWrite connID dat s =
     (let hold = mget 0 (s_sendct s) connID; m = NewData connID hold dat in
      case fmlookup (s_conn s) connID of
        None \<Rightarrow> None
      | Some tempcon \<Rightarrow>
          (let (v, out) = enqueue hold m tempcon
           in Some ((set_conn connID v s)\<lparr>s_sendct := fmupd connID (hold + 1) (s_sendct s)\<rparr>,
                    ssend_all out (caddr tempcon))))"

definition handle_swrite :: "Message \<Rightarrow> server \<Rightarrow> (server, effect) outcome" where
  "handle_swrite m s =
     (case fmlookup (s_conn s) (ConnID m) of
        None \<Rightarrow> Some (s, [Writeans (Pkt None None 0)])
      | Some v \<Rightarrow>
          if losted v then Some (s, [Writeans (Pkt None None (- 1))])
          else andthen (Some (s, [Writeans (Pkt None None 1)])) (server_handleWrite (ConnID m) (Payload m)))"

text \<open>The first connection in the order of the loop that has its next message at hand is served.\<close>

definition read_ready :: "server \<Rightarrow> int \<Rightarrow> bool" where
  "read_ready s i =
     (case fmlookup (s_conn s) i of
        None \<Rightarrow> False
      | Some v \<Rightarrow> \<not> mhas (s_pendconn s) i \<and> mhas (readbuf v) (mget 0 (s_readct s) i))"

definition handle_sread :: "orders \<Rightarrow> server \<Rightarrow> (server, effect) outcome" where
  "handle_sread rg s =
     (case find (read_ready s) (o_conn rg) of
        None \<Rightarrow> Some (s, [])
      | Some i \<Rightarrow>
          (case fmlookup (s_conn s) i of
             None \<Rightarrow> Some (s, [])
           | Some v \<Rightarrow>
               (let n = mget 0 (s_readct s) i
                in Some ((set_conn i (take_read n v) s)\<lparr>s_readct := fmupd i (n + 1) (s_readct s)\<rparr>,
                         [Reply (Pkt (fmlookup (readbuf v) n) None 1)]))))"

section \<open>Closing\<close>

definition handle_closeconn :: "orders \<Rightarrow> Message \<Rightarrow> server \<Rightarrow> (server, effect) outcome" where
  "handle_closeconn rg m s =
     (case fmlookup (s_conn s) (ConnID m) of
        None \<Rightarrow> Some (s, [Closeans (Pkt None None (- 2))])
      | Some v \<Rightarrow>
          if \<not> mhas (s_pendconn s) (ConnID m)
          then (let p = Pkt (Some m) (caddr v) 2
                in andthen (Some (s, [Closeans p])) (server_handleclosecon rg p))
          else
            (case caddr v of
               None \<Rightarrow> None
             | Some a \<Rightarrow>
                 Some (s\<lparr>s_addmap := fmdrop a (s_addmap s), s_conn := fmdrop (ConnID m) (s_conn s),
                         s_pendconn := fmdrop (ConnID m) (s_pendconn s),
                         s_sendct := fmdrop (ConnID m) (s_sendct s)\<rparr>,
                       [Closeans (Pkt None None (- 1))])))"

text \<open>
  The packet \<open>sclose\<close>: \<open>close_drop\<close> forgets a connection, \<open>close_mark\<close> is the body of the first
  loop, \<open>close_check\<close> the second loop, which stops at the first connection that is still busy and
  returns whether there was none.
\<close>

definition close_drop :: "int \<Rightarrow> Connect \<Rightarrow> server \<Rightarrow> server option" where
  "close_drop i k s =
     (case caddr k of
        None \<Rightarrow> None
      | Some a \<Rightarrow>
          Some (s\<lparr>s_addmap := fmdrop a (s_addmap s), s_closeack := fmdrop i (s_closeack s),
                  s_closepend := fmdrop i (s_closepend s), s_conn := fmdrop i (s_conn s),
                  s_sendct := fmdrop i (s_sendct s)\<rparr>))"

definition close_mark :: "int \<Rightarrow> server \<Rightarrow> (server, effect) outcome" where
  "close_mark i s =
     (case fmlookup (s_conn s) i of
        None \<Rightarrow> Some (s, [])
      | Some k \<Rightarrow>
          if estab k
          then (if \<not> losted k then Some (s\<lparr>s_closepend := fmupd i True (s_closepend s)\<rparr>, [])
                else map_option (\<lambda>s'. (s', [])) (close_drop i k s))
          else if mlen (writebuf k) \<noteq> 0 \<and> mlen (databuf k) \<noteq> 0
          then Some (s\<lparr>s_closepend := fmupd i True (s_closepend s)\<rparr>, [])
          else Some (s, []))"

fun close_check :: "int list \<Rightarrow> server \<Rightarrow> (server \<times> bool) option" where
  "close_check [] s = Some (s, True)"
| "close_check (i # is) s =
     (case fmlookup (s_conn s) i of
        None \<Rightarrow> close_check is s
      | Some k \<Rightarrow>
          if mget False (s_closepend s) i
          then (if mget False (s_closeack s) i
                then (case close_drop i k s of None \<Rightarrow> None | Some s' \<Rightarrow> close_check is s')
                else Some (s, False))
          else close_check is s)"

definition handle_sclose :: "orders \<Rightarrow> server \<Rightarrow> (server, effect) outcome" where
  "handle_sclose rg s =
     andthen (run_loop close_mark (o_conn rg) (s\<lparr>s_banclose := fmempty\<rparr>))
       (\<lambda>s1. case close_check (o_conn2 rg) s1 of
               None \<Rightarrow> None
             | Some (s2, flag) \<Rightarrow> Some (s2, if flag then [Over (Pkt None None 5)] else []))"

section \<open>The handler\<close>

definition server_handle :: "orders \<Rightarrow> Packet \<Rightarrow> server \<Rightarrow> (server, effect) outcome" where
  "server_handle rg now s =
     (if contype now = sclose then handle_sclose rg s
      else if contype now = sread then handle_sread rg s
      else if contype now = closeconn
      then (case msg now of None \<Rightarrow> None | Some m \<Rightarrow> handle_closeconn rg m s)
      else if contype now = timer then server_handleEpoch rg s
      else if contype now = receive_kind then server_handleReceive now s
      else if contype now = swrite
      then (case msg now of None \<Rightarrow> None | Some m \<Rightarrow> handle_swrite m s)
      else Some (s, []))"

datatype server_input = SExit | STake orders Packet

fun server_handler :: "server_input list \<Rightarrow> server \<Rightarrow> (server, effect) outcome" where
  "server_handler [] s = Some (s, [])"
| "server_handler (SExit # ins) s = Some (s, [])"
| "server_handler (STake rg p # ins) s = andthen (server_handle rg p s) (server_handler ins)"

section \<open>The API\<close>

text \<open>
  As for the client: what a call posts, and what it returns for the packet it receives. An outer
  \<open>None\<close> of \<open>server_Read_result\<close> is a nil message.
\<close>

definition server_Read_start :: "server \<Rightarrow> (int \<times> string) + effect list" where
  "server_Read_start s =
     (if s_readclose s then Inl (0, ''the server has closed'') else Inr [Req (Pkt None None sread)])"

definition server_Read_result :: "Packet \<Rightarrow> ((int \<times> string) + (int \<times> bytes)) option" where
  "server_Read_result x =
     (case msg x of
        None \<Rightarrow> None
      | Some m \<Rightarrow> Some (if contype x = - 1
                       then Inl (ConnID m, ''the connection is lost or ask to be closed'')
                       else Inr (ConnID m, Payload m)))"

definition server_Write_start :: "int \<Rightarrow> bytes \<Rightarrow> effect list" where
  "server_Write_start connID payload =
     [Req (Pkt (Some (zero_Message\<lparr>ConnID := connID, Payload := payload\<rparr>)) None swrite)]"

definition server_Write_result :: "int \<Rightarrow> Packet \<Rightarrow> string + unit" where
  "server_Write_result connID x =
     (if contype x = - 1
      then Inl (''#Server#  the client connection '' @ show_int connID @ '' is lost when try to write'')
      else if contype x = 0
      then Inl (''#Server# the client connection '' @ show_int connID @ '' is not exist when try to write'')
      else Inr ())"

definition server_CloseConn_start :: "int \<Rightarrow> server \<Rightarrow> string + effect list" where
  "server_CloseConn_start connID s =
     (if \<not> s_readclose s
      then Inr [Req (Pkt (Some (zero_Message\<lparr>ConnID := connID\<rparr>)) None closeconn)]
      else Inl ''the server is closed give up the closeconn'')"

definition server_CloseConn_result :: "Packet \<Rightarrow> string + unit" where
  "server_CloseConn_result x =
     (if contype x = - 1 then Inl ''the connid does not established''
      else if contype x = - 2 then Inl ''the connid does not exist''
      else Inr ())"

text \<open>\<open>Close\<close> marks the server and posts a packet; when \<open>over\<close> delivers one it shuts down.\<close>

definition server_Close_start :: "server \<Rightarrow> server \<times> effect list" where
  "server_Close_start s = (s\<lparr>s_readclose := True\<rparr>, [Req (Pkt None None sclose)])"

definition server_Close_finish :: "Packet \<Rightarrow> server \<Rightarrow> server \<times> effect list" where
  "server_Close_finish x s =
     (if contype x > 0
      then (s\<lparr>s_estab := False\<rparr>, [ExitEpo, Exit] @ Connect_close (s_listenconn s))
      else (s, []))"

definition server_Close_result :: "string option" where
  "server_Close_result = Some ''server closed''"

end
