(* ===== verification/LspServerProps.thy ===== *)
theory LspServerProps
  imports LspServer
begin

text \<open>
  What the server's handlers keep. \<open>srv_tags\<close>: the buffers filed under a connection number hold
  messages of that connection. \<open>s_quiet\<close>: which handlers leave the window of a given connection
  alone. \<open>srv_wf\<close>: the tables agree with each other, so that no pointer is nil.
\<close>

section \<open>Messages are filed under their connection\<close>

definition conn_tags :: "int \<Rightarrow> Connect \<Rightarrow> bool" where
  "conn_tags j v \<longleftrightarrow>
     (\<forall>n m. fmlookup (readbuf v) n = Some m \<longrightarrow> ConnID m = j \<and> SeqNum m = n \<and> Type m = MsgData) \<and>
     (\<forall>n m. fmlookup (databuf v) n = Some m \<longrightarrow> ConnID m = j \<and> SeqNum m = n \<and> Type m = MsgData) \<and>
     (\<forall>n m. fmlookup (writebuf v) n = Some m \<longrightarrow> ConnID m = j \<and> SeqNum m = n \<and> Type m = MsgData) \<and>
     (\<forall>n m. fmlookup (ackbuf v) n = Some m \<longrightarrow> m = NewAck j n)"

definition srv_tags :: "server \<Rightarrow> bool" where
  "srv_tags s \<longleftrightarrow>
     (\<forall>j v. fmlookup (s_conn s) j = Some v \<longrightarrow> conn_tags j v) \<and>
     (\<forall>k f. fmlookup (s_banclose s) k = Some f \<longrightarrow>
        (\<forall>n m. fmlookup (f_databuf f) n = Some m \<longrightarrow> ConnID m = k \<and> SeqNum m = n \<and> Type m = MsgData))"

lemma conn_tags_frame:
  "same_window v v' \<Longrightarrow> conn_tags j v \<Longrightarrow> conn_tags j v'"
  by (simp add: conn_tags_def same_window_def)

lemma conn_tags_new: "readbuf v = fmempty \<Longrightarrow> databuf v = fmempty \<Longrightarrow> writebuf v = fmempty \<Longrightarrow>
  ackbuf v = fmempty \<Longrightarrow> conn_tags j v"
  by (simp add: conn_tags_def)

lemma conn_tags_enqueue:
  "conn_tags j v \<Longrightarrow> conn_tags j (fst (enqueue n (NewData j n p) v))"
  by (auto simp: conn_tags_def enqueue_def)

lemma conn_tags_ack: "conn_tags j v \<Longrightarrow> conn_tags j (fst (ack_slide n v))"
  unfolding conn_tags_def using ack_slide_subset [where n = n and v = v] by (simp; blast)

lemma conn_tags_accept:
  "conn_tags j v \<Longrightarrow> ConnID m = j \<Longrightarrow> Type m = MsgData \<Longrightarrow> conn_tags j (fst (accept_data j m v))"
  unfolding conn_tags_def using accept_data_subset [where cid = j and m = m and v = v] by (simp; blast)

lemma conn_tags_read: "conn_tags j v \<Longrightarrow> conn_tags j (take_read n v)"
  by (auto simp: conn_tags_def take_read_def)

lemma srv_tags_conn: "srv_tags s \<Longrightarrow> fmlookup (s_conn s) j = Some v \<Longrightarrow> conn_tags j v"
  by (simp add: srv_tags_def)

lemma srv_tags_set_conn:
  "srv_tags s \<Longrightarrow> conn_tags j v \<Longrightarrow> srv_tags (s\<lparr>s_conn := fmupd j v (s_conn s)\<rparr>)"
  by (auto simp: srv_tags_def)

lemma srv_tags_drop_conn: "srv_tags s \<Longrightarrow> srv_tags (s\<lparr>s_conn := fmdrop j (s_conn s)\<rparr>)"
  by (auto simp: srv_tags_def)

lemma srv_tags_frame:
  "s_conn s' = s_conn s \<Longrightarrow> s_banclose s' = s_banclose s \<Longrightarrow> srv_tags s' = srv_tags s"
  by (simp add: srv_tags_def)

section \<open>Steps that leave a connection alone\<close>

text \<open>
  \<open>s_quiet cid s s'\<close>: after the step, connection \<open>cid\<close> is either gone or has the window, the address and
  the counters it had and has not become pending, and no number has become free again.
\<close>

definition s_quiet :: "int \<Rightarrow> server \<Rightarrow> server \<Rightarrow> bool" where
  "s_quiet cid s s' \<longleftrightarrow>
     s_connCt s \<le> s_connCt s' \<and>
     (\<forall>v'. fmlookup (s_conn s') cid = Some v' \<longrightarrow>
        (\<exists>v. fmlookup (s_conn s) cid = Some v \<and> same_window v v') \<and>
        fmlookup (s_readct s') cid = fmlookup (s_readct s) cid \<and>
        fmlookup (s_sendct s') cid = fmlookup (s_sendct s) cid \<and>
        (mhas (s_pendconn s') cid \<longrightarrow> mhas (s_pendconn s) cid))"

lemma s_quiet_refl [simp]: "s_quiet cid s s"
  by (simp add: s_quiet_def)

lemma s_quiet_trans: "s_quiet cid s t \<Longrightarrow> s_quiet cid t u \<Longrightarrow> s_quiet cid s u"
proof -
  assume st: "s_quiet cid s t" and tu: "s_quiet cid t u"
  have "(\<exists>v. fmlookup (s_conn s) cid = Some v \<and> same_window v v') \<and>
        fmlookup (s_readct u) cid = fmlookup (s_readct s) cid \<and>
        fmlookup (s_sendct u) cid = fmlookup (s_sendct s) cid \<and>
        (mhas (s_pendconn u) cid \<longrightarrow> mhas (s_pendconn s) cid)"
    if v': "fmlookup (s_conn u) cid = Some v'" for v'
  proof -
    obtain w where w: "fmlookup (s_conn t) cid = Some w" "same_window w v'"
      "fmlookup (s_readct u) cid = fmlookup (s_readct t) cid"
      "fmlookup (s_sendct u) cid = fmlookup (s_sendct t) cid"
      "mhas (s_pendconn u) cid \<longrightarrow> mhas (s_pendconn t) cid"
      using tu v' unfolding s_quiet_def by blast
    then obtain v where v: "fmlookup (s_conn s) cid = Some v" "same_window v w"
      "fmlookup (s_readct t) cid = fmlookup (s_readct s) cid"
      "fmlookup (s_sendct t) cid = fmlookup (s_sendct s) cid"
      "mhas (s_pendconn t) cid \<longrightarrow> mhas (s_pendconn s) cid"
      using st unfolding s_quiet_def by blast
    show ?thesis using v w same_window_trans [OF v(2) w(2)] by simp
  qed
  moreover have "s_connCt s \<le> s_connCt u" using st tu by (simp add: s_quiet_def)
  ultimately show ?thesis by (simp add: s_quiet_def)
qed

lemma s_quiet_gone: "s_connCt s \<le> s_connCt s' \<Longrightarrow> fmlookup (s_conn s') cid = None \<Longrightarrow> s_quiet cid s s'"
  by (simp add: s_quiet_def)

lemma s_quiet_frame:
  assumes "s_connCt s' = s_connCt s" and "s_conn s' = s_conn s"
    and "s_readct s' = s_readct s" and "s_sendct s' = s_sendct s"
    and "mhas (s_pendconn s') cid \<Longrightarrow> mhas (s_pendconn s) cid"
  shows "s_quiet cid s s'"
  using assms by (simp add: s_quiet_def)

text \<open>
  What a step may send for connection \<open>cid\<close> while it leaves it alone: acknowledgements of messages
  it has received (\<open>ack_effect\<close>), data messages that are in flight or belong to a closed connection
  (\<open>data_effect\<close>), and no message to the reader (\<open>read_effect\<close>).
\<close>

definition ack_effect :: "int \<Rightarrow> server \<Rightarrow> effect \<Rightarrow> bool" where
  "ack_effect cid s e \<longleftrightarrow>
     (\<forall>m. sent_message e = Some m \<longrightarrow> ConnID m = cid \<longrightarrow> Type m = MsgAck \<longrightarrow> SeqNum m > 0 \<longrightarrow>
        (\<exists>v. fmlookup (s_conn s) cid = Some v \<and> mhas (ackbuf v) (SeqNum m)))"

definition data_effect :: "int \<Rightarrow> server \<Rightarrow> effect \<Rightarrow> bool" where
  "data_effect cid s e \<longleftrightarrow>
     (\<forall>m. sent_message e = Some m \<longrightarrow> ConnID m = cid \<longrightarrow> Type m = MsgData \<longrightarrow>
        mhas (s_banclose s) cid \<or>
        (\<exists>v n. fmlookup (s_conn s) cid = Some v \<and> fmlookup (databuf v) n = Some m))"

definition read_effect :: "int \<Rightarrow> effect \<Rightarrow> bool" where
  "read_effect cid e \<longleftrightarrow> (\<forall>m a. e = Reply (Pkt (Some m) a 1) \<longrightarrow> ConnID m \<noteq> cid)"

definition quiet_effect :: "int \<Rightarrow> server \<Rightarrow> effect \<Rightarrow> bool" where
  "quiet_effect cid s e \<longleftrightarrow> ack_effect cid s e \<and> data_effect cid s e \<and> read_effect cid e"

lemma quiet_effect_Req [simp]: "quiet_effect cid s (Req p)" "quiet_effect cid s (Over p)"
  "quiet_effect cid s (Closeans p)" "quiet_effect cid s (Writeans p)"
  by (simp_all add: quiet_effect_def ack_effect_def data_effect_def read_effect_def)

lemma quiet_effect_Reply: "k \<noteq> 1 \<Longrightarrow> quiet_effect cid s (Reply (Pkt m a k))"
  by (simp add: quiet_effect_def ack_effect_def data_effect_def read_effect_def)

lemma quiet_effect_Ssend:
  "(ConnID m = cid \<Longrightarrow> Type m = MsgAck \<Longrightarrow> SeqNum m > 0 \<Longrightarrow>
      \<exists>v. fmlookup (s_conn s) cid = Some v \<and> mhas (ackbuf v) (SeqNum m)) \<Longrightarrow>
   (ConnID m = cid \<Longrightarrow> Type m = MsgData \<Longrightarrow>
      mhas (s_banclose s) cid \<or> (\<exists>v n. fmlookup (s_conn s) cid = Some v \<and> fmlookup (databuf v) n = Some m)) \<Longrightarrow>
   quiet_effect cid s (Ssend m a)"
  by (simp add: quiet_effect_def ack_effect_def data_effect_def read_effect_def)

text \<open>The state a quiet step has reached from \<open>s0\<close>, and the effects relative to \<open>s0\<close>.\<close>

definition q_from :: "int \<Rightarrow> server \<Rightarrow> server \<Rightarrow> bool" where
  "q_from cid s0 s \<longleftrightarrow> s_quiet cid s0 s \<and> srv_tags s \<and> (mhas (s_banclose s) cid \<longrightarrow> mhas (s_banclose s0) cid)"

lemma q_from_refl: "srv_tags s \<Longrightarrow> q_from cid s s"
  by (simp add: q_from_def)

lemma q_from_effect:
  assumes q: "q_from cid s0 s" and e: "quiet_effect cid s e"
  shows "quiet_effect cid s0 e"
proof -
  have w: "\<exists>v. fmlookup (s_conn s0) cid = Some v \<and> same_window v v'" if "fmlookup (s_conn s) cid = Some v'" for v'
    using q that by (auto simp: q_from_def s_quiet_def)
  have "ack_effect cid s0 e"
    using e w unfolding quiet_effect_def ack_effect_def same_window_def by metis
  moreover have "data_effect cid s0 e"
    using e w q unfolding quiet_effect_def data_effect_def same_window_def q_from_def by metis
  ultimately show ?thesis using e by (simp add: quiet_effect_def)
qed

lemma q_from_trans: "q_from cid s0 s \<Longrightarrow> q_from cid s t \<Longrightarrow> q_from cid s0 t"
  unfolding q_from_def using s_quiet_trans by blast

lemma whenever_q_step:
  assumes "whenever (q_from cid s) (quiet_effect cid s) r" and "q_from cid s0 s"
  shows "whenever (q_from cid s0) (quiet_effect cid s0) r"
proof (cases r)
  case (Some p)
  obtain t es where "p = (t, es)" by (cases p)
  then show ?thesis
    using Some assms q_from_trans [OF assms(2)] q_from_effect [OF assms(2)] by simp
qed simp

lemma q_loop:
  assumes "\<And>k s. srv_tags s \<Longrightarrow> whenever (q_from cid s) (quiet_effect cid s) (f k s)" and "srv_tags s"
  shows "whenever (q_from cid s) (quiet_effect cid s) (run_loop f ks s)"
proof (rule whenever_run_loop)
  show "q_from cid s s" using assms(2) by (rule q_from_refl)
  show "whenever (q_from cid s) (quiet_effect cid s) (f k t)" if "q_from cid s t" for k t
  proof -
    have "srv_tags t" using that by (simp add: q_from_def)
    then show ?thesis using assms(1) that whenever_q_step by blast
  qed
qed

lemma q_andthen:
  assumes "whenever (q_from cid s) (quiet_effect cid s) r"
    and "\<And>t. srv_tags t \<Longrightarrow> whenever (q_from cid t) (quiet_effect cid t) (f t)"
  shows "whenever (q_from cid s) (quiet_effect cid s) (andthen r f)"
proof (rule whenever_andthen [OF assms(1)])
  fix t assume t: "q_from cid s t"
  then have "srv_tags t" by (simp add: q_from_def)
  then show "whenever (q_from cid s) (quiet_effect cid s) (f t)"
    using assms(2) t whenever_q_step by blast
qed

section \<open>Epochs are quiet\<close>

lemma handleclosecon_quiet:
  assumes t: "srv_tags s" and m: "msg pak = Some m"
    and v: "\<And>v. fmlookup (s_conn s) (ConnID m) = Some v \<Longrightarrow> ConnID m = cid \<Longrightarrow> losted v"
  shows "whenever (q_from cid s) (quiet_effect cid s) (server_handleclosecon rg pak s)"
proof (cases "fmlookup (s_conn s) (ConnID m)")
  case None
  then show ?thesis using m by (simp add: server_handleclosecon_def)
next
  case (Some u)
  have tag: "conn_tags (ConnID m) u" using srv_tags_conn [OF t Some] .
  have eff: "quiet_effect cid s e"
    if "ConnID m \<noteq> cid" "e \<in> set (ssend_all (range_vals ks (writebuf u)) pa)" for e ks pa
    using that tag
    by (auto simp: set_ssend_all set_range_vals conn_tags_def intro!: quiet_effect_Ssend)
  show ?thesis
  proof (cases "paddr pak")
    case None
    then show ?thesis using m Some by (simp add: server_handleclosecon_def Let_def split_beta)
  next
    case addr: (Some a)
    let ?i = "ConnID m"
    define s' where "s' = s\<lparr>s_readct := fmdrop ?i (s_readct s), s_addmap := fmdrop a (s_addmap s),
       s_closepend := fmdrop ?i (s_closepend s), s_conn := fmdrop ?i (s_conn s),
       s_sendct := fmdrop ?i (s_sendct s), s_closeack := fmdrop ?i (s_closeack s)\<rparr>"
    have q: "s_quiet cid s s'"
      by (auto simp: s_quiet_def s'_def)
    show ?thesis
    proof (cases "losted u")
      case True
      have "srv_tags s'" using t by (auto simp: srv_tags_def s'_def)
      then show ?thesis using True m Some addr q
        by (simp add: server_handleclosecon_def Let_def q_from_def s'_def)
    next
      case False
      define hold where "hold = \<lparr>f_databuf = fmadd (databuf u) (writebuf u), f_lastEpo = 0,
         f_rece = 0, f_addr = Some a, f_params = params u\<rparr>"
      have ne: "?i \<noteq> cid" using False v [OF Some] by blast
      have hold: "ConnID x = ?i \<and> SeqNum x = n \<and> Type x = MsgData" if "fmlookup (f_databuf hold) n = Some x" for n x
        using that tag by (auto simp: hold_def conn_tags_def split: if_splits)
      define t where "t = s\<lparr>s_banclose := fmupd ?i hold (s_banclose s),
         s_readct := fmdrop ?i (s_readct s), s_addmap := fmdrop a (s_addmap s),
         s_closepend := fmdrop ?i (s_closepend s), s_conn := fmdrop ?i (s_conn s),
         s_sendct := fmdrop ?i (s_sendct s), s_closeack := fmdrop ?i (s_closeack s)\<rparr>"
      have "srv_tags t"
        using t hold by (auto simp: srv_tags_def t_def)
      moreover have "s_quiet cid s t" "mhas (s_banclose t) cid \<longrightarrow> mhas (s_banclose s) cid"
        using ne by (auto simp: s_quiet_def t_def)
      ultimately have "q_from cid s t" by (simp add: q_from_def)
      moreover have "server_handleclosecon rg pak s =
          Some (t, ssend_all (range_vals (o_writebuf rg ?i) (writebuf u)) (Some a))"
        using False m Some addr by (simp add: server_handleclosecon_def Let_def t_def hold_def)
      ultimately show ?thesis using eff [OF ne] by simp
    qed
  qed
qed

lemma epoch_ban_quiet:
  assumes t: "srv_tags s"
  shows "whenever (q_from cid s) (quiet_effect cid s) (epoch_ban rg k s)"
proof (cases "fmlookup (s_banclose s) k")
  case None
  then show ?thesis using t by (simp add: epoch_ban_def q_from_refl)
next
  case (Some f)
  have eff: "quiet_effect cid s e" if "e \<in> set (ssend_all (range_vals ks (f_databuf f)) pa)" for e ks pa
    using that t Some
    by (auto simp: set_ssend_all set_range_vals srv_tags_def mhas_def intro!: quiet_effect_Ssend)
  have ban: "srv_tags (s\<lparr>s_banclose := fmdrop k (s_banclose s)\<rparr>)"
    "srv_tags (s\<lparr>s_banclose := fmupd k (f\<lparr>f_rece := r\<rparr>) (s_banclose s)\<rparr>)" for r
    using t Some by (auto simp: srv_tags_def)
  have q: "s_quiet cid s (s\<lparr>s_banclose := b\<rparr>)" for b
    by (rule s_quiet_frame) simp_all
  show ?thesis using Some ban q eff
    by (auto simp: epoch_ban_def Let_def q_from_def mhas_def)
qed

text \<open>Replacing a connection by one with the same window is quiet.\<close>

lemma set_conn_quiet:
  assumes t: "srv_tags s" and v: "fmlookup (s_conn s) i = Some v" and w: "same_window v v'"
  shows "q_from cid s (set_conn i v' s)"
proof -
  have "srv_tags (set_conn i v' s)"
    using srv_tags_set_conn t conn_tags_frame [OF w srv_tags_conn [OF t v]] by simp
  then show ?thesis using v w by (auto simp: q_from_def s_quiet_def)
qed

lemma drop_conn_quiet:
  assumes "srv_tags s" and "s_conn s' = fmdrop i (s_conn s)" and "s_banclose s' = s_banclose s"
    and "s_connCt s' = s_connCt s" and "\<And>j. j \<noteq> i \<Longrightarrow> fmlookup (s_readct s') j = fmlookup (s_readct s) j"
    and "\<And>j. j \<noteq> i \<Longrightarrow> fmlookup (s_sendct s') j = fmlookup (s_sendct s) j"
    and "\<And>j. mhas (s_pendconn s') j \<Longrightarrow> mhas (s_pendconn s) j"
  shows "q_from cid s s'"
  using assms by (auto simp: q_from_def s_quiet_def srv_tags_def)

lemma frame_quiet:
  assumes "srv_tags s" and "s_conn s' = s_conn s" and "s_banclose s' = s_banclose s"
    and "s_connCt s' = s_connCt s" and "s_readct s' = s_readct s" and "s_sendct s' = s_sendct s"
    and "mhas (s_pendconn s') cid \<Longrightarrow> mhas (s_pendconn s) cid"
  shows "q_from cid s s'"
  using assms by (auto simp: q_from_def s_quiet_def srv_tags_def)

lemma ssend_conn_quiet:
  assumes t: "srv_tags s" and v: "fmlookup (s_conn s) i = Some v"
  shows "e \<in> set (ssend_all (range_vals ks (ackbuf v)) pa) \<Longrightarrow> quiet_effect cid s e"
    and "e \<in> set (ssend_all (range_vals ks (databuf v)) pa) \<Longrightarrow> quiet_effect cid s e"
    and "e \<in> set (ssend (NewAck j 0) pa) \<Longrightarrow> quiet_effect cid s e"
proof -
  have tag: "fmlookup (ackbuf v) k = Some m \<Longrightarrow> m = NewAck i k"
    "fmlookup (databuf v) k = Some m \<Longrightarrow> ConnID m = i \<and> Type m = MsgData" for k m
    using srv_tags_conn [OF t v] by (simp_all add: conn_tags_def)
  have ack: "quiet_effect cid s (Ssend m a)" if "fmlookup (ackbuf v) k = Some m" for k m a
    using that tag(1) [OF that] v by (auto simp: mhas_def intro!: quiet_effect_Ssend)
  have dat: "quiet_effect cid s (Ssend m a)" if "fmlookup (databuf v) k = Some m" for k m a
    using that tag(2) [OF that] v by (auto intro!: quiet_effect_Ssend)
  show "e \<in> set (ssend_all (range_vals ks (ackbuf v)) pa) \<Longrightarrow> quiet_effect cid s e"
    using ack by (auto simp: set_ssend_all set_range_vals)
  show "e \<in> set (ssend_all (range_vals ks (databuf v)) pa) \<Longrightarrow> quiet_effect cid s e"
    using dat by (auto simp: set_ssend_all set_range_vals)
  show "e \<in> set (ssend (NewAck j 0) pa) \<Longrightarrow> quiet_effect cid s e"
    by (auto simp: set_ssend intro!: quiet_effect_Ssend)
qed

lemma epoch_alive_quiet:
  assumes t: "srv_tags s" and v: "fmlookup (s_conn s) i = Some v"
  shows "whenever (q_from cid s) (quiet_effect cid s) (epoch_alive rg i v s)"
  using ssend_conn_quiet [OF assms] t
  by (auto simp: epoch_alive_def q_from_refl split: option.split)

lemma epoch_lost_pending_quiet:
  assumes t: "srv_tags s"
  shows "whenever (q_from cid s) (quiet_effect cid s) (epoch_lost_pending i v s)"
proof (cases "s_readclose s")
  case True
  then show ?thesis using t by (auto simp: epoch_lost_pending_def intro: frame_quiet)
next
  case False
  then show ?thesis using t
    by (auto simp: epoch_lost_pending_def split: option.split intro!: drop_conn_quiet [where i = i])
qed

lemma epoch_lost_quiet:
  assumes t: "srv_tags s" and v: "fmlookup (s_conn s) i = Some v"
  shows "whenever (q_from cid s) (quiet_effect cid s) (epoch_lost rg i v s)"
proof -
  let ?s1 = "set_conn i (v\<lparr>losted := True\<rparr>) s" and ?m = "zero_Message\<lparr>ConnID := i\<rparr>"
  have q1: "q_from cid s ?s1"
    by (rule set_conn_quiet [OF t v]) (simp add: same_window_def)
  have rep: "quiet_effect cid s (Reply (Pkt (Some ?m) None (- 1)))"
    by (rule quiet_effect_Reply) simp
  show ?thesis
  proof (cases "mget False (s_closepend s) i")
    case True
    have t1: "srv_tags ?s1" using q1 by (simp add: q_from_def)
    have "q_from cid ?s1 (?s1\<lparr>s_closeack := fmupd i True (s_closeack ?s1)\<rparr>)"
      by (rule frame_quiet [OF t1]) simp_all
    then have "q_from cid s (?s1\<lparr>s_closeack := fmupd i True (s_closeack ?s1)\<rparr>)"
      by (rule q_from_trans [OF q1])
    then show ?thesis using True rep by (simp add: epoch_lost_def Let_def)
  next
    case False
    have "whenever (q_from cid s) (quiet_effect cid s)
        (andthen (Some (?s1, [Reply (Pkt (Some ?m) None (- 1))]))
          (server_handleclosecon rg (Pkt (Some ?m) (caddr v) sclose)))"
    proof (rule whenever_andthen [where P = "\<lambda>t. t = ?s1"])
      show "whenever (\<lambda>t. t = ?s1) (quiet_effect cid s) (Some (?s1, [Reply (Pkt (Some ?m) None (- 1))]))"
        using rep by simp
      show "whenever (q_from cid s) (quiet_effect cid s)
          (server_handleclosecon rg (Pkt (Some ?m) (caddr v) sclose) t)" if "t = ?s1" for t
        unfolding that
        by (rule whenever_q_step [OF handleclosecon_quiet [where m = ?m] q1])
           (use q1 in \<open>auto simp: q_from_def\<close>)
    qed
    then show ?thesis using False by (simp add: epoch_lost_def Let_def)
  qed
qed

lemma epoch_conn_quiet:
  assumes t: "srv_tags s"
  shows "whenever (q_from cid s) (quiet_effect cid s) (epoch_conn rg i s)"
proof (cases "fmlookup (s_conn s) i")
  case None
  then show ?thesis using t by (simp add: epoch_conn_def q_from_refl)
next
  case (Some v0)
  let ?v = "v0\<lparr>receive := receive v0 + 1\<rparr>"
  have q1: "q_from cid s (set_conn i ?v s)"
    by (rule set_conn_quiet [OF t Some]) (simp add: same_window_def)
  then have t1: "srv_tags (set_conn i ?v s)" by (simp add: q_from_def)
  have v1: "fmlookup (s_conn (set_conn i ?v s)) i = Some ?v" by simp
  note parts = epoch_alive_quiet [OF t1 v1, of cid rg] epoch_lost_quiet [OF t1 v1, of cid rg]
    epoch_lost_pending_quiet [OF t1, of cid i ?v]
  show ?thesis
    using whenever_q_step [OF _ q1] parts Some by (simp add: epoch_conn_def Let_def)
qed

lemma server_handleEpoch_quiet:
  assumes "srv_tags s"
  shows "whenever (q_from cid s) (quiet_effect cid s) (server_handleEpoch rg s)"
  unfolding server_handleEpoch_def
  using q_andthen [OF q_loop [OF epoch_ban_quiet assms] q_loop [OF epoch_conn_quiet]] .

section \<open>Closing is quiet\<close>

lemma close_drop_quiet:
  assumes "srv_tags s" and "close_drop i k s = Some s'"
  shows "q_from cid s s'"
  using assms by (auto simp: close_drop_def split: option.splits intro!: drop_conn_quiet [where i = i])

lemma close_mark_quiet:
  assumes t: "srv_tags s"
  shows "whenever (q_from cid s) (quiet_effect cid s) (close_mark i s)"
proof (cases "fmlookup (s_conn s) i")
  case None
  then show ?thesis using t by (simp add: close_mark_def q_from_refl)
next
  case (Some k)
  have "q_from cid s (s\<lparr>s_closepend := fmupd i True (s_closepend s)\<rparr>)"
    using t by (intro frame_quiet) simp_all
  then show ?thesis
    using Some t close_drop_quiet [OF t, of i k] 
    by (cases "close_drop i k s") (auto simp: close_mark_def q_from_refl)
qed

lemma close_check_quiet:
  assumes "srv_tags s" and "close_check is s = Some (s', flag)"
  shows "q_from cid s s'"
  using assms
proof (induction "is" s arbitrary: s' flag rule: close_check.induct)
  case (1 s)
  then show ?case by (simp add: q_from_refl)
next
  case (2 i "is" s)
  show ?case
  proof (cases "fmlookup (s_conn s) i")
    case None
    then show ?thesis using "2.IH"(1) "2.prems" by simp
  next
    case (Some k)
    note conn = this
    consider "\<not> mget False (s_closepend s) i"
      | "mget False (s_closepend s) i" "mget False (s_closeack s) i"
      | "mget False (s_closepend s) i" "\<not> mget False (s_closeack s) i" by blast
    then show ?thesis
    proof cases
      case 1
      then show ?thesis using "2.IH"(3) [OF Some] "2.prems" Some by simp
    next
      case 2
      with "2.prems" Some obtain t where d: "close_drop i k s = Some t"
        and c: "close_check is t = Some (s', flag)"
        by (auto split: option.splits)
      have q: "q_from cid s t" using "2.prems"(1) d by (rule close_drop_quiet)
      moreover have "q_from cid t s'"
        using "2.IH"(2) [OF Some 2 d _ c] q by (simp add: q_from_def)
      ultimately show ?thesis by (rule q_from_trans)
    next
      case 3
      then show ?thesis using "2.prems" Some by (auto intro: q_from_refl)
    qed
  qed
qed

lemma handle_sclose_quiet:
  assumes t: "srv_tags s"
  shows "whenever (q_from cid s) (quiet_effect cid s) (handle_sclose rg s)"
proof -
  let ?s0 = "s\<lparr>s_banclose := fmempty\<rparr>"
  have t0: "srv_tags ?s0" using t by (simp add: srv_tags_def)
  have q0: "q_from cid s ?s0" using t0 by (simp add: q_from_def s_quiet_def)
  have "whenever (q_from cid ?s0) (quiet_effect cid ?s0) (handle_sclose rg s)"
    unfolding handle_sclose_def
  proof (rule q_andthen [OF q_loop [OF close_mark_quiet t0]])
    fix t assume "srv_tags t"
    then show "whenever (q_from cid t) (quiet_effect cid t)
       (case close_check (o_conn2 rg) t of None \<Rightarrow> None
        | Some (s2, flag) \<Rightarrow> Some (s2, if flag then [Over (Pkt None None 5)] else []))"
      by (auto split: option.split prod.split dest: close_check_quiet)
  qed
  then show ?thesis using whenever_q_step q0 by blast
qed

section \<open>Packets of other connections\<close>

lemma new_conn_quiet:
  assumes t: "srv_tags s" and c: "cid < s_connCt s" and i: "i = s_connCt s"
    and v: "readbuf v = fmempty" "databuf v = fmempty" "writebuf v = fmempty" "ackbuf v = fmempty"
    and s': "s_conn s' = fmupd i v (s_conn s)" "s_banclose s' = s_banclose s" "s_connCt s' = i + 1"
      "s_readct s' = fmupd i 1 (s_readct s)" "s_sendct s' = fmupd i 1 (s_sendct s)"
      "s_pendconn s' = fmupd i 1 (s_pendconn s)"
  shows "q_from cid s s'"
  using t c s' conn_tags_new [OF v] by (auto simp: q_from_def s_quiet_def srv_tags_def i)

lemma recv_connect_quiet:
  assumes t: "srv_tags s" and c: "cid < s_connCt s"
  shows "whenever (q_from cid s) (quiet_effect cid s) (recv_connect pa s)"
proof (cases pa)
  case None
  then show ?thesis by (simp add: recv_connect_def)
next
  case (Some a)
  have eff: "quiet_effect cid s e" if "e \<in> set (ssend (NewAck j 0) pb)" for e j pb
    using that by (auto simp: set_ssend intro!: quiet_effect_Ssend)
  show ?thesis
  proof (cases "fmlookup (s_addmap s) a")
    case None
    then show ?thesis using Some eff
      by (auto simp: recv_connect_def Let_def intro!: new_conn_quiet [OF t c refl])
  next
    case idd: (Some j)
    show ?thesis
    proof (cases "fmlookup (s_conn s) j")
      case None
      then show ?thesis using Some idd t by (simp add: recv_connect_def Let_def q_from_refl)
    next
      case v: (Some v)
      have "q_from cid s (set_conn j (v\<lparr>lastrece := receive v\<rparr>) s)"
        by (rule set_conn_quiet [OF t v]) (simp add: same_window_def)
      then show ?thesis using Some idd v t eff by (simp add: recv_connect_def Let_def q_from_refl)
    qed
  qed
qed

lemma confirm_quiet:
  assumes t: "srv_tags s" and c: "confirm i s = Some s'"
  shows "q_from cid s s'"
    and "\<exists>v. fmlookup (s_conn s) i = Some v \<and> fmlookup (s_conn s') i = Some (v\<lparr>estab := True, losted := False\<rparr>)"
proof -
  let ?s1 = "s\<lparr>s_pendconn := fmdrop i (s_pendconn s)\<rparr>"
  obtain v where v: "fmlookup (s_conn s) i = Some v"
    and s': "s' = set_conn i (v\<lparr>estab := True, losted := False\<rparr>) ?s1"
    using c by (auto simp: confirm_def Let_def split: option.splits)
  have q1: "q_from cid s ?s1" by (rule frame_quiet [OF t]) simp_all
  have "q_from cid ?s1 s'" unfolding s'
    by (rule set_conn_quiet) (use q1 v in \<open>auto simp: q_from_def same_window_def\<close>)
  with q1 show "q_from cid s s'" by (rule q_from_trans)
  show "\<exists>v. fmlookup (s_conn s) i = Some v \<and> fmlookup (s_conn s') i = Some (v\<lparr>estab := True, losted := False\<rparr>)"
    using v s' by simp
qed

text \<open>Any change of one connection is quiet for the others.\<close>

lemma set_other_quiet:
  assumes "srv_tags s" and "conn_tags i v'" and "i \<noteq> cid"
  shows "q_from cid s (set_conn i v' s)"
  using assms srv_tags_set_conn [OF assms(1,2)] by (simp add: q_from_def s_quiet_def)

lemma ssend_other:
  assumes "e \<in> set (ssend_all ms pa)" and "\<And>m. m \<in> set ms \<Longrightarrow> ConnID m \<noteq> cid"
  shows "quiet_effect cid s e"
  using assms by (auto simp: set_ssend_all intro!: quiet_effect_Ssend)

text \<open>
  The window part of \<open>recv_data\<close>, as a step on a state where the connection is confirmed:
  \<open>data_into\<close> names the connection after a message that is accepted.
\<close>

definition data_into :: "Message \<Rightarrow> Connect \<Rightarrow> Connect" where
  "data_into m v = fst (accept_data (ConnID m) m (v\<lparr>lastrece := receive v\<rparr>))"

lemma recv_data_cases:
  assumes t: "srv_tags s" and r: "recv_data m s = Some (s', es)"
  obtains s1 where "q_from cid s s1" and "s' = s1" and "es = []"
  | s1 v where "q_from cid s s1" and "fmlookup (s_conn s1) (ConnID m) = Some v" and "ack v \<le> SeqNum m"
      and "\<not> mhas (s_pendconn s1) (ConnID m)"
      and "s' = set_conn (ConnID m) (data_into m v) s1"
      and "\<And>e. e \<in> set es \<Longrightarrow> e = Req (Pkt None None sread) \<or>
        (\<exists>a. e = Ssend (NewAck (ConnID m) (SeqNum m)) a)"
proof -
  let ?i = "ConnID m" and ?pend = "mhas (s_pendconn s) (ConnID m)"
  obtain s1 ok2 where rr: "(if SeqNum m > 0 \<and> ?pend then map_option (\<lambda>s'. (s', False)) (confirm ?i s)
      else Some (s, ?pend)) = Some (s1, ok2)"
    using r by (auto simp: recv_data_def Let_def split: option.splits)
  have q: "q_from cid s s1"
    using rr t confirm_quiet(1) [OF t] by (auto simp: q_from_refl split: if_splits)
  show thesis
  proof (cases "\<exists>v. fmlookup (s_conn s1) ?i = Some v \<and> \<not> ok2 \<and> ack v \<le> SeqNum m")
    case True
    then obtain v where v: "fmlookup (s_conn s1) ?i = Some v" "\<not> ok2" "ack v \<le> SeqNum m" by blast
    have "\<not> mhas (s_pendconn s1) ?i"
      using rr v(2) by (auto simp: confirm_def Let_def split: if_splits option.splits)
    then show thesis
    proof (rule that(2) [OF q v(1) v(3)])
      show "s' = set_conn ?i (data_into m v) s1"
        using r rr v by (simp add: recv_data_def Let_def split_beta data_into_def)
      show "e = Req (Pkt None None sread) \<or> (\<exists>a. e = Ssend (NewAck ?i (SeqNum m)) a)" if "e \<in> set es" for e
        using that r rr v
        by (auto simp: recv_data_def Let_def split_beta set_ssend split: if_splits)
    qed
  next
    case False
    then have "s' = s1 \<and> es = []"
      using r rr by (auto simp: recv_data_def Let_def split: option.splits if_splits)
    then show thesis using that(1) q by blast
  qed
qed

lemma recv_data_quiet:
  assumes t: "srv_tags s" and m: "ConnID m \<noteq> cid" and d: "Type m = MsgData"
  shows "whenever (q_from cid s) (quiet_effect cid s) (recv_data m s)"
proof (cases "recv_data m s")
  case (Some p)
  obtain s' es where p: "p = (s', es)" by (cases p)
  have r: "recv_data m s = Some (s', es)" using Some p by simp
  have "q_from cid s s' \<and> (\<forall>e \<in> set es. quiet_effect cid s e)"
    using t r
  proof (cases rule: recv_data_cases [where cid = cid])
    case 1
    then show ?thesis by simp
  next
    case (2 s1 v)
    have t1: "srv_tags s1" using 2(1) by (simp add: q_from_def)
    have "conn_tags (ConnID m) (data_into m v)"
      unfolding data_into_def
      by (rule conn_tags_accept [OF conn_tags_frame [OF _ srv_tags_conn [OF t1 2(2)]] refl d])
         (simp add: same_window_def)
    then have "q_from cid s s'"
      using 2(5) q_from_trans [OF 2(1)] set_other_quiet [OF t1 _ m] by simp
    moreover have "quiet_effect cid s e" if "e \<in> set es" for e
      using 2(6) [OF that] m by (auto intro!: quiet_effect_Ssend)
    ultimately show ?thesis by blast
  qed
  then show ?thesis using r by simp
qed simp

text \<open>
  An acknowledgement either is quiet for every connection, or slides the window of its own one:
  \<open>ack_into\<close> names the connection afterwards, \<open>ack_out\<close> the messages sent.
\<close>

definition ack_into :: "Message \<Rightarrow> Connect \<Rightarrow> Connect" where
  "ack_into m v = fst (ack_slide (SeqNum m) (v\<lparr>lastrece := receive v\<rparr>))"

definition ack_out :: "Message \<Rightarrow> Connect \<Rightarrow> Message list" where
  "ack_out m v = snd (ack_slide (SeqNum m) (v\<lparr>lastrece := receive v\<rparr>))"

lemma recv_ack_window_cases:
  assumes t: "srv_tags s" and r: "recv_ack_window m ok2 s = Some (s', es)"
  obtains "q_from cid s s'" and "es = []"
  | v where "fmlookup (s_conn s) (ConnID m) = Some v" and "ack_in_window (SeqNum m) v"
      and "s' = set_conn (ConnID m) (ack_into m v) s" and "es = ssend_all (ack_out m v) (caddr v)"
proof (cases "fmlookup (s_conn s) (ConnID m)")
  case None
  then show thesis using that(1) r t by (auto simp: recv_ack_window_def intro: q_from_refl)
next
  case (Some v)
  have "q_from cid s (set_conn (ConnID m) (v\<lparr>lastrece := receive v\<rparr>) s)"
    by (rule set_conn_quiet [OF t Some]) (simp add: same_window_def)
  then show thesis
    using that r t Some
    by (auto simp: recv_ack_window_def Let_def split_beta ack_into_def ack_out_def q_from_refl split: if_splits)
qed

lemma recv_ack_ban_quiet:
  assumes t: "srv_tags s" and f: "fmlookup (s_banclose s) (ConnID m) = Some f"
  shows "whenever (q_from cid s) (quiet_effect cid s) (recv_ack_ban m f s)"
proof -
  have q: "s_quiet cid s (s\<lparr>s_banclose := b\<rparr>)" for b
    by (rule s_quiet_frame) simp_all
  have "srv_tags (s\<lparr>s_banclose := fmdrop (ConnID m) (s_banclose s)\<rparr>)"
    "srv_tags (s\<lparr>s_banclose := fmupd (ConnID m)
      (f\<lparr>f_lastEpo := r, f_databuf := fmdrop n (f_databuf f)\<rparr>) (s_banclose s)\<rparr>)" for r n
    using t f by (auto simp: srv_tags_def split: if_splits)
  then show ?thesis using q f by (auto simp: recv_ack_ban_def Let_def q_from_def mhas_def)
qed

lemma recv_ack_cases:
  assumes t: "srv_tags s" and r: "recv_ack m s = Some (s', es)"
  obtains "q_from cid s s'" and "\<And>e. e \<in> set es \<Longrightarrow> quiet_effect cid s e"
  | s1 v where "q_from cid s s1" and "fmlookup (s_conn s1) (ConnID m) = Some v"
      and "ack_in_window (SeqNum m) v" and "s' = set_conn (ConnID m) (ack_into m v) s1"
      and "es = ssend_all (ack_out m v) (caddr v)"
proof -
  let ?i = "ConnID m" and ?pend = "mhas (s_pendconn s) (ConnID m)"
  show thesis
  proof (cases "if \<not> ?pend \<and> SeqNum m = 0 then fmlookup (s_conn s) ?i else None")
    case (Some v)
    then have v: "fmlookup (s_conn s) ?i = Some v" by (simp split: if_splits)
    have "q_from cid s (set_conn ?i (v\<lparr>lastrece := receive v\<rparr>) s)"
      by (rule set_conn_quiet [OF t v]) (simp add: same_window_def)
    moreover have "quiet_effect cid s e" if "e \<in> set (ssend (NewAck ?i 0) pa)" for e pa
      using that by (auto simp: set_ssend intro!: quiet_effect_Ssend)
    ultimately show thesis using that(1) r Some by (auto simp: recv_ack_def Let_def)
  next
    case None
    note first = this
    show thesis
    proof (cases "fmlookup (s_banclose s) ?i")
      case (Some f)
      then have "recv_ack_ban m f s = Some (s', es)" using r first by (simp add: recv_ack_def Let_def)
      then show thesis using that(1) recv_ack_ban_quiet [OF t Some, of cid] by auto
    next
      case None
      obtain s1 ok2 where q1: "q_from cid s s1" and w: "recv_ack_window m ok2 s1 = Some (s', es)"
      proof (cases "SeqNum m > 0 \<and> ?pend")
        case True
        then obtain s1 where "confirm ?i s = Some s1" "recv_ack_window m False s1 = Some (s', es)"
          using r first None by (auto simp: recv_ack_def Let_def split: option.splits)
        then show thesis using that confirm_quiet(1) [OF t] by blast
      next
        case False
        then have "recv_ack_window m ?pend s = Some (s', es)"
          using r first None by (auto simp: recv_ack_def Let_def)
        then show thesis using that q_from_refl [OF t] by blast
      qed
      have t1: "srv_tags s1" using q1 by (simp add: q_from_def)
      show thesis
        using t1 w
      proof (cases rule: recv_ack_window_cases [where cid = cid])
        case 1
        then show thesis using that(1) q_from_trans [OF q1] by simp
      next
        case (2 v)
        then show thesis using that(2) [OF q1] by blast
      qed
    qed
  qed
qed

lemma ack_into_tags: "srv_tags s \<Longrightarrow> fmlookup (s_conn s) i = Some v \<Longrightarrow> conn_tags i (ack_into m v)"
  unfolding ack_into_def
  by (rule conn_tags_ack, rule conn_tags_frame [OF _ srv_tags_conn]) (auto simp: same_window_def)

lemma ack_out_databuf:
  "x \<in> set (ack_out m v) \<Longrightarrow> \<exists>n. fmlookup (databuf (ack_into m v)) n = Some x"
  unfolding ack_out_def ack_into_def by (rule ack_slide_subset(3))

lemma recv_ack_quiet:
  assumes t: "srv_tags s" and m: "ConnID m \<noteq> cid \<or>
    (\<forall>v. fmlookup (s_conn s) cid = Some v \<longrightarrow> \<not> ack_in_window (SeqNum m) v)"
  shows "whenever (q_from cid s) (quiet_effect cid s) (recv_ack m s)"
proof (cases "recv_ack m s")
  case (Some p)
  obtain s' es where p: "p = (s', es)" by (cases p)
  have r: "recv_ack m s = Some (s', es)" using Some p by simp
  have "q_from cid s s' \<and> (\<forall>e \<in> set es. quiet_effect cid s e)"
    using t r
  proof (cases rule: recv_ack_cases [where cid = cid])
    case 1
    then show ?thesis by blast
  next
    case (2 s1 v)
    have t1: "srv_tags s1" using 2(1) by (simp add: q_from_def)
    have ne: "ConnID m \<noteq> cid"
    proof
      assume i: "ConnID m = cid"
      obtain u where "fmlookup (s_conn s) cid = Some u" "same_window u v"
        using 2(1,2) i by (auto simp: q_from_def s_quiet_def)
      then show False using m 2(3) i by (simp add: ack_in_window_def same_window_def)
    qed
    have "x \<in> set (ack_out m v) \<Longrightarrow> ConnID x = ConnID m" for x
      using ack_out_databuf [of x m v] ack_into_tags [OF t1 2(2), of m] by (auto simp: conn_tags_def)
    then have "quiet_effect cid s e" if "e \<in> set es" for e
      using that ne unfolding 2(5) by (metis ssend_other)
    moreover have "q_from cid s s'"
      unfolding 2(4) using q_from_trans [OF 2(1)] set_other_quiet [OF t1 ack_into_tags [OF t1 2(2)] ne]
      by blast
    ultimately show ?thesis by blast
  qed
  then show ?thesis using r by simp
qed simp

text \<open>A write to another connection, or one that is refused.\<close>

lemma handle_swrite_other_quiet:
  assumes t: "srv_tags s" and m: "ConnID m \<noteq> cid"
  shows "whenever (q_from cid s) (quiet_effect cid s) (handle_swrite m s)"
proof (cases "fmlookup (s_conn s) (ConnID m)")
  case None
  then show ?thesis using t by (simp add: handle_swrite_def q_from_refl)
next
  case (Some v)
  let ?n = "mget 0 (s_sendct s) (ConnID m)"
  let ?x = "NewData (ConnID m) ?n (Payload m)"
  have tag: "conn_tags (ConnID m) (fst (enqueue ?n ?x v))"
    using conn_tags_enqueue srv_tags_conn [OF t Some] by blast
  have q: "q_from cid s ((set_conn (ConnID m) (fst (enqueue ?n ?x v)) s)
      \<lparr>s_sendct := fmupd (ConnID m) (?n + 1) (s_sendct s)\<rparr>)"
    using set_other_quiet [OF t tag m] m
    by (auto simp: q_from_def s_quiet_def srv_tags_def)
  have "quiet_effect cid s e" if "e \<in> set (ssend_all (snd (enqueue ?n ?x v)) pa)" for e pa
    using that m by (intro ssend_other [where ms = "snd (enqueue ?n ?x v)"])
      (auto simp: enqueue_def split: if_splits)
  then show ?thesis using Some q t
    by (auto simp: handle_swrite_def server_handleWrite_def Let_def split_beta q_from_refl)
qed

lemma handle_closeconn_quiet:
  assumes t: "srv_tags s" and m: "ConnID m \<noteq> cid"
  shows "whenever (q_from cid s) (quiet_effect cid s) (handle_closeconn rg m s)"
proof (cases "fmlookup (s_conn s) (ConnID m)")
  case None
  then show ?thesis using t by (simp add: handle_closeconn_def q_from_refl)
next
  case (Some v)
  have "whenever (q_from cid s) (quiet_effect cid s)
      (andthen (Some (s, [Closeans (Pkt (Some m) (caddr v) 2)]))
         (server_handleclosecon rg (Pkt (Some m) (caddr v) 2)))"
  proof (rule q_andthen)
    show "whenever (q_from cid s) (quiet_effect cid s) (Some (s, [Closeans (Pkt (Some m) (caddr v) 2)]))"
      using t by (simp add: q_from_refl)
    show "whenever (q_from cid u) (quiet_effect cid u)
        (server_handleclosecon rg (Pkt (Some m) (caddr v) 2) u)" if "srv_tags u" for u
      using m by (intro handleclosecon_quiet [OF that, where m = m]) simp_all
  qed
  then show ?thesis using Some t
    by (auto simp: handle_closeconn_def Let_def split: option.split intro!: drop_conn_quiet [where i = "ConnID m"])
qed

end
