(* ===== verification/LspServerLink.thy ===== *)
theory LspServerLink
  imports LspServerProps LspLink
begin

text \<open>
  The server as one end of a link, for one of its connections \<open>cid\<close>: every change of its state is
  a \<open>server_step\<close>, and with the events and datagrams of connection \<open>cid\<close> singled out the server is
  a \<open>window_sender\<close> and a \<open>window_receiver\<close>, whatever happens on the other connections. A call of
  \<open>CloseConn\<close> for \<open>cid\<close> itself is left out: it sends the whole queue without regard to the window.
\<close>

section \<open>Steps\<close>

datatype server_move = SPacket orders Packet | SCloseStart | SCloseFinish Packet

fun server_step :: "server_move \<Rightarrow> server \<Rightarrow> (server, effect) outcome" where
  "server_step (SPacket rg p) s = server_handle rg p s"
| "server_step SCloseStart s = Some (server_Close_start s)"
| "server_step (SCloseFinish x) s = Some (server_Close_finish x s)"

fun server_sev :: "int \<Rightarrow> server_move \<Rightarrow> effect list \<Rightarrow> sev" where
  "server_sev cid (SPacket rg p) es =
     (case msg p of
        None \<Rightarrow> SOther
      | Some m \<Rightarrow>
          if ConnID m \<noteq> cid then SOther
          else if contype p = swrite \<and> Writeans (Pkt None None 1) \<in> set es then SWrite (Payload m)
          else if contype p = receive_kind \<and> Type m = MsgAck \<and> SeqNum m > 0 then SAck (SeqNum m)
          else SOther)"
| "server_sev cid _ es = SOther"

fun server_rev :: "int \<Rightarrow> server_move \<Rightarrow> rev" where
  "server_rev cid (SPacket rg p) =
     (case msg p of
        None \<Rightarrow> ROther
      | Some m \<Rightarrow>
          if contype p = receive_kind \<and> Type m = MsgData \<and> ConnID m = cid then RData m else ROther)"
| "server_rev cid _ = ROther"

lemma server_rev_data: "server_rev cid i = RData m \<Longrightarrow> Type m = MsgData \<and> ConnID m = cid"
  by (cases i) (auto split: option.splits if_splits)

fun closes_conn :: "int \<Rightarrow> server_move \<Rightarrow> bool" where
  "closes_conn cid (SPacket rg p) \<longleftrightarrow>
     contype p = closeconn \<and> (case msg p of None \<Rightarrow> False | Some m \<Rightarrow> ConnID m = cid)"
| "closes_conn cid _ \<longleftrightarrow> False"

definition data_sent_to :: "int \<Rightarrow> effect list \<Rightarrow> Message set" where
  "data_sent_to cid es = {m \<in> set (sent es). Type m = MsgData \<and> ConnID m = cid}"

definition acks_sent_to :: "int \<Rightarrow> effect list \<Rightarrow> int set" where
  "acks_sent_to cid es = SeqNum ` {m \<in> set (sent es). Type m = MsgAck \<and> ConnID m = cid \<and> SeqNum m > 0}"

fun reply_payload :: "int \<Rightarrow> effect \<Rightarrow> bytes option" where
  "reply_payload cid (Reply p) =
     (case msg p of
        None \<Rightarrow> None
      | Some m \<Rightarrow> if contype p = 1 \<and> ConnID m = cid then Some (Payload m) else None)"
| "reply_payload cid _ = None"

definition server_reads :: "int \<Rightarrow> effect list \<Rightarrow> bytes list" where
  "server_reads cid es = List.map_filter (reply_payload cid) es"

lemma server_reads_simps [simp]:
  "server_reads cid [] = []"
  "server_reads cid (e # es) =
     (case reply_payload cid e of None \<Rightarrow> server_reads cid es | Some p \<Rightarrow> p # server_reads cid es)"
  by (simp_all add: server_reads_def List.map_filter_def split: option.splits)

lemma server_reads_Nil:
  assumes "\<And>e. e \<in> set es \<Longrightarrow> reply_payload cid e = None"
  shows "server_reads cid es = []"
  using assms by (induction es) auto

definition server_sstep :: "int \<Rightarrow> server sender_step" where
  "server_sstep cid s ev s' D \<longleftrightarrow>
     (\<exists>i es. server_step i s = Some (s', es) \<and> \<not> closes_conn cid i \<and> server_sev cid i es = ev \<and>
        D = data_sent_to cid es)"

definition server_rstep :: "int \<Rightarrow> server receiver_step" where
  "server_rstep cid s ev s' As out \<longleftrightarrow>
     (\<exists>i es. server_step i s = Some (s', es) \<and> \<not> closes_conn cid i \<and> server_rev cid i = ev \<and>
        As = acks_sent_to cid es \<and> out = server_reads cid es)"

section \<open>One step\<close>

lemma read_ready_find:
  assumes "find (read_ready s) ks = Some i"
  obtains v m where "fmlookup (s_conn s) i = Some v" and "fmlookup (readbuf v) (mget 0 (s_readct s) i) = Some m"
proof -
  have "read_ready s i" using assms by (auto simp: find_Some_iff)
  then show thesis using that by (auto simp: read_ready_def mhas_def split: option.splits)
qed

lemma handle_sread_cases:
  assumes t: "srv_tags s" and r: "handle_sread rg s = Some (s', es)"
  obtains "q_from cid s s'" and "\<And>e. e \<in> set es \<Longrightarrow> quiet_effect cid s e"
  | v m where "fmlookup (s_conn s) cid = Some v"
      and "fmlookup (readbuf v) (mget 0 (s_readct s) cid) = Some m" and "ConnID m = cid"
      and "s' = (set_conn cid (take_read (mget 0 (s_readct s) cid) v) s)
        \<lparr>s_readct := fmupd cid (mget 0 (s_readct s) cid + 1) (s_readct s)\<rparr>"
      and "es = [Reply (Pkt (Some m) None 1)]"
proof (cases "find (read_ready s) (o_conn rg)")
  case None
  then show thesis using that(1) r q_from_refl [OF t] by (simp add: handle_sread_def)
next
  case (Some i)
  obtain v m where v: "fmlookup (s_conn s) i = Some v" "fmlookup (readbuf v) (mget 0 (s_readct s) i) = Some m"
    using read_ready_find [OF Some] .
  let ?n = "mget 0 (s_readct s) i"
  have s': "s' = (set_conn i (take_read ?n v) s)\<lparr>s_readct := fmupd i (?n + 1) (s_readct s)\<rparr>"
    "es = [Reply (Pkt (Some m) None 1)]"
    using r Some v by (simp_all add: handle_sread_def Let_def)
  have tag: "conn_tags i v" using srv_tags_conn [OF t v(1)] .
  then have id: "ConnID m = i" using v(2) by (auto simp: conn_tags_def)
  show thesis
  proof (cases "i = cid")
    case True
    then show thesis using that(2) v s' id by blast
  next
    case False
    have "q_from cid s (set_conn i (take_read ?n v) s)"
      by (rule set_other_quiet [OF t conn_tags_read [OF tag] False])
    then have "q_from cid s s'" using False
      by (simp add: s'(1) q_from_def s_quiet_def srv_tags_def)
    moreover have "quiet_effect cid s e" if "e \<in> set es" for e
      using that False id by (simp add: s'(2) quiet_effect_def ack_effect_def data_effect_def read_effect_def)
    ultimately show thesis using that(1) by blast
  qed
qed

lemma handle_swrite_cases:
  assumes t: "srv_tags s" and r: "handle_swrite m s = Some (s', es)"
  obtains "q_from cid s s'" and "\<And>e. e \<in> set es \<Longrightarrow> quiet_effect cid s e"
      and "ConnID m = cid \<Longrightarrow> Writeans (Pkt None None 1) \<notin> set es"
  | v n where "ConnID m = cid" and "fmlookup (s_conn s) cid = Some v" and "n = mget 0 (s_sendct s) cid"
      and "s' = (set_conn cid (fst (enqueue n (NewData cid n (Payload m)) v)) s)
        \<lparr>s_sendct := fmupd cid (n + 1) (s_sendct s)\<rparr>"
      and "es = Writeans (Pkt None None 1) # ssend_all (snd (enqueue n (NewData cid n (Payload m)) v)) (caddr v)"
proof (cases "ConnID m = cid")
  case False
  then show thesis
    using that(1) handle_swrite_other_quiet [OF t False] r by simp
next
  case True
  show thesis
  proof (cases "fmlookup (s_conn s) cid")
    case None
    then have "s' = s" "es = [Writeans (Pkt None None 0)]" using r True by (auto simp: handle_swrite_def)
    then show thesis using that(1) q_from_refl [OF t] by simp
  next
    case (Some v)
    show thesis
    proof (cases "losted v")
      case True
      then have "s' = s" "es = [Writeans (Pkt None None (- 1))]"
        using r Some \<open>ConnID m = cid\<close> by (auto simp: handle_swrite_def)
      then show thesis using that(1) q_from_refl [OF t] by simp
    next
      case False
      then show thesis using that(2) [OF True Some refl] r Some True
        by (simp add: handle_swrite_def server_handleWrite_def Let_def split_beta)
    qed
  qed
qed

lemma receive_guards:
  assumes m: "msg pak = Some m" and r: "server_handleReceive pak s = Some (s', es)"
  obtains (same) "s' = s" "es = []"
    | (closing) x where "s' = s\<lparr>s_closeack := x\<rparr>" "es = [Req (Pkt None None sclose)]"
    | (connect) "recv_connect (paddr pak) s = Some (s', es)"
    | (data) "Type m = MsgData" "recv_data m s = Some (s', es)"
    | (ack) "Type m = MsgAck" "recv_ack m s = Some (s', es)"
proof (cases "mget False (s_closepend s) (ConnID m)")
  case False
  then show thesis
    using r m same connect data ack by (cases "Type m") (simp_all add: server_handleReceive_def Let_def)
next
  case True
  note closing_set = this
  show thesis
  proof (cases "Type m = MsgAck")
    case False
    then have "s' = s" "es = []" using r m closing_set by (simp_all add: server_handleReceive_def Let_def)
    then show thesis by (rule same)
  next
    case True
    obtain v where v: "fmlookup (s_conn s) (ConnID m) = Some v"
      using r m closing_set True
      by (cases "fmlookup (s_conn s) (ConnID m)") (simp_all add: server_handleReceive_def Let_def)
    show thesis
    proof (cases "mlen (writebuf v) = 0 \<and> mlen (databuf v) = 0")
      case empty: True
      then have "s' = s\<lparr>s_closeack := fmupd (ConnID m) True (s_closeack s)\<rparr>" "es = [Req (Pkt None None sclose)]"
        using r m closing_set True v by (simp_all add: server_handleReceive_def Let_def)
      then show thesis by (rule closing)
    next
      case False
      then have "recv_ack m s = Some (s', es)"
        using r m closing_set True v by (simp add: server_handleReceive_def Let_def split: bool.splits)
      then show thesis using ack True by blast
    qed
  qed
qed

text \<open>A packet from the network.\<close>

lemma receive_cases:
  assumes t: "srv_tags s" and c: "cid < s_connCt s" and m: "msg pak = Some m"
    and r: "server_handleReceive pak s = Some (s', es)"
  obtains (rq) "q_from cid s s'" and "\<And>e. e \<in> set es \<Longrightarrow> quiet_effect cid s e"
  | (rd) s1 v where "q_from cid s s1" and "fmlookup (s_conn s1) cid = Some v" and "ack v \<le> SeqNum m"
      and "\<not> mhas (s_pendconn s1) cid" and "Type m = MsgData" and "ConnID m = cid" and "s' = set_conn cid (data_into m v) s1"
      and "\<And>e. e \<in> set es \<Longrightarrow> e = Req (Pkt None None sread) \<or> (\<exists>a. e = Ssend (NewAck cid (SeqNum m)) a)"
  | (ra) s1 v where "q_from cid s s1" and "fmlookup (s_conn s1) cid = Some v"
      and "ack_in_window (SeqNum m) v" and "Type m = MsgAck" and "ConnID m = cid"
      and "s' = set_conn cid (ack_into m v) s1" and "es = ssend_all (ack_out m v) (caddr v)"
proof -
  consider (same) "s' = s" "es = []"
    | (closing) x where "s' = s\<lparr>s_closeack := x\<rparr>" "es = [Req (Pkt None None sclose)]"
    | (connect) "recv_connect (paddr pak) s = Some (s', es)"
    | (data) "Type m = MsgData" "recv_data m s = Some (s', es)"
    | (ack) "Type m = MsgAck" "recv_ack m s = Some (s', es)"
    using receive_guards [OF m r] .
  then show thesis
  proof cases
    case same
    then show thesis using rq q_from_refl [OF t] by simp
  next
    case closing
    then show thesis using rq frame_quiet [OF t, of s'] by simp
  next
    case connect
    then show thesis using rq recv_connect_quiet [OF t c, of "paddr pak"] by simp
  next
    case data
    show thesis
    proof (cases "ConnID m = cid")
      case False
      then show thesis using rq recv_data_quiet [OF t False data(1)] data(2) by simp
    next
      case True
      show thesis
        using t data(2)
      proof (cases rule: recv_data_cases [where cid = cid])
        case 1
        then show thesis using rq by simp
      next
        case (2 s1 v)
        then show thesis using rd [of s1 v] data(1) True by simp
      qed
    qed
  next
    case ack
    show thesis
    proof (cases "ConnID m = cid")
      case False
      then show thesis using rq recv_ack_quiet [OF t, of m cid] ack(2) by simp
    next
      case True
      show thesis
        using t ack(2)
      proof (cases rule: recv_ack_cases [where cid = cid])
        case 1
        then show thesis using rq by simp
      next
        case (2 s1 v)
        then show thesis using ra [of s1 v] ack(1) True by simp
      qed
    qed
  qed
qed

lemma server_step_cases:
  assumes t: "srv_tags s" and c: "cid < s_connCt s" and st: "server_step i s = Some (s', es)"
    and cl: "\<not> closes_conn cid i"
  obtains (quiet) "q_from cid s s'" and "\<And>e. e \<in> set es \<Longrightarrow> quiet_effect cid s e"
      and "\<And>p. server_sev cid i es \<noteq> SWrite p"
  | (wr) v n p where "server_sev cid i es = SWrite p" and "server_rev cid i = ROther"
      and "fmlookup (s_conn s) cid = Some v" and "n = mget 0 (s_sendct s) cid"
      and "s' = (set_conn cid (fst (enqueue n (NewData cid n p) v)) s)
        \<lparr>s_sendct := fmupd cid (n + 1) (s_sendct s)\<rparr>"
      and "es = Writeans (Pkt None None 1) # ssend_all (snd (enqueue n (NewData cid n p) v)) (caddr v)"
  | (rd) v m where "server_sev cid i es = SOther" and "server_rev cid i = ROther"
      and "fmlookup (s_conn s) cid = Some v"
      and "fmlookup (readbuf v) (mget 0 (s_readct s) cid) = Some m" and "ConnID m = cid"
      and "s' = (set_conn cid (take_read (mget 0 (s_readct s) cid) v) s)
        \<lparr>s_readct := fmupd cid (mget 0 (s_readct s) cid + 1) (s_readct s)\<rparr>"
      and "es = [Reply (Pkt (Some m) None 1)]"
  | (data) s1 v m where "server_sev cid i es = SOther" and "server_rev cid i = RData m"
      and "q_from cid s s1" and "fmlookup (s_conn s1) cid = Some v" and "ack v \<le> SeqNum m"
      and "ConnID m = cid" and "s' = set_conn cid (data_into m v) s1" and "\<not> mhas (s_pendconn s1) cid"
      and "\<And>e. e \<in> set es \<Longrightarrow> e = Req (Pkt None None sread) \<or> (\<exists>a. e = Ssend (NewAck cid (SeqNum m)) a)"
  | (ack) s1 v m where "server_sev cid i es = (if SeqNum m > 0 then SAck (SeqNum m) else SOther)"
      and "server_rev cid i = ROther" and "q_from cid s s1" and "fmlookup (s_conn s1) cid = Some v"
      and "ack_in_window (SeqNum m) v" and "ConnID m = cid"
      and "s' = set_conn cid (ack_into m v) s1" and "es = ssend_all (ack_out m v) (caddr v)"
proof (cases i)
  case (SPacket rg p)
  note i = this
  have h: "server_handle rg p s = Some (s', es)" using st SPacket by simp
  consider (kr) "contype p = receive_kind" | (kw) "contype p = swrite" | (kd) "contype p = sread"
    | (kc) "contype p = closeconn" | (kt) "contype p = timer" | (ks) "contype p = sclose"
    | (ko) "contype p \<notin> {receive_kind, swrite, sread, closeconn, timer, sclose}" by blast
  then show thesis
  proof cases
    case kr
    then obtain m where m: "msg p = Some m" and r: "server_handleReceive p s = Some (s', es)"
      using h by (cases "msg p") (auto simp: server_handle_def server_handleReceive_def)
    show thesis
      using t c m r
    proof (cases rule: receive_cases)
      case rq
      then show thesis using quiet kr m i by simp
    next
      case (rd s1 v)
      then show thesis using data [of m s1 v] kr m i by simp
    next
      case (ra s1 v)
      then show thesis using ack [of m s1 v] kr m i by simp
    qed
  next
    case kw
    then obtain m where m: "msg p = Some m" and r: "handle_swrite m s = Some (s', es)"
      using h by (auto simp: server_handle_def split: option.splits)
    show thesis
      using t r
    proof (cases rule: handle_swrite_cases [where cid = cid])
      case 1
      then show thesis using quiet kw m i by simp
    next
      case (2 v n)
      then show thesis using wr [of "Payload m" v n] kw m i by simp
    qed
  next
    case kd
    then have r: "handle_sread rg s = Some (s', es)" using h by (simp add: server_handle_def)
    show thesis
      using t r
    proof (cases rule: handle_sread_cases [where cid = cid])
      case 1
      then show thesis using quiet kd i by (simp split: option.split)
    next
      case (2 v m)
      then show thesis using rd [of v m] kd i by (simp split: option.split)
    qed
  next
    case kc
    then obtain m where m: "msg p = Some m" and r: "handle_closeconn rg m s = Some (s', es)"
      using h by (auto simp: server_handle_def split: option.splits)
    then have "ConnID m \<noteq> cid" using cl i kc by simp
    then show thesis using quiet handle_closeconn_quiet [OF t, of m cid rg] r kc m i by simp
  next
    case kt
    then show thesis using quiet server_handleEpoch_quiet [OF t, of cid rg] h i
      by (simp add: server_handle_def split: option.split)
  next
    case ks
    then show thesis using quiet handle_sclose_quiet [OF t, of cid rg] h i
      by (simp add: server_handle_def split: option.split)
  next
    case ko
    then have "s' = s" "es = []" using h by (auto simp: server_handle_def)
    then show thesis using quiet q_from_refl [OF t] ko i by (simp split: option.split)
  qed
next
  case SCloseStart
  then show thesis using quiet st frame_quiet [OF t, of s'] by (auto simp: server_Close_start_def)
next
  case (SCloseFinish x)
  have "quiet_effect cid s e" if "e \<in> set es" for e
    using that st SCloseFinish
    by (auto simp: server_Close_finish_def Connect_close_def quiet_effect_def ack_effect_def data_effect_def
        read_effect_def split: if_splits option.splits)
  moreover have "q_from cid s s'"
    using st SCloseFinish t frame_quiet [OF t, of s'] q_from_refl [OF t]
    by (auto simp: server_Close_finish_def split: if_splits)
  ultimately show thesis using quiet SCloseFinish by simp
qed

section \<open>The server sends\<close>

definition server_sinv :: "int \<Rightarrow> int \<Rightarrow> bytes list \<Rightarrow> int set \<Rightarrow> int \<Rightarrow> server \<Rightarrow> bool" where
  "server_sinv cid W h A lo s \<longleftrightarrow>
     srv_tags s \<and> cid < s_connCt s \<and> \<not> mhas (s_banclose s) cid \<and> 1 \<le> lo \<and>
     (\<forall>n. 1 \<le> n \<and> n < lo \<longrightarrow> n \<in> A) \<and>
     (\<forall>v. fmlookup (s_conn s) cid = Some v \<longrightarrow>
        snd_inv cid h A (mget 0 (s_sendct s) cid) v \<and> lo = seq v \<and> W = WindowSize (params v) \<and>
        (\<exists>a. caddr v = Some a))"

lemma server_sinvD:
  assumes "server_sinv cid W h A lo s"
  shows "srv_tags s" and "cid < s_connCt s" and "\<not> mhas (s_banclose s) cid" and "1 \<le> lo"
    and "1 \<le> n \<Longrightarrow> n < lo \<Longrightarrow> n \<in> A"
    and "fmlookup (s_conn s) cid = Some v \<Longrightarrow> snd_inv cid h A (mget 0 (s_sendct s) cid) v"
    and "fmlookup (s_conn s) cid = Some v \<Longrightarrow> lo = seq v \<and> W = WindowSize (params v)"
    and "fmlookup (s_conn s) cid = Some v \<Longrightarrow> \<exists>a. caddr v = Some a"
  using assms unfolding server_sinv_def by blast+

lemma server_sinv_quiet:
  assumes inv: "server_sinv cid W h A lo s" and q: "q_from cid s s'"
  shows "server_sinv cid W h A lo s'"
proof -
  note D = server_sinvD [OF inv]
  have "snd_inv cid h A (mget 0 (s_sendct s') cid) v' \<and> lo = seq v' \<and> W = WindowSize (params v') \<and>
      (\<exists>a. caddr v' = Some a)"
    if v': "fmlookup (s_conn s') cid = Some v'" for v'
  proof -
    obtain v where v: "fmlookup (s_conn s) cid = Some v" "same_window v v'"
      "fmlookup (s_sendct s') cid = fmlookup (s_sendct s) cid"
      using q v' unfolding q_from_def s_quiet_def by blast
    have "mget 0 (s_sendct s') cid = mget 0 (s_sendct s) cid" using v(3) by (simp add: mget_def)
    then show ?thesis
      using D(6-8) [OF v(1)] same_window_snd [OF v(2)] v(2) by (simp add: same_window_def)
  qed
  moreover have "srv_tags s'" "cid < s_connCt s'" "\<not> mhas (s_banclose s') cid"
    using q D(2,3) by (auto simp: q_from_def s_quiet_def)
  ultimately show ?thesis using D(4,5) by (simp add: server_sinv_def)
qed

lemma in_flight_sendable:
  assumes "snd_inv cid h A ct v" and "fmlookup (databuf v) k = Some m"
  shows "sendable cid (WindowSize (params v)) h (seq v) m"
  using snd_invD(1,3) [OF assms(1)] snd_invD(6) [OF assms]
  by (auto simp: sendable_def intro!: exI [of _ k])

lemma server_sinv_data:
  assumes inv: "server_sinv cid W h A lo s" and e: "\<And>e. e \<in> set es \<Longrightarrow> quiet_effect cid s e"
    and m: "m \<in> data_sent_to cid es"
  shows "sendable cid W h lo m"
proof -
  obtain e where "e \<in> set es" "sent_message e = Some m" "Type m = MsgData" "ConnID m = cid"
    using m by (auto simp: data_sent_to_def set_sent)
  then obtain v n where v: "fmlookup (s_conn s) cid = Some v" "fmlookup (databuf v) n = Some m"
    using e [of e] server_sinvD(3) [OF inv] by (auto simp: quiet_effect_def data_effect_def)
  show ?thesis
    using in_flight_sendable [OF server_sinvD(6) [OF inv v(1)] v(2)] server_sinvD(7) [OF inv v(1)] by simp
qed

text \<open>A step that replaces connection \<open>cid\<close> and leaves the rest alone.\<close>

lemma server_sinv_set_conn:
  assumes inv: "server_sinv cid W h A lo s" and v: "fmlookup (s_conn s) cid = Some v"
    and s': "s_conn s' = fmupd cid v' (s_conn s)" "s_banclose s' = s_banclose s" "s_connCt s' = s_connCt s"
    and tag: "conn_tags cid v'" and w: "snd_inv cid h' A' (mget 0 (s_sendct s') cid) v'"
    and p: "params v' = params v" "caddr v' = caddr v" and A: "lo \<le> seq v'"
  shows "server_sinv cid W h' A' (seq v') s'"
proof -
  note D = server_sinvD [OF inv]
  have "srv_tags s'" using D(1) tag s' by (auto simp: srv_tags_def)
  moreover have "n \<in> A'" if "1 \<le> n" "n < seq v'" for n
    using snd_inv_below [OF w that] .
  ultimately show ?thesis
    using D(2,3,4) D(7,8) [OF v] s' w p A by (auto simp: server_sinv_def)
qed

lemma server_sstep_write:
  assumes inv: "server_sinv cid W h A lo s" and st: "server_sstep cid s (SWrite p) s' D"
  shows "server_sinv cid W (h @ [p]) A lo s' \<and> (\<forall>m \<in> D. sendable cid W (h @ [p]) lo m)"
proof -
  obtain i es where i: "server_step i s = Some (s', es)" "\<not> closes_conn cid i"
    "server_sev cid i es = SWrite p" "D = data_sent_to cid es"
    using st by (auto simp: server_sstep_def)
  note I = server_sinvD [OF inv]
  show ?thesis
    using I(1,2) i(1,2)
  proof (cases rule: server_step_cases)
    case quiet
    then show ?thesis using i(3) by blast
  next
    case (wr v n q)
    have q: "q = p" using wr(1) i(3) by simp
    let ?m = "NewData cid n p" and ?r = "enqueue n (NewData cid n p) v"
    have w: "snd_inv cid (h @ [p]) A (n + 1) (fst ?r)"
      using snd_inv_enqueue I(6) [OF wr(3)] wr(4) by simp
    have inv': "server_sinv cid W (h @ [p]) A lo s'"
      using server_sinv_set_conn [OF inv wr(3), where s' = s' and v' = "fst ?r" and h' = "h @ [p]" and A' = A]
        w conn_tags_enqueue [OF srv_tags_conn [OF I(1) wr(3)]] wr(5) q I(7) [OF wr(3)]
      by simp
    have "sendable cid W (h @ [p]) lo m" if "m \<in> D" for m
    proof -
      have "m \<in> set (snd ?r)" using that q wr(6) by (auto simp: i(4) data_sent_to_def set_sent set_ssend_all)
      then have "fmlookup (databuf (fst ?r)) n = Some m" by (auto simp: enqueue_def split: if_splits)
      from in_flight_sendable [OF w this] show ?thesis using I(7) [OF wr(3)] by simp
    qed
    with inv' show ?thesis by blast
  next
    case (ack s1 v m)
    then show ?thesis using i(3) by (simp split: if_splits)
  qed (use i(3) in simp_all)
qed

lemma server_ack_slide:
  assumes inv: "server_sinv cid W h A lo s" and v: "fmlookup (s_conn s) cid = Some v"
    and w: "ack_in_window (SeqNum m) v" and n: "SeqNum m \<le> int (length h)" "SeqNum m < lo + W"
    and D: "\<And>x. x \<in> D \<Longrightarrow> x \<in> set (ack_out m v)"
  shows "\<exists>A' lo'. A' \<subseteq> insert (SeqNum m) A \<and> lo \<le> lo' \<and>
    server_sinv cid W h A' lo' (set_conn cid (ack_into m v) s) \<and> (\<forall>x \<in> D. sendable cid W h lo' x)"
proof -
  note I = server_sinvD [OF inv]
  let ?v = "v\<lparr>lastrece := receive v\<rparr>"
  have i: "snd_inv cid h A (mget 0 (s_sendct s) cid) ?v"
    using I(6) [OF v] snd_inv_frame [of ?v v] by simp
  have b: "seq ?v \<le> SeqNum m" "SeqNum m < mget 0 (s_sendct s) cid" "SeqNum m < seq ?v + WindowSize (params ?v)"
    using w n I(7) [OF v] snd_invD(1) [OF i] by (auto simp: ack_in_window_def)
  note S = snd_inv_ack [OF i b, folded ack_into_def ack_out_def]
  have inv': "server_sinv cid W h (insert (SeqNum m) A) (seq (ack_into m v)) (set_conn cid (ack_into m v) s)"
    by (rule server_sinv_set_conn [OF inv v, where v' = "ack_into m v"])
      (use S(1,2) I(7) [OF v] ack_into_tags [OF I(1) v] in \<open>simp_all add: ack_into_def\<close>)
  have "sendable cid W h (seq (ack_into m v)) x" if x: "x \<in> D" for x
  proof -
    obtain k where "fmlookup (databuf (ack_into m v)) k = Some x" using S(3) D [OF x] by blast
    then show ?thesis
      using in_flight_sendable [OF S(1)] I(7) [OF v] by (simp add: ack_into_def)
  qed
  then show ?thesis using inv' S(2) I(7) [OF v]
    by (intro exI [of _ "insert (SeqNum m) A"] exI [of _ "seq (ack_into m v)"]) simp
qed

lemma server_sstep_ack:
  assumes inv: "server_sinv cid W h A lo s" and st: "server_sstep cid s (SAck n) s' D"
    and n: "1 \<le> n" "n \<le> int (length h)" "n < lo + W"
  shows "\<exists>A' lo'. A' \<subseteq> insert n A \<and> lo \<le> lo' \<and> server_sinv cid W h A' lo' s' \<and>
    (\<forall>m \<in> D. sendable cid W h lo' m)"
proof -
  obtain i es where i: "server_step i s = Some (s', es)" "\<not> closes_conn cid i"
    "server_sev cid i es = SAck n" "D = data_sent_to cid es"
    using st by (auto simp: server_sstep_def)
  show ?thesis
    using server_sinvD(1,2) [OF inv] i(1,2)
  proof (cases rule: server_step_cases)
    case quiet
    then show ?thesis
      using server_sinv_quiet [OF inv quiet(1)] server_sinv_data [OF inv quiet(2)] i(4)
      by (intro exI [of _ A] exI [of _ lo]) auto
  next
    case (ack s1 v m)
    have m: "SeqNum m = n" using ack(1) i(3) by (simp split: if_splits)
    have "x \<in> set (ack_out m v)" if "x \<in> D" for x
      using that ack(8) by (auto simp: i(4) data_sent_to_def set_sent set_ssend_all)
    then show ?thesis
      using server_ack_slide [OF server_sinv_quiet [OF inv ack(3)] ack(4,5), of D] n ack(7) by (simp add: m)
  qed (use i(3) in simp_all)
qed

lemma server_sstep_other:
  assumes inv: "server_sinv cid W h A lo s" and st: "server_sstep cid s SOther s' D"
  shows "server_sinv cid W h A lo s' \<and> (\<forall>m \<in> D. sendable cid W h lo m)"
proof -
  obtain i es where i: "server_step i s = Some (s', es)" "\<not> closes_conn cid i"
    "server_sev cid i es = SOther" "D = data_sent_to cid es"
    using st by (auto simp: server_sstep_def)
  note I = server_sinvD [OF inv]
  show ?thesis
    using I(1,2) i(1,2)
  proof (cases rule: server_step_cases)
    case quiet
    then show ?thesis
      using server_sinv_quiet [OF inv quiet(1)] server_sinv_data [OF inv quiet(2)] i(4) by blast
  next
    case (rd v m)
    let ?u = "take_read (mget 0 (s_readct s) cid) v"
    have "server_sinv cid W h A (seq ?u) s'"
      by (rule server_sinv_set_conn [OF inv rd(3), where v' = ?u])
        (use rd(6) I(6,7) [OF rd(3)] snd_inv_frame [of ?u v] conn_tags_read [OF srv_tags_conn [OF I(1) rd(3)]] in simp_all)
    moreover have "D = {}" using rd(7) by (auto simp: i(4) data_sent_to_def)
    ultimately show ?thesis using I(7) [OF rd(3)] by simp
  next
    case (data s1 v m)
    have inv1: "server_sinv cid W h A lo s1" using server_sinv_quiet [OF inv data(3)] .
    note J = server_sinvD [OF inv1]
    let ?v = "v\<lparr>lastrece := receive v\<rparr>"
    have tag: "conn_tags cid (data_into m v)"
      unfolding data_into_def data(6)
      by (rule conn_tags_accept [OF conn_tags_frame [OF _ srv_tags_conn [OF J(1) data(4)]] data(6)
            conjunct1 [OF server_rev_data [OF data(2)]]])
        (simp add: same_window_def)
    have "server_sinv cid W h A (seq (data_into m v)) s'"
      by (rule server_sinv_set_conn [OF inv1 data(4), where v' = "data_into m v"])
        (use data(7) J(6,7) [OF data(4)] tag snd_inv_frame [of "data_into m v" v] in \<open>simp_all add: data_into_def\<close>)
    moreover have "Type x = MsgAck" if "e \<in> set es" "sent_message e = Some x" for e x
      using data(9) [OF that(1)] that(2) by auto
    then have "D = {}" by (force simp: i(4) data_sent_to_def set_sent)
    ultimately show ?thesis using J(7) [OF data(4)] by (simp add: data_into_def)
  next
    case (ack s1 v m)
    have "SeqNum m \<le> 0" using ack(1) i(3) by (simp split: if_splits)
    moreover have "1 \<le> seq v"
      using snd_invD(3) [OF server_sinvD(6) [OF server_sinv_quiet [OF inv ack(3)] ack(4)]] .
    ultimately show ?thesis using ack(5) by (simp add: ack_in_window_def)
  qed (use i(3) in simp_all)
qed

lemma server_sinv_acked: "server_sinv cid W h A lo s \<Longrightarrow> 1 \<le> n \<Longrightarrow> n < lo \<Longrightarrow> n \<in> A"
  by (rule server_sinvD(5))

interpretation ssend: window_sender "server_sstep cid" "server_sinv cid W" cid W for cid W
  by unfold_locales
    (erule (1) server_sstep_write, erule (4) server_sstep_ack, erule (1) server_sstep_other,
      erule (2) server_sinv_acked)

section \<open>The server receives\<close>

definition server_rinv :: "int \<Rightarrow> int \<Rightarrow> bytes list \<Rightarrow> int set \<Rightarrow> int \<Rightarrow> server \<Rightarrow> bool" where
  "server_rinv cid W h R k s \<longleftrightarrow>
     srv_tags s \<and> cid < s_connCt s \<and> 1 \<le> k \<and> k \<le> int (length h) + 1 \<and>
     (\<forall>n. n \<in> R \<longrightarrow> 1 \<le> n \<and> n \<le> int (length h)) \<and>
     (\<forall>v. fmlookup (s_conn s) cid = Some v \<longrightarrow>
        rcv_inv cid h R k v \<and> mget 0 (s_readct s) cid = k \<and> W = WindowSize (params v) \<and>
        (mhas (s_pendconn s) cid \<longrightarrow> R = {}) \<and> (\<exists>a. caddr v = Some a))"

lemma server_rinvD:
  assumes "server_rinv cid W h R k s"
  shows "srv_tags s" and "cid < s_connCt s" and "1 \<le> k \<and> k \<le> int (length h) + 1"
    and "n \<in> R \<Longrightarrow> 1 \<le> n \<and> n \<le> int (length h)"
    and "fmlookup (s_conn s) cid = Some v \<Longrightarrow> rcv_inv cid h R k v"
    and "fmlookup (s_conn s) cid = Some v \<Longrightarrow> mget 0 (s_readct s) cid = k \<and> W = WindowSize (params v)"
    and "fmlookup (s_conn s) cid = Some v \<Longrightarrow> mhas (s_pendconn s) cid \<Longrightarrow> R = {}"
    and "fmlookup (s_conn s) cid = Some v \<Longrightarrow> \<exists>a. caddr v = Some a"
  using assms unfolding server_rinv_def by blast+

lemma server_rinv_quiet:
  assumes inv: "server_rinv cid W h R k s" and q: "q_from cid s s'"
  shows "server_rinv cid W h R k s'"
proof -
  note D = server_rinvD [OF inv]
  have "rcv_inv cid h R k v' \<and> mget 0 (s_readct s') cid = k \<and> W = WindowSize (params v') \<and>
      (mhas (s_pendconn s') cid \<longrightarrow> R = {}) \<and> (\<exists>a. caddr v' = Some a)"
    if v': "fmlookup (s_conn s') cid = Some v'" for v'
  proof -
    obtain v where v: "fmlookup (s_conn s) cid = Some v" "same_window v v'"
      "fmlookup (s_readct s') cid = fmlookup (s_readct s) cid"
      "mhas (s_pendconn s') cid \<longrightarrow> mhas (s_pendconn s) cid"
      using q v' unfolding q_from_def s_quiet_def by blast
    have "mget 0 (s_readct s') cid = mget 0 (s_readct s) cid" using v(3) by (simp add: mget_def)
    then show ?thesis
      using D(5-8) [OF v(1)] same_window_rcv [OF v(2)] v(2,4) by (auto simp: same_window_def)
  qed
  moreover have "srv_tags s'" "cid < s_connCt s'"
    using q D(2) by (auto simp: q_from_def s_quiet_def)
  ultimately show ?thesis using D(3,4) by (simp add: server_rinv_def)
qed

lemma server_rinv_acks:
  assumes inv: "server_rinv cid W h R k s" and e: "\<And>e. e \<in> set es \<Longrightarrow> quiet_effect cid s e"
  shows "acks_sent_to cid es \<subseteq> R"
proof
  fix n assume n: "n \<in> acks_sent_to cid es"
  obtain e m where e': "e \<in> set es" "sent_message e = Some m" "Type m = MsgAck" "ConnID m = cid"
    "SeqNum m > 0" "n = SeqNum m"
    using n by (auto simp: acks_sent_to_def set_sent)
  have "ack_effect cid s e" using e [OF e'(1)] by (simp add: quiet_effect_def)
  then obtain v where v: "fmlookup (s_conn s) cid = Some v" "mhas (ackbuf v) n"
    using e' unfolding ack_effect_def by blast
  show "n \<in> R" using rcv_invD(5) [OF server_rinvD(5) [OF inv v(1)]] v(2) by blast
qed

lemma quiet_reads:
  assumes "\<And>e. e \<in> set es \<Longrightarrow> quiet_effect cid s e"
  shows "server_reads cid es = []"
proof (rule server_reads_Nil)
  fix e assume "e \<in> set es"
  then have r: "read_effect cid e" using assms by (simp add: quiet_effect_def)
  show "reply_payload cid e = None"
  proof (cases e)
    case (Reply p)
    obtain om a k where p: "p = Pkt om a k" by (metis Pkt_def Packet.cases)
    show ?thesis using r by (auto simp: Reply p read_effect_def split: option.split)
  qed simp_all
qed

lemma server_rinv_set_conn:
  assumes inv: "server_rinv cid W h R k s" and v: "fmlookup (s_conn s) cid = Some v"
    and s': "s_conn s' = fmupd cid v' (s_conn s)" "s_banclose s' = s_banclose s" "s_connCt s' = s_connCt s"
    and tag: "conn_tags cid v'" and w: "rcv_inv cid h R' k' v'" and p: "params v' = params v" "caddr v' = caddr v"
    and pend: "mhas (s_pendconn s') cid \<Longrightarrow> mhas (s_pendconn s) cid \<and> R' = R"
    and k: "mget 0 (s_readct s') cid = k'" "k' \<le> int (length h) + 1"
  shows "server_rinv cid W h R' k' s'"
proof -
  note D = server_rinvD [OF inv]
  have "srv_tags s'" using D(1) tag s' by (auto simp: srv_tags_def)
  then show ?thesis
    using D(2) D(6-8) [OF v] s' w p k pend rcv_invD(3,4) [OF w] by (auto simp: server_rinv_def)
qed

lemma server_rstep_data:
  assumes inv: "server_rinv cid W h R k s" and st: "server_rstep cid s (RData (wmsg cid h n)) s' As out"
    and n: "1 \<le> n" "n \<le> int (length h)" and prev: "\<And>j. 1 \<le> j \<Longrightarrow> j \<le> n - W \<Longrightarrow> j \<in> R"
  shows "\<exists>R'. R \<subseteq> R' \<and> R' \<subseteq> insert n R \<and> server_rinv cid W h R' k s' \<and> As \<subseteq> R' \<and> out = []"
proof -
  obtain i es where i: "server_step i s = Some (s', es)" "\<not> closes_conn cid i"
    "server_rev cid i = RData (wmsg cid h n)" "As = acks_sent_to cid es" "out = server_reads cid es"
    using st by (auto simp: server_rstep_def)
  show ?thesis
    using server_rinvD(1,2) [OF inv] i(1,2)
  proof (cases rule: server_step_cases)
    case quiet
    then show ?thesis
      using server_rinv_quiet [OF inv quiet(1)] server_rinv_acks [OF inv quiet(2)] quiet_reads [OF quiet(2)]
        i(4,5) by (intro exI [of _ R]) auto
  next
    case (data s1 v m)
    have m: "m = wmsg cid h n" using data(2) i(3) by simp
    have inv1: "server_rinv cid W h R k s1" using server_rinv_quiet [OF inv data(3)] .
    note J = server_rinvD [OF inv1]
    let ?v = "v\<lparr>lastrece := receive v\<rparr>"
    have iv: "rcv_inv cid h R k ?v" using J(5) [OF data(4)] rcv_inv_frame [of ?v v] by simp
    have acc: "rcv_inv cid h (insert n R) k (data_into m v)"
      unfolding data_into_def data(6)
      by (rule rcv_inv_accept [OF iv m n]) (use data(5) m prev J(6) [OF data(4)] in auto)
    have tag: "conn_tags cid (data_into m v)"
      unfolding data_into_def data(6)
      by (rule conn_tags_accept [OF conn_tags_frame [OF _ srv_tags_conn [OF J(1) data(4)]] data(6)
            conjunct1 [OF server_rev_data [OF data(2)]]])
        (simp add: same_window_def)
    have "server_rinv cid W h (insert n R) k s'"
      by (rule server_rinv_set_conn [OF inv1 data(4), where v' = "data_into m v"])
        (use data(7,8) tag acc J(3) J(6) [OF data(4)] in \<open>simp_all add: data_into_def\<close>)
    moreover have "As \<subseteq> insert n R"
    proof
      fix j assume "j \<in> As"
      then obtain e x where "e \<in> set es" "sent_message e = Some x" "j = SeqNum x"
        by (auto simp: i(4) acks_sent_to_def set_sent)
      then show "j \<in> insert n R" using data(9) [of e] m by auto
    qed
    moreover have "out = []"
      unfolding i(5) by (rule server_reads_Nil) (use data(9) in fastforce)
    ultimately show ?thesis by blast
  qed (use i(3) in simp_all)
qed

lemma server_rstep_other:
  assumes inv: "server_rinv cid W h R k s" and st: "server_rstep cid s ROther s' As out"
  shows "server_rinv cid W h R (k + int (length out)) s' \<and> As \<subseteq> R \<and>
      out = take (length out) (drop (nat (k - 1)) h)"
proof -
  obtain i es where i: "server_step i s = Some (s', es)" "\<not> closes_conn cid i"
    "server_rev cid i = ROther" "As = acks_sent_to cid es" "out = server_reads cid es"
    using st by (auto simp: server_rstep_def)
  note I = server_rinvD [OF inv]
  show ?thesis
    using I(1,2) i(1,2)
  proof (cases rule: server_step_cases)
    case quiet
    then show ?thesis
      using server_rinv_quiet [OF inv quiet(1)] server_rinv_acks [OF inv quiet(2)] quiet_reads [OF quiet(2)]
        i(4,5) by simp
  next
    case (wr v n p)
    let ?v = "fst (enqueue n (NewData cid n p) v)"
    have f: "params ?v = params v" "ack ?v = ack v" "ackbuf ?v = ackbuf v" "readbuf ?v = readbuf v"
      by (simp_all add: enqueue_def)
    have "server_rinv cid W h R k s'"
      by (rule server_rinv_set_conn [OF inv wr(3), where v' = ?v])
        (use wr(5) conn_tags_enqueue [OF srv_tags_conn [OF I(1) wr(3)]] rcv_inv_frame [OF f] I(3)
          I(5,6) [OF wr(3)] f in simp_all)
    moreover have "Type x = MsgData" if "e \<in> set es" "sent_message e = Some x" for e x
      using that wr(6) by (auto simp: set_ssend_all enqueue_def split: if_splits)
    then have "As = {}" by (force simp: i(4) acks_sent_to_def set_sent)
    moreover have "out = []"
      unfolding i(5) by (rule server_reads_Nil) (use wr(6) in \<open>auto simp: set_ssend_all\<close>)
    ultimately show ?thesis by simp
  next
    case (ack s1 v m)
    have inv1: "server_rinv cid W h R k s1" using server_rinv_quiet [OF inv ack(3)] .
    note J = server_rinvD [OF inv1]
    have f: "params (ack_into m v) = params v" "LspConnect.ack (ack_into m v) = LspConnect.ack v"
      "ackbuf (ack_into m v) = ackbuf v" "readbuf (ack_into m v) = readbuf v" "caddr (ack_into m v) = caddr v"
      by (simp_all add: ack_into_def)
    have tag: "conn_tags cid (ack_into m v)" using ack_into_tags [OF J(1) ack(4)] .
    have "server_rinv cid W h R k s'"
      by (rule server_rinv_set_conn [OF inv1 ack(4), where v' = "ack_into m v"])
        (use ack(7) tag rcv_inv_frame [OF f(1-4)] J(3) J(5,6) [OF ack(4)] f in simp_all)
    moreover have "Type x = MsgData" if "x \<in> set (ack_out m v)" for x
      using ack_out_databuf [OF that] tag by (auto simp: conn_tags_def)
    then have "As = {}"
      unfolding i(4) ack(8) by (force simp: acks_sent_to_def set_sent set_ssend_all)
    moreover have "out = []"
      unfolding i(5) by (rule server_reads_Nil) (use ack(8) in \<open>auto simp: set_ssend_all\<close>)
    ultimately show ?thesis by simp
  next
    case (rd v m)
    let ?n = "mget 0 (s_readct s) cid"
    have n: "?n = k" using I(6) [OF rd(3)] by simp
    note r = rcv_inv_read [OF I(5) [OF rd(3)] rd(4) [unfolded n]]
    have "server_rinv cid W h R (k + 1) s'"
      by (rule server_rinv_set_conn [OF inv rd(3), where v' = "take_read k v"])
        (use rd(6) n r conn_tags_read [OF srv_tags_conn [OF I(1) rd(3)]] in simp_all)
    moreover have out: "out = [h ! nat (k - 1)]"
      using r(2) by (simp add: i(5) rd(7) wmsg_def NewData_def)
    moreover have "take 1 (drop (nat (k - 1)) h) = [h ! nat (k - 1)]"
      using r(3) by (cases "drop (nat (k - 1)) h") (auto simp: nth_via_drop nat_less_iff)
    moreover have "As = {}" by (simp add: i(4) rd(7) acks_sent_to_def)
    ultimately show ?thesis by simp
  qed (use i(3) in simp_all)
qed

lemma server_rinv_hist: "server_rinv cid W h R k s \<Longrightarrow> server_rinv cid W (h @ [p]) R k s"
  using rcv_inv_hist by (fastforce simp: server_rinv_def)

lemma server_rinv_bounds: "server_rinv cid W h R k s \<Longrightarrow> n \<in> R \<Longrightarrow> 1 \<le> n \<and> n \<le> int (length h)"
  by (rule server_rinvD(4))

lemma server_rinv_next: "server_rinv cid W h R k s \<Longrightarrow> 1 \<le> k \<and> k \<le> int (length h) + 1"
  by (rule server_rinvD(3))

interpretation srecv: window_receiver "server_rstep cid" "server_rinv cid W" cid W for cid W
  by unfold_locales
    (erule (3) server_rstep_data, simp, erule (1) server_rstep_other, erule server_rinv_hist,
      erule (1) server_rinv_bounds, erule server_rinv_next)

section \<open>A connection that has just been accepted\<close>

definition server_fresh :: "int \<Rightarrow> int \<Rightarrow> server \<Rightarrow> bool" where
  "server_fresh cid W s \<longleftrightarrow>
     srv_tags s \<and> cid < s_connCt s \<and> \<not> mhas (s_banclose s) cid \<and> 1 \<le> W \<and>
     fmlookup (s_readct s) cid = Some 1 \<and> fmlookup (s_sendct s) cid = Some 1 \<and>
     (\<exists>v. fmlookup (s_conn s) cid = Some v \<and> seq v = 1 \<and> ack v = 1 \<and> databuf v = fmempty \<and>
        writebuf v = fmempty \<and> ackbuf v = fmempty \<and> readbuf v = fmempty \<and>
        WindowSize (params v) = W \<and> (\<exists>a. caddr v = Some a))"

lemma server_fresh_inv:
  assumes "server_fresh cid W s"
  shows "server_sinv cid W [] {} 1 s" and "server_rinv cid W [] {} 1 s"
  using assms snd_inv_init [of _ cid] rcv_inv_init [of _ cid]
  by (auto simp: server_fresh_def server_sinv_def server_rinv_def mget_def)

end
