(* ===== verification/LspServerSafe.thy ===== *)
theory LspServerSafe
  imports LspServerLink
begin

text \<open>
  The tables of the server agree with each other (\<open>srv_wf\<close>), every step keeps it so, and so no
  step dereferences a nil pointer: the handler never returns \<open>None\<close>. The one thing the
  application has to respect is not to write to a connection that is not established yet.
\<close>

section \<open>The tables agree\<close>

definition srv_wf :: "server \<Rightarrow> bool" where
  "srv_wf s \<longleftrightarrow>
     1 \<le> s_connCt s \<and>
     (\<forall>i v. fmlookup (s_conn s) i = Some v \<longrightarrow> 1 \<le> i \<and> i < s_connCt s \<and> params v = s_initparams s \<and>
        mhas (s_sendct s) i \<and> mhas (s_readct s) i \<and>
        (\<exists>a. caddr v = Some a \<and> fmlookup (s_addmap s) a = Some i)) \<and>
     (\<forall>a i. fmlookup (s_addmap s) a = Some i \<longrightarrow>
        (\<exists>v. fmlookup (s_conn s) i = Some v \<and> caddr v = Some a)) \<and>
     (\<forall>i k. fmlookup (s_pendconn s) i = Some k \<longrightarrow> k = 1 \<and> \<not> mget False (s_closepend s) i \<and>
        (\<exists>v. fmlookup (s_conn s) i = Some v \<and> \<not> estab v \<and> writebuf v = fmempty)) \<and>
     (\<forall>i. mget False (s_closepend s) i \<longrightarrow> mhas (s_conn s) i) \<and>
     (\<forall>i. mhas (s_banclose s) i \<longrightarrow> i < s_connCt s \<and> \<not> mhas (s_conn s) i)"

lemma srv_wfD:
  assumes "srv_wf s"
  shows "1 \<le> s_connCt s"
    and "fmlookup (s_conn s) i = Some v \<Longrightarrow> 1 \<le> i \<and> i < s_connCt s \<and> params v = s_initparams s \<and>
        mhas (s_sendct s) i \<and> mhas (s_readct s) i"
    and "fmlookup (s_conn s) i = Some v \<Longrightarrow> \<exists>a. caddr v = Some a \<and> fmlookup (s_addmap s) a = Some i"
    and "fmlookup (s_addmap s) a = Some i \<Longrightarrow> \<exists>v. fmlookup (s_conn s) i = Some v \<and> caddr v = Some a"
    and "fmlookup (s_pendconn s) i = Some k \<Longrightarrow> k = 1 \<and> \<not> mget False (s_closepend s) i \<and>
        (\<exists>v. fmlookup (s_conn s) i = Some v \<and> \<not> estab v \<and> writebuf v = fmempty)"
    and "mget False (s_closepend s) i \<Longrightarrow> mhas (s_conn s) i"
    and "mhas (s_banclose s) i \<Longrightarrow> i < s_connCt s \<and> \<not> mhas (s_conn s) i"
  using assms unfolding srv_wf_def by blast+

lemma srv_wfI:
  assumes "1 \<le> s_connCt s"
    and "\<And>i v. fmlookup (s_conn s) i = Some v \<Longrightarrow> 1 \<le> i \<and> i < s_connCt s \<and> params v = s_initparams s \<and>
        mhas (s_sendct s) i \<and> mhas (s_readct s) i"
    and "\<And>i v. fmlookup (s_conn s) i = Some v \<Longrightarrow> \<exists>a. caddr v = Some a \<and> fmlookup (s_addmap s) a = Some i"
    and "\<And>a i. fmlookup (s_addmap s) a = Some i \<Longrightarrow> \<exists>v. fmlookup (s_conn s) i = Some v \<and> caddr v = Some a"
    and "\<And>i k. fmlookup (s_pendconn s) i = Some k \<Longrightarrow> k = 1 \<and> \<not> mget False (s_closepend s) i \<and>
        (\<exists>v. fmlookup (s_conn s) i = Some v \<and> \<not> estab v \<and> writebuf v = fmempty)"
    and "\<And>i. mget False (s_closepend s) i \<Longrightarrow> mhas (s_conn s) i"
    and "\<And>i. mhas (s_banclose s) i \<Longrightarrow> i < s_connCt s \<and> \<not> mhas (s_conn s) i"
  shows "srv_wf s"
  using assms unfolding srv_wf_def by blast

lemma srv_wf_new: "srv_wf (new_server p)"
  by (simp add: srv_wf_def new_server_def)

text \<open>Fields that the tables do not depend on.\<close>

lemma srv_wf_frame:
  assumes "srv_wf s" and "s_connCt s' = s_connCt s" and "s_conn s' = s_conn s"
    and "s_initparams s' = s_initparams s" and "s_sendct s' = s_sendct s" and "s_readct s' = s_readct s"
    and "s_addmap s' = s_addmap s" and "s_pendconn s' = s_pendconn s" and "s_closepend s' = s_closepend s"
    and "\<And>i. mhas (s_banclose s') i \<Longrightarrow> mhas (s_banclose s) i"
  shows "srv_wf s'"
  using assms(1,10) unfolding srv_wf_def assms(2-9) by blast

lemma srv_wf_set_conn:
  assumes wf: "srv_wf s" and v: "fmlookup (s_conn s) i = Some v"
    and s': "s_connCt s' = s_connCt s" "s_conn s' = fmupd i v' (s_conn s)"
      "s_initparams s' = s_initparams s" "s_addmap s' = s_addmap s" "s_pendconn s' = s_pendconn s"
      "s_closepend s' = s_closepend s" "s_banclose s' = s_banclose s"
      "\<And>j. mhas (s_sendct s) j \<Longrightarrow> mhas (s_sendct s') j" "\<And>j. mhas (s_readct s) j \<Longrightarrow> mhas (s_readct s') j"
    and v': "caddr v' = caddr v" "params v' = params v"
      "mhas (s_pendconn s) i \<Longrightarrow> \<not> estab v' \<and> writebuf v' = fmempty"
  shows "srv_wf s'"
proof (rule srv_wfI)
  note D = srv_wfD [OF wf]
  show "1 \<le> s_connCt s'" using D(1) s' by simp
  show "1 \<le> j \<and> j < s_connCt s' \<and> params u = s_initparams s' \<and> mhas (s_sendct s') j \<and> mhas (s_readct s') j"
    if "fmlookup (s_conn s') j = Some u" for j u
    using that D(2) [of j u] D(2) [OF v] s' v' by (auto split: if_splits)
  show "\<exists>a. caddr u = Some a \<and> fmlookup (s_addmap s') a = Some j" if "fmlookup (s_conn s') j = Some u" for j u
    using that D(3) [of j u] D(3) [OF v] s' v' by (auto split: if_splits)
  show "\<exists>u. fmlookup (s_conn s') j = Some u \<and> caddr u = Some a" if "fmlookup (s_addmap s') a = Some j" for a j
    using that D(4) [of a j] v s' v' by auto
  show "k = 1 \<and> \<not> mget False (s_closepend s') j \<and>
      (\<exists>u. fmlookup (s_conn s') j = Some u \<and> \<not> estab u \<and> writebuf u = fmempty)"
    if "fmlookup (s_pendconn s') j = Some k" for j k
    using that D(5) [of j k] s' v'(3) by (auto intro: mhasI)
  show "mhas (s_conn s') j" if "mget False (s_closepend s') j" for j
    using that D(6) [of j] s' by auto
  show "j < s_connCt s' \<and> \<not> mhas (s_conn s') j" if "mhas (s_banclose s') j" for j
    using that D(7) [of j] v s' by (auto simp: mhas_def)
qed

text \<open>A connection is forgotten, with its address.\<close>

lemma srv_wf_drop:
  assumes wf: "srv_wf s" and v: "fmlookup (s_conn s) i = Some v" and a: "caddr v = Some a"
    and s': "s_connCt s' = s_connCt s" "s_conn s' = fmdrop i (s_conn s)"
      "s_initparams s' = s_initparams s" "s_addmap s' = fmdrop a (s_addmap s)"
      "\<And>j. mhas (s_banclose s') j \<Longrightarrow> j = i \<or> mhas (s_banclose s) j"
      "\<And>j. j \<noteq> i \<Longrightarrow> mhas (s_sendct s) j \<Longrightarrow> mhas (s_sendct s') j"
      "\<And>j. j \<noteq> i \<Longrightarrow> mhas (s_readct s) j \<Longrightarrow> mhas (s_readct s') j"
      "\<And>j. j \<noteq> i \<Longrightarrow> mget False (s_closepend s') j = mget False (s_closepend s) j"
    and p: "\<And>j k. fmlookup (s_pendconn s') j = Some k \<Longrightarrow> j \<noteq> i \<and> fmlookup (s_pendconn s) j = Some k"
    and c: "\<not> mget False (s_closepend s') i"
  shows "srv_wf s'"
proof (rule srv_wfI)
  note D = srv_wfD [OF wf]
  show "1 \<le> s_connCt s'" using D(1) s' by simp
  show "1 \<le> j \<and> j < s_connCt s' \<and> params u = s_initparams s' \<and> mhas (s_sendct s') j \<and> mhas (s_readct s') j"
    if "fmlookup (s_conn s') j = Some u" for j u
    using that D(2) [of j u] s' by (auto split: if_splits)
  show "\<exists>b. caddr u = Some b \<and> fmlookup (s_addmap s') b = Some j" if "fmlookup (s_conn s') j = Some u" for j u
  proof -
    have j: "j \<noteq> i" "fmlookup (s_conn s) j = Some u" using that s' by (auto split: if_splits)
    obtain b where b: "caddr u = Some b" "fmlookup (s_addmap s) b = Some j" using D(3) [OF j(2)] by blast
    moreover have "b \<noteq> a" using D(3) [OF v] a b j(1) by auto
    ultimately show ?thesis using s' by simp
  qed
  show "\<exists>u. fmlookup (s_conn s') j = Some u \<and> caddr u = Some b" if "fmlookup (s_addmap s') b = Some j" for b j
  proof -
    have b: "b \<noteq> a" "fmlookup (s_addmap s) b = Some j" using that s' by (auto split: if_splits)
    obtain u where u: "fmlookup (s_conn s) j = Some u" "caddr u = Some b" using D(4) [OF b(2)] by blast
    moreover have "j \<noteq> i" using u v a b(1) by auto
    ultimately show ?thesis using s' by simp
  qed
  show "k = 1 \<and> \<not> mget False (s_closepend s') j \<and>
      (\<exists>u. fmlookup (s_conn s') j = Some u \<and> \<not> estab u \<and> writebuf u = fmempty)"
    if "fmlookup (s_pendconn s') j = Some k" for j k
    using p [OF that] D(5) [of j k] s' by auto
  show "mhas (s_conn s') j" if "mget False (s_closepend s') j" for j
    using that D(6) [of j] s' c by (cases "j = i") auto
  show "j < s_connCt s' \<and> \<not> mhas (s_conn s') j" if "mhas (s_banclose s') j" for j
    using s'(5) [OF that] D(7) [of j] D(2) [OF v] s' by auto
qed

abbreviation safe :: "(server, effect) outcome \<Rightarrow> bool" where
  "safe \<equiv> safely srv_wf (\<lambda>e. True)"

lemma safe_andthen: "safe r \<Longrightarrow> (\<And>s. srv_wf s \<Longrightarrow> safe (f s)) \<Longrightarrow> safe (andthen r f)"
  by (rule safely_andthen)

lemma safe_loop: "(\<And>k s. srv_wf s \<Longrightarrow> safe (f k s)) \<Longrightarrow> srv_wf s \<Longrightarrow> safe (run_loop f ks s)"
  by (rule safely_run_loop) auto

section \<open>Epochs and closing\<close>

lemma handleclosecon_safe:
  assumes wf: "srv_wf s" and m: "msg pak = Some m" and v: "fmlookup (s_conn s) (ConnID m) = Some v"
    and a: "paddr pak = caddr v" and p: "\<not> mhas (s_pendconn s) (ConnID m)"
  shows "safe (server_handleclosecon rg pak s)"
proof -
  obtain b where b: "caddr v = Some b" using srv_wfD(3) [OF wf v] by blast
  have pj: "fmlookup (s_pendconn s) (ConnID m) = None" using p by (simp add: mhas_def)
  show ?thesis
    using m v a b pj
    by (auto simp: server_handleclosecon_def Let_def split_beta
        intro!: srv_wf_drop [OF wf v b])
qed

lemma epoch_ban_safe: "srv_wf s \<Longrightarrow> safe (epoch_ban rg k s)"
  by (auto simp: epoch_ban_def Let_def mhas_def split: option.split if_splits elim!: srv_wf_frame)

lemma epoch_lost_pending_safe:
  assumes wf: "srv_wf s" and v: "fmlookup (s_conn s) i = Some v" and p: "mhas (s_pendconn s) i"
  shows "safe (epoch_lost_pending i v s)"
proof -
  obtain b where b: "caddr v = Some b" using srv_wfD(3) [OF wf v] by blast
  show ?thesis
  proof (cases "s_readclose s")
    case True
    then show ?thesis using wf by (auto simp: epoch_lost_pending_def elim!: srv_wf_frame)
  next
    case False
    then show ?thesis using b
      by (auto simp: epoch_lost_pending_def intro!: srv_wf_drop [OF wf v b] split: if_splits)
  qed
qed

lemma epoch_lost_safe:
  assumes wf: "srv_wf s" and v: "fmlookup (s_conn s) i = Some v" and p: "\<not> mhas (s_pendconn s) i"
  shows "safe (epoch_lost rg i v s)"
proof -
  let ?s1 = "set_conn i (v\<lparr>losted := True\<rparr>) s" and ?m = "zero_Message\<lparr>ConnID := i\<rparr>"
  have wf1: "srv_wf ?s1" by (rule srv_wf_set_conn [OF wf v, where v' = "v\<lparr>losted := True\<rparr>"]) (use p in simp_all)
  show ?thesis
  proof (cases "mget False (s_closepend s) i")
    case True
    have "srv_wf (?s1\<lparr>s_closeack := fmupd i True (s_closeack ?s1)\<rparr>)"
      by (rule srv_wf_frame [OF wf1]) simp_all
    then show ?thesis using True by (simp add: epoch_lost_def Let_def)
  next
    case False
    have "safe (server_handleclosecon rg (Pkt (Some ?m) (caddr v) sclose) ?s1)"
      by (rule handleclosecon_safe [OF wf1, where m = ?m and v = "v\<lparr>losted := True\<rparr>"]) (use p in simp_all)
    then have "safe (andthen (Some (?s1, [Reply (Pkt (Some ?m) None (- 1))]))
        (server_handleclosecon rg (Pkt (Some ?m) (caddr v) sclose)))"
      by (intro safely_andthen [where P = "\<lambda>t. t = ?s1"]) auto
    then show ?thesis using False by (simp add: epoch_lost_def Let_def)
  qed
qed

lemma epoch_conn_safe:
  assumes wf: "srv_wf s"
  shows "safe (epoch_conn rg i s)"
proof (cases "fmlookup (s_conn s) i")
  case None
  then show ?thesis using wf by (simp add: epoch_conn_def)
next
  case (Some v0)
  let ?v = "v0\<lparr>receive := receive v0 + 1\<rparr>"
  have wf1: "srv_wf (set_conn i ?v s)"
    by (rule srv_wf_set_conn [OF wf Some, where v' = ?v]) (use srv_wfD(5) [OF wf, of i] Some in \<open>auto simp: mhas_def\<close>)
  have v1: "fmlookup (s_conn (set_conn i ?v s)) i = Some ?v" by simp
  have "safe (epoch_alive rg i ?v (set_conn i ?v s))"
    using wf1 by (simp add: epoch_alive_def split: option.split)
  then show ?thesis
    using Some epoch_lost_safe [OF wf1 v1, of rg] epoch_lost_pending_safe [OF wf1 v1]
    by (simp add: epoch_conn_def Let_def)
qed

lemma server_handleEpoch_safe: "srv_wf s \<Longrightarrow> safe (server_handleEpoch rg s)"
  unfolding server_handleEpoch_def
  by (rule safe_andthen [OF safe_loop [OF epoch_ban_safe] safe_loop [OF epoch_conn_safe]])

lemma close_drop_safe:
  assumes wf: "srv_wf s" and v: "fmlookup (s_conn s) i = Some v" and p: "\<not> mhas (s_pendconn s) i"
  shows "\<exists>s'. close_drop i v s = Some s' \<and> srv_wf s'"
proof -
  obtain b where b: "caddr v = Some b" using srv_wfD(3) [OF wf v] by blast
  have "fmlookup (s_pendconn s) i = None" using p by (simp add: mhas_def)
  then show ?thesis using b by (auto simp: close_drop_def intro!: srv_wf_drop [OF wf v b])
qed

lemma srv_wf_closepend:
  assumes wf: "srv_wf s" and v: "fmlookup (s_conn s) i = Some v" and p: "\<not> mhas (s_pendconn s) i"
  shows "srv_wf (s\<lparr>s_closepend := fmupd i True (s_closepend s)\<rparr>)"
proof (rule srv_wfI)
  note D = srv_wfD [OF wf]
  let ?s = "s\<lparr>s_closepend := fmupd i True (s_closepend s)\<rparr>"
  show "k = 1 \<and> \<not> mget False (s_closepend ?s) j \<and>
      (\<exists>u. fmlookup (s_conn ?s) j = Some u \<and> \<not> estab u \<and> writebuf u = fmempty)"
    if "fmlookup (s_pendconn ?s) j = Some k" for j k
    using that D(5) [of j k] p by (auto simp: mhas_def)
  show "mhas (s_conn ?s) j" if "mget False (s_closepend ?s) j" for j
    using that D(6) [of j] v by (auto simp: mhas_def split: if_splits)
  show "1 \<le> j \<and> j < s_connCt ?s \<and> params u = s_initparams ?s \<and> mhas (s_sendct ?s) j \<and> mhas (s_readct ?s) j"
    if "fmlookup (s_conn ?s) j = Some u" for j u
    using that D(2) [of j u] by simp
  show "\<exists>a. caddr u = Some a \<and> fmlookup (s_addmap ?s) a = Some j" if "fmlookup (s_conn ?s) j = Some u" for j u
    using that D(3) [of j u] by simp
  show "\<exists>u. fmlookup (s_conn ?s) j = Some u \<and> caddr u = Some a" if "fmlookup (s_addmap ?s) a = Some j" for a j
    using that D(4) [of a j] by simp
  show "j < s_connCt ?s \<and> \<not> mhas (s_conn ?s) j" if "mhas (s_banclose ?s) j" for j
    using that D(7) [of j] by simp
qed (use srv_wfD(1) [OF wf] in simp)

lemma close_mark_safe:
  assumes wf: "srv_wf s"
  shows "safe (close_mark i s)"
proof (cases "fmlookup (s_conn s) i")
  case None
  then show ?thesis using wf by (simp add: close_mark_def)
next
  case (Some v)
  have p: "\<not> estab v \<and> writebuf v = fmempty" if "mhas (s_pendconn s) i"
    using that srv_wfD(5) [OF wf, of i] Some by (auto simp: mhas_def)
  show ?thesis
  proof (cases "mhas (s_pendconn s) i")
    case True
    then show ?thesis using p wf Some by (simp add: close_mark_def)
  next
    case False
    then show ?thesis
      using wf Some srv_wf_closepend [OF wf Some False] close_drop_safe [OF wf Some False]
      by (auto simp: close_mark_def)
  qed
qed

lemma close_check_safe: "srv_wf s \<Longrightarrow> \<exists>s' flag. close_check is s = Some (s', flag) \<and> srv_wf s'"
proof (induction "is" s rule: close_check.induct)
  case (1 s)
  then show ?case by auto
next
  case (2 i "is" s)
  show ?case
  proof (cases "fmlookup (s_conn s) i")
    case None
    then show ?thesis using "2.IH"(1) "2.prems" by simp
  next
    case (Some v)
    consider "\<not> mget False (s_closepend s) i"
      | "mget False (s_closepend s) i" "mget False (s_closeack s) i"
      | "mget False (s_closepend s) i" "\<not> mget False (s_closeack s) i" by blast
    then show ?thesis
    proof cases
      case 1
      then show ?thesis using "2.IH"(3) [OF Some] "2.prems" Some by simp
    next
      case 2
      have "\<not> mhas (s_pendconn s) i"
        using 2 srv_wfD(5) [OF "2.prems", of i] by (cases "fmlookup (s_pendconn s) i") (auto simp: mhas_def)
      then obtain t where t: "close_drop i v s = Some t" "srv_wf t"
        using close_drop_safe [OF "2.prems" Some] by blast
      then show ?thesis using "2.IH"(2) [OF Some 2 t(1)] Some 2 by simp
    next
      case 3
      then show ?thesis using "2.prems" Some by auto
    qed
  qed
qed

lemma handle_sclose_safe:
  assumes wf: "srv_wf s"
  shows "safe (handle_sclose rg s)"
  unfolding handle_sclose_def
proof (rule safe_andthen [OF safe_loop [OF close_mark_safe]])
  show "srv_wf (s\<lparr>s_banclose := fmempty\<rparr>)" by (rule srv_wf_frame [OF wf]) simp_all
  show "safe (case close_check (o_conn2 rg) t of None \<Rightarrow> None
      | Some (s2, flag) \<Rightarrow> Some (s2, if flag then [Over (Pkt None None 5)] else []))" if "srv_wf t" for t
    using close_check_safe [OF that, of "o_conn2 rg"] by auto
qed

lemma handle_closeconn_safe:
  assumes wf: "srv_wf s"
  shows "safe (handle_closeconn rg m s)"
proof (cases "fmlookup (s_conn s) (ConnID m)")
  case None
  then show ?thesis using wf by (simp add: handle_closeconn_def)
next
  case (Some v)
  obtain b where b: "caddr v = Some b" using srv_wfD(3) [OF wf Some] by blast
  show ?thesis
  proof (cases "mhas (s_pendconn s) (ConnID m)")
    case True
    then have c: "\<not> mget False (s_closepend s) (ConnID m)"
      using srv_wfD(5) [OF wf] by (auto simp: mhas_def)
    then show ?thesis using True Some b
      by (auto simp: handle_closeconn_def intro!: srv_wf_drop [OF wf Some b] split: if_splits)
  next
    case False
    let ?p = "Pkt (Some m) (caddr v) 2"
    have "safe (server_handleclosecon rg ?p s)"
      by (rule handleclosecon_safe [OF wf _ Some]) (use False in simp_all)
    then have "safe (andthen (Some (s, [Closeans ?p])) (server_handleclosecon rg ?p))"
      by (intro safely_andthen [where P = "\<lambda>t. t = s"]) auto
    then show ?thesis using False Some by (simp add: handle_closeconn_def Let_def)
  qed
qed

section \<open>Reading, writing and receiving\<close>

lemma handle_sread_safe:
  assumes wf: "srv_wf s"
  shows "safe (handle_sread rg s)"
proof (cases "find (read_ready s) (o_conn rg)")
  case None
  then show ?thesis using wf by (simp add: handle_sread_def)
next
  case (Some i)
  obtain v m where v: "fmlookup (s_conn s) i = Some v" using read_ready_find [OF Some] .
  have "\<not> mhas (s_pendconn s) i" using Some v by (auto simp: find_Some_iff read_ready_def)
  then have "srv_wf ((set_conn i (take_read n v) s)\<lparr>s_readct := fmupd i k (s_readct s)\<rparr>)" for n k
    by (intro srv_wf_set_conn [OF wf v, where v' = "take_read n v"]) auto
  then show ?thesis using Some v by (simp add: handle_sread_def Let_def)
qed

lemma handle_swrite_safe:
  assumes wf: "srv_wf s" and p: "\<not> mhas (s_pendconn s) (ConnID m)"
  shows "safe (handle_swrite m s)"
proof (cases "fmlookup (s_conn s) (ConnID m)")
  case None
  then show ?thesis using wf by (simp add: handle_swrite_def)
next
  case (Some v)
  have "srv_wf ((set_conn (ConnID m) (fst (enqueue n x v)) s)\<lparr>s_sendct := fmupd (ConnID m) k (s_sendct s)\<rparr>)" for n x k
    by (rule srv_wf_set_conn [OF wf Some, where v' = "fst (enqueue n x v)"]) (use p in simp_all)
  then show ?thesis using Some wf
    by (simp add: handle_swrite_def server_handleWrite_def Let_def split_beta)
qed

lemma confirm_safe:
  assumes wf: "srv_wf s" and p: "mhas (s_pendconn s) i"
  obtains s' where "confirm i s = Some s'" and "srv_wf s'" and "\<not> mhas (s_pendconn s') i"
proof -
  obtain v where v: "fmlookup (s_conn s) i = Some v"
    using p srv_wfD(5) [OF wf] by (auto simp: mhas_def)
  let ?s1 = "s\<lparr>s_pendconn := fmdrop i (s_pendconn s)\<rparr>"
  have wf1: "srv_wf ?s1"
  proof (rule srv_wfI)
    note D = srv_wfD [OF wf]
    show "1 \<le> j \<and> j < s_connCt ?s1 \<and> params u = s_initparams ?s1 \<and> mhas (s_sendct ?s1) j \<and> mhas (s_readct ?s1) j"
      if "fmlookup (s_conn ?s1) j = Some u" for j u
      using that D(2) [of j u] by simp
    show "\<exists>a. caddr u = Some a \<and> fmlookup (s_addmap ?s1) a = Some j" if "fmlookup (s_conn ?s1) j = Some u" for j u
      using that D(3) [of j u] by simp
    show "\<exists>u. fmlookup (s_conn ?s1) j = Some u \<and> caddr u = Some a" if "fmlookup (s_addmap ?s1) a = Some j" for a j
      using that D(4) [of a j] by simp
    show "k = 1 \<and> \<not> mget False (s_closepend ?s1) j \<and>
        (\<exists>u. fmlookup (s_conn ?s1) j = Some u \<and> \<not> estab u \<and> writebuf u = fmempty)"
      if "fmlookup (s_pendconn ?s1) j = Some k" for j k
      using that D(5) [of j k] by (simp split: if_splits)
    show "mhas (s_conn ?s1) j" if "mget False (s_closepend ?s1) j" for j
      using that D(6) [of j] by simp
    show "j < s_connCt ?s1 \<and> \<not> mhas (s_conn ?s1) j" if "mhas (s_banclose ?s1) j" for j
      using that D(7) [of j] by simp
  qed (use srv_wfD(1) [OF wf] in simp)
  have "srv_wf (set_conn i (v\<lparr>estab := True, losted := False\<rparr>) ?s1)"
    by (rule srv_wf_set_conn [OF wf1, where v' = "v\<lparr>estab := True, losted := False\<rparr>" and v = v]) (use v in auto)
  then show thesis using that v by (simp add: confirm_def Let_def)
qed

lemma recv_connect_safe:
  assumes wf: "srv_wf s" and pa: "pa = Some a"
  shows "safe (recv_connect pa s)"
proof (cases "fmlookup (s_addmap s) a")
  case None
  note D = srv_wfD [OF wf]
  let ?i = "s_connCt s" and ?cc = "(NewConnection (s_initparams s))\<lparr>caddr := pa, seq := 1\<rparr>"
  let ?s = "s\<lparr>s_addmap := fmupd a ?i (s_addmap s), s_conn := fmupd ?i ?cc (s_conn s),
     s_closepend := fmupd ?i False (s_closepend s), s_closeack := fmupd ?i False (s_closeack s),
     s_readct := fmupd ?i 1 (s_readct s), s_pendconn := fmupd ?i 1 (s_pendconn s),
     s_sendct := fmupd ?i 1 (s_sendct s), s_connCt := ?i + 1\<rparr>"
  have fresh: "fmlookup (s_conn s) ?i = None"
    using D(2) [of ?i] by (cases "fmlookup (s_conn s) ?i") auto
  have "srv_wf ?s"
  proof (rule srv_wfI)
    show "1 \<le> s_connCt ?s" using D(1) by simp
    show "1 \<le> j \<and> j < s_connCt ?s \<and> params u = s_initparams ?s \<and> mhas (s_sendct ?s) j \<and> mhas (s_readct ?s) j"
      if "fmlookup (s_conn ?s) j = Some u" for j u
      using that D(1) D(2) [of j u] by (cases "j = ?i") auto
    show "\<exists>b. caddr u = Some b \<and> fmlookup (s_addmap ?s) b = Some j" if u: "fmlookup (s_conn ?s) j = Some u" for j u
    proof (cases "j = ?i")
      case True
      then have "caddr u = Some a" using u pa by auto
      then show ?thesis using True by auto
    next
      case False
      then obtain b where b: "caddr u = Some b" "fmlookup (s_addmap s) b = Some j"
        using u D(3) [of j u] by auto
      then have "b \<noteq> a" using None by auto
      then show ?thesis using b by simp
    qed
    show "\<exists>u. fmlookup (s_conn ?s) j = Some u \<and> caddr u = Some b" if "fmlookup (s_addmap ?s) b = Some j" for b j
      using that D(4) [of b j] fresh pa by (cases "b = a"; cases "j = ?i") auto
    show "k = 1 \<and> \<not> mget False (s_closepend ?s) j \<and>
        (\<exists>u. fmlookup (s_conn ?s) j = Some u \<and> \<not> estab u \<and> writebuf u = fmempty)"
      if "fmlookup (s_pendconn ?s) j = Some k" for j k
      using that D(5) [of j k] by (cases "j = ?i") auto
    show "mhas (s_conn ?s) j" if "mget False (s_closepend ?s) j" for j
      using that D(6) [of j] by (cases "j = ?i") auto
    show "j < s_connCt ?s \<and> \<not> mhas (s_conn ?s) j" if "mhas (s_banclose ?s) j" for j
      using that D(7) [of j] by auto
  qed
  then show ?thesis using None pa by (simp add: recv_connect_def Let_def)
next
  case (Some j)
  obtain v where v: "fmlookup (s_conn s) j = Some v" using srv_wfD(4) [OF wf Some] by blast
  have "\<not> mhas (s_pendconn s) j \<Longrightarrow> srv_wf (set_conn j (v\<lparr>lastrece := receive v\<rparr>) s)"
    by (rule srv_wf_set_conn [OF wf v, where v' = "v\<lparr>lastrece := receive v\<rparr>"]) simp_all
  then show ?thesis using wf pa Some v by (simp add: recv_connect_def Let_def)
qed

lemma recv_data_safe:
  assumes wf: "srv_wf s"
  shows "safe (recv_data m s)"
proof -
  let ?i = "ConnID m"
  obtain s1 ok2 where r: "(if SeqNum m > 0 \<and> mhas (s_pendconn s) ?i
      then map_option (\<lambda>s'. (s', False)) (confirm ?i s) else Some (s, mhas (s_pendconn s) ?i)) = Some (s1, ok2)"
    and wf1: "srv_wf s1" and ok: "\<not> ok2 \<Longrightarrow> \<not> mhas (s_pendconn s1) ?i"
  proof (cases "SeqNum m > 0 \<and> mhas (s_pendconn s) ?i")
    case True
    then obtain s' where "confirm ?i s = Some s'" "srv_wf s'" "\<not> mhas (s_pendconn s') ?i"
      using confirm_safe [OF wf] by blast
    then show thesis using that [of s' False] True by simp
  next
    case False
    then show thesis using that [of s "mhas (s_pendconn s) ?i"] wf by auto
  qed
  have step: "srv_wf (set_conn ?i (fst (accept_data ?i m (v\<lparr>lastrece := receive v\<rparr>))) s1)"
    if "fmlookup (s_conn s1) ?i = Some v" "\<not> ok2" for v
    by (rule srv_wf_set_conn [OF wf1 that(1),
          where v' = "fst (accept_data ?i m (v\<lparr>lastrece := receive v\<rparr>))"]) (use ok that(2) in simp_all)
  show ?thesis
    using r wf1 step
    by (cases "fmlookup (s_conn s1) ?i") (simp_all add: recv_data_def Let_def split_beta)
qed

lemma recv_ack_window_safe:
  assumes wf: "srv_wf s" and ok: "\<not> ok2 \<Longrightarrow> \<not> mhas (s_pendconn s) (ConnID m)"
  shows "safe (recv_ack_window m ok2 s)"
proof (cases "fmlookup (s_conn s) (ConnID m)")
  case None
  then show ?thesis using wf by (simp add: recv_ack_window_def)
next
  case (Some v)
  have "srv_wf (set_conn (ConnID m) v' s)" if "caddr v' = caddr v" "params v' = params v" "\<not> ok2" for v'
    by (rule srv_wf_set_conn [OF wf Some, where v' = v']) (use that ok in simp_all)
  then show ?thesis using wf Some
    by (simp add: recv_ack_window_def Let_def split_beta)
qed

lemma recv_ack_ban_safe:
  assumes wf: "srv_wf s" and f: "fmlookup (s_banclose s) (ConnID m) = Some f"
  shows "safe (recv_ack_ban m f s)"
proof -
  have "srv_wf (s\<lparr>s_banclose := fmdrop (ConnID m) (s_banclose s)\<rparr>)"
    "srv_wf (s\<lparr>s_banclose := fmupd (ConnID m) f' (s_banclose s)\<rparr>)" for f'
    by (rule srv_wf_frame [OF wf]; use f in \<open>auto simp: mhas_def split: if_splits\<close>)+
  then show ?thesis by (simp add: recv_ack_ban_def Let_def)
qed

lemma recv_ack_safe:
  assumes wf: "srv_wf s"
  shows "safe (recv_ack m s)"
proof (cases "if \<not> mhas (s_pendconn s) (ConnID m) \<and> SeqNum m = 0 then fmlookup (s_conn s) (ConnID m) else None")
  case (Some v)
  then have v: "fmlookup (s_conn s) (ConnID m) = Some v" "\<not> mhas (s_pendconn s) (ConnID m)"
    by (simp_all split: if_splits)
  have "srv_wf (set_conn (ConnID m) (v\<lparr>lastrece := receive v\<rparr>) s)"
    by (rule srv_wf_set_conn [OF wf v(1), where v' = "v\<lparr>lastrece := receive v\<rparr>"]) (use v in simp_all)
  then show ?thesis using Some by (simp add: recv_ack_def Let_def)
next
  case None
  note first = this
  show ?thesis
  proof (cases "fmlookup (s_banclose s) (ConnID m)")
    case (Some f)
    then show ?thesis using first recv_ack_ban_safe [OF wf Some] by (simp add: recv_ack_def Let_def)
  next
    case None
    show ?thesis
    proof (cases "SeqNum m > 0 \<and> mhas (s_pendconn s) (ConnID m)")
      case True
      then obtain s' where "confirm (ConnID m) s = Some s'" "srv_wf s'" "\<not> mhas (s_pendconn s') (ConnID m)"
        using confirm_safe [OF wf] by blast
      then show ?thesis using True None recv_ack_window_safe [of s' False m] by (simp add: recv_ack_def Let_def)
    next
      case False
      then show ?thesis
        using first None recv_ack_window_safe [OF wf, of "mhas (s_pendconn s) (ConnID m)" m]
        by (auto simp: recv_ack_def Let_def)
    qed
  qed
qed

lemma server_handleReceive_safe:
  assumes wf: "srv_wf s" and p: "msg pak \<noteq> None" "paddr pak \<noteq> None"
  shows "safe (server_handleReceive pak s)"
proof -
  obtain m a where m: "msg pak = Some m" and a: "paddr pak = Some a" using p by blast
  have ack: "srv_wf (s\<lparr>s_closeack := x\<rparr>)" for x by (rule srv_wf_frame [OF wf]) simp_all
  have go: "safe (case Type m of MsgConnect \<Rightarrow> recv_connect (paddr pak) s | MsgData \<Rightarrow> recv_data m s
      | MsgAck \<Rightarrow> recv_ack m s | MsgTypeOther _ \<Rightarrow> Some (s, []))"
    using wf recv_connect_safe [OF wf a] recv_data_safe [OF wf] recv_ack_safe [OF wf]
    by (simp split: MsgType.split)
  show ?thesis
  proof (cases "mget False (s_closepend s) (ConnID m)")
    case False
    then show ?thesis using m go by (simp add: server_handleReceive_def Let_def)
  next
    case True
    then obtain v where "fmlookup (s_conn s) (ConnID m) = Some v"
      using srv_wfD(6) [OF wf] by (auto simp: mhas_def)
    then show ?thesis using m go wf ack True recv_ack_safe [OF wf]
      by (simp add: server_handleReceive_def Let_def split: bool.split)
  qed
qed

section \<open>No panic\<close>

text \<open>
  The packets that the program puts into \<open>req\<close>: those of the API and of \<open>connectHandler\<close> carry a
  message, and those of \<open>connectHandler\<close> the address it came from.
\<close>

fun move_ok :: "server \<Rightarrow> server_move \<Rightarrow> bool" where
  "move_ok s (SPacket rg p) \<longleftrightarrow>
     (contype p \<in> {closeconn, swrite, receive_kind} \<longrightarrow> msg p \<noteq> None) \<and>
     (contype p = receive_kind \<longrightarrow> paddr p \<noteq> None) \<and>
     (contype p = swrite \<longrightarrow> (case msg p of None \<Rightarrow> True | Some m \<Rightarrow> \<not> mhas (s_pendconn s) (ConnID m)))"
| "move_ok s SCloseStart \<longleftrightarrow> True"
| "move_ok s (SCloseFinish x) \<longleftrightarrow> True"

lemma server_step_safe:
  assumes wf: "srv_wf s" and ok: "move_ok s i"
  shows "safe (server_step i s)"
proof (cases i)
  case (SPacket rg p)
  consider "contype p = receive_kind" | "contype p = swrite" | "contype p = closeconn"
    | "contype p \<notin> {receive_kind, swrite, closeconn}" by blast
  then show ?thesis
  proof cases
    case 1
    then show ?thesis using server_handleReceive_safe [OF wf, of p] ok SPacket by (simp add: server_handle_def)
  next
    case 2
    then obtain m where "msg p = Some m" using ok SPacket by auto
    then show ?thesis using 2 handle_swrite_safe [OF wf] ok SPacket by (simp add: server_handle_def)
  next
    case 3
    then obtain m where "msg p = Some m" using ok SPacket by auto
    then show ?thesis using 3 handle_closeconn_safe [OF wf] SPacket by (simp add: server_handle_def)
  next
    case 4
    then show ?thesis
      using wf handle_sclose_safe [OF wf] handle_sread_safe [OF wf] server_handleEpoch_safe [OF wf] SPacket
      by (simp add: server_handle_def)
  qed
next
  case SCloseStart
  have "srv_wf (s\<lparr>s_readclose := True\<rparr>)" by (rule srv_wf_frame [OF wf]) simp_all
  then show ?thesis using SCloseStart by (simp add: server_Close_start_def)
next
  case (SCloseFinish x)
  have "srv_wf (s\<lparr>s_estab := False\<rparr>)" by (rule srv_wf_frame [OF wf]) simp_all
  then show ?thesis using SCloseFinish wf by (simp add: server_Close_finish_def)
qed

text \<open>Messages stay filed under their connection.\<close>

lemma server_step_tags:
  assumes wf: "srv_wf s" and t: "srv_tags s" and st: "server_step i s = Some (s', es)"
  shows "srv_tags s'"
proof -
  define c where "c = (if closes_conn 0 i then - 1 else (0::int))"
  have c: "c < s_connCt s" "\<not> closes_conn c i"
    using srv_wfD(1) [OF wf] by (auto simp: c_def elim!: closes_conn.elims split: option.splits)
  have none: "fmlookup (s_conn s) c = None"
    using srv_wfD(2) [OF wf, of c] by (cases "fmlookup (s_conn s) c") (auto simp: c_def split: if_splits)
  have none1: "fmlookup (s_conn u) c = None" if "q_from c s u" for u
    using that none by (cases "fmlookup (s_conn u) c") (auto simp: q_from_def s_quiet_def)
  show ?thesis
    using t c(1) st c(2)
  proof (cases rule: server_step_cases)
    case quiet
    then show ?thesis by (simp add: q_from_def)
  next
    case (data s1 v m)
    then show ?thesis using none1 by simp
  next
    case (ack s1 v m)
    then show ?thesis using none1 by simp
  qed (use none in simp_all)
qed

text \<open>The states a server can reach.\<close>

inductive server_reach :: "Params \<Rightarrow> server \<Rightarrow> bool" for parm where
  reach_new: "NewServer resolved listening parm = Some s \<Longrightarrow> server_reach parm s"
| reach_move: "server_reach parm s \<Longrightarrow> move_ok s i \<Longrightarrow> server_step i s = Some (s', es) \<Longrightarrow>
    server_reach parm s'"

lemma NewServer_new: "NewServer resolved listening parm = Some s \<Longrightarrow> \<exists>lc. s = (new_server parm)\<lparr>s_listenconn := lc\<rparr>"
  by (auto simp: NewServer_def Let_def split: prod.splits if_splits)

lemma server_reach_wf: "server_reach parm s \<Longrightarrow> srv_wf s \<and> srv_tags s"
proof (induction rule: server_reach.induct)
  case (reach_new resolved listening s)
  then obtain lc where s: "s = (new_server parm)\<lparr>s_listenconn := lc\<rparr>" using NewServer_new by blast
  have "srv_wf s" unfolding s by (rule srv_wf_frame [OF srv_wf_new]) simp_all
  then show ?case by (simp add: s srv_tags_def new_server_def)
next
  case (reach_move s i s' es)
  then show ?case using server_step_safe [of s i] server_step_tags [of s i s' es] by simp
qed

text \<open>A \<open>Connect\<close> from a new address opens a connection that is ready for a link.\<close>

lemma recv_connect_fresh:
  assumes wf: "srv_wf s" and t: "srv_tags s" and a: "fmlookup (s_addmap s) a = None"
    and W: "1 \<le> WindowSize (s_initparams s)"
  obtains s' where "recv_connect (Some a) s = Some (s', [Ssend (NewAck (s_connCt s) 0) a])"
    and "server_fresh (s_connCt s) (WindowSize (s_initparams s)) s'" and "mhas (s_pendconn s') (s_connCt s)"
    and "s_connCt s' = s_connCt s + 1" and "fmlookup (s_addmap s') a = Some (s_connCt s)"
proof -
  let ?i = "s_connCt s"
  obtain s' where s': "recv_connect (Some a) s = Some (s', [Ssend (NewAck ?i 0) a])"
    "s_conn s' = fmupd ?i ((NewConnection (s_initparams s))\<lparr>caddr := Some a, seq := 1\<rparr>) (s_conn s)"
    "s_readct s' = fmupd ?i 1 (s_readct s)" "s_sendct s' = fmupd ?i 1 (s_sendct s)"
    "s_banclose s' = s_banclose s" "s_connCt s' = ?i + 1" "s_pendconn s' = fmupd ?i 1 (s_pendconn s)"
    "s_addmap s' = fmupd a ?i (s_addmap s)"
    using a by (simp add: recv_connect_def Let_def ssend_def)
  have "\<not> mhas (s_banclose s) ?i" using srv_wfD(7) [OF wf, of ?i] by auto
  moreover have "srv_tags s'" using t s'(2,5) by (auto simp: srv_tags_def conn_tags_def)
  ultimately have "server_fresh ?i (WindowSize (s_initparams s)) s'"
    using W s' by (simp add: server_fresh_def)
  then show thesis using that s' by simp
qed

end
