(* ===== verification/LspStreams.thy ===== *)
theory LspStreams
  imports LspClientLink LspServerSafe
begin

text \<open>
  Client and server put together. \<open>up\<close> is the direction from the client to the server, \<open>down\<close> the
  one from the server to the client; both are instances of \<open>reliable_link\<close>, for a receiver whose
  window is at least as large as the sender's. The lemmas below read the invariant of the link in
  terms of the two states: what has been handed over, what has arrived, what is in flight.
\<close>

type_synonym up_link = "(client, server) link"
type_synonym down_link = "(server, client) link"

abbreviation up_reach :: "int \<Rightarrow> client \<Rightarrow> server \<Rightarrow> up_link \<Rightarrow> bool" where
  "up_reach cid \<equiv> link_reach client_sstep (server_rstep cid)"

abbreviation down_reach :: "int \<Rightarrow> server \<Rightarrow> client \<Rightarrow> down_link \<Rightarrow> bool" where
  "down_reach cid \<equiv> link_reach (server_sstep cid) client_rstep"

interpretation up: reliable_link client_sstep "client_sinv cid W" "server_rstep cid"
    "server_rinv cid (W + int d)" cid W "W + int d" for cid W d
  by unfold_locales simp

interpretation down: reliable_link "server_sstep cid" "server_sinv cid W" client_rstep
    "client_rinv cid (W + int d)" cid W "W + int d" for cid W d
  by unfold_locales simp

section \<open>The invariant of each direction\<close>

lemma up_inv:
  assumes r: "up_reach cid c0 s0 l" and c: "client_fresh cid W c0" and s: "server_fresh cid (W + int d) s0"
  obtains A lo R k where "client_sinv cid W (l_hist l) A lo (l_snd l)"
    and "server_rinv cid (W + int d) (l_hist l) R k (l_rcv l)" and "A \<subseteq> R"
    and "l_out l = take (nat (k - 1)) (l_hist l)"
  using up.acknowledged_arrived [OF r client_fresh_inv(1) [OF c] server_fresh_inv(2) [OF s]] .

lemma down_inv:
  assumes r: "down_reach cid s0 c0 l" and s: "server_fresh cid W s0" and c: "client_fresh cid (W + int d) c0"
  obtains A lo R k where "server_sinv cid W (l_hist l) A lo (l_snd l)"
    and "client_rinv cid (W + int d) (l_hist l) R k (l_rcv l)" and "A \<subseteq> R"
    and "l_out l = take (nat (k - 1)) (l_hist l)"
  using down.acknowledged_arrived [OF r server_fresh_inv(1) [OF s] client_fresh_inv(2) [OF c]] .

lemma up_prefix:
  assumes "up_reach cid c0 s0 l" and "client_fresh cid W c0" and "server_fresh cid (W + int d) s0"
  shows "\<exists>n. l_out l = take n (l_hist l)"
  using up_inv [OF assms] by blast

lemma down_prefix:
  assumes "down_reach cid s0 c0 l" and "server_fresh cid W s0" and "client_fresh cid (W + int d) c0"
  shows "\<exists>n. l_out l = take n (l_hist l)"
  using down_inv [OF assms] by blast

lemma up_queue:
  assumes "up_reach cid c0 s0 l" and "client_fresh cid W c0" and "server_fresh cid (W + int d) s0"
    and "link_step client_sstep (server_rstep cid) l l'"
  shows "queue_step (link_event l l') (link_queue l) (link_queue l')"
  by (rule up.queue_refined [OF assms(1) client_fresh_inv(1) [OF assms(2)] server_fresh_inv(2) [OF assms(3)] assms(4)])

lemma down_queue:
  assumes "down_reach cid s0 c0 l" and "server_fresh cid W s0" and "client_fresh cid (W + int d) c0"
    and "link_step (server_sstep cid) client_rstep l l'"
  shows "queue_step (link_event l l') (link_queue l) (link_queue l')"
  by (rule down.queue_refined [OF assms(1) server_fresh_inv(1) [OF assms(2)] client_fresh_inv(2) [OF assms(3)] assms(4)])

text \<open>A message that has arrived has been handed over, or waits in the read buffer.\<close>

lemma rcv_inv_arrived:
  assumes "rcv_inv cid h R k v" and "n \<in> R"
  shows "n < k \<or> fmlookup (readbuf v) n = Some (wmsg cid h n)"
proof -
  have "n < k \<or> mhas (readbuf v) n" using rcv_invD(8) [OF assms(1), of n] assms(2) by auto
  then show ?thesis using rcv_invD(9) [OF assms(1), of n] by (auto simp: mhas_def)
qed

lemma up_arrived:
  assumes r: "up_reach cid c0 s0 l" and c: "client_fresh cid W c0" and s: "server_fresh cid (W + int d) s0"
    and n: "1 \<le> n" "n \<le> int (length (l_hist l))"
    and gone: "\<not> mhas (databuf (c_conn (l_snd l))) n" "\<not> mhas (writebuf (c_conn (l_snd l))) n"
    and v: "fmlookup (s_conn (l_rcv l)) cid = Some v"
  shows "n \<le> int (length (l_out l)) \<or> fmlookup (readbuf v) n = Some (wmsg cid (l_hist l) n)"
proof -
  obtain A lo R k where inv: "client_sinv cid W (l_hist l) A lo (l_snd l)"
    "server_rinv cid (W + int d) (l_hist l) R k (l_rcv l)" "A \<subseteq> R"
    "l_out l = take (nat (k - 1)) (l_hist l)"
    using up_inv [OF r c s] .
  have snd: "snd_inv cid (l_hist l) A (c_sendct (l_snd l)) (c_conn (l_snd l))"
    using inv(1) by (simp add: client_sinv_def c_snd_inv_def)
  have "n \<in> A" using snd_invD(8) [OF snd n(1)] snd_invD(1) [OF snd] n(2) gone by simp
  then have "n < k \<or> fmlookup (readbuf v) n = Some (wmsg cid (l_hist l) n)"
    using rcv_inv_arrived [OF server_rinvD(5) [OF inv(2) v]] inv(3) by blast
  moreover have "int (length (l_out l)) = k - 1"
    using inv(4) server_rinvD(3) [OF inv(2)] by (simp add: min_def) linarith
  ultimately show ?thesis by auto
qed

lemma down_arrived:
  assumes r: "down_reach cid s0 c0 l" and s: "server_fresh cid W s0" and c: "client_fresh cid (W + int d) c0"
    and n: "1 \<le> n" "n \<le> int (length (l_hist l))"
    and v: "fmlookup (s_conn (l_snd l)) cid = Some v"
    and gone: "\<not> mhas (databuf v) n" "\<not> mhas (writebuf v) n"
  shows "n \<le> int (length (l_out l)) \<or>
    fmlookup (readbuf (c_conn (l_rcv l))) n = Some (wmsg cid (l_hist l) n)"
proof -
  obtain A lo R k where inv: "server_sinv cid W (l_hist l) A lo (l_snd l)"
    "client_rinv cid (W + int d) (l_hist l) R k (l_rcv l)" "A \<subseteq> R"
    "l_out l = take (nat (k - 1)) (l_hist l)"
    using down_inv [OF r s c] .
  note snd = server_sinvD(6) [OF inv(1) v]
  have "n \<in> A" using snd_invD(8) [OF snd n(1)] snd_invD(1) [OF snd] n(2) gone by simp
  moreover have rcv: "rcv_inv cid (l_hist l) R k (c_conn (l_rcv l))" and k: "k \<le> int (length (l_hist l)) + 1"
    using inv(2) by (simp_all add: client_rinv_def c_rcv_inv_def)
  ultimately have "n < k \<or> fmlookup (readbuf (c_conn (l_rcv l))) n = Some (wmsg cid (l_hist l) n)"
    using rcv_inv_arrived [OF rcv] inv(3) by blast
  moreover have "int (length (l_out l)) = k - 1"
    using inv(4) k rcv_invD(3) [OF rcv] by (simp add: min_def) linarith
  ultimately show ?thesis by auto
qed

text \<open>The window bounds what is in flight.\<close>

lemma up_in_flight:
  assumes "up_reach cid c0 s0 l" and "client_fresh cid W c0" and "server_fresh cid (W + int d) s0"
  shows "mlen (databuf (c_conn (l_snd l))) \<le> nat W \<and>
    (\<forall>n. mhas (databuf (c_conn (l_snd l))) n \<longrightarrow>
       seq (c_conn (l_snd l)) \<le> n \<and> n < seq (c_conn (l_snd l)) + W \<and> n < c_sendct (l_snd l))"
proof -
  obtain A lo R k where inv: "client_sinv cid W (l_hist l) A lo (l_snd l)"
    "server_rinv cid (W + int d) (l_hist l) R k (l_rcv l)" "A \<subseteq> R"
    "l_out l = take (nat (k - 1)) (l_hist l)"
    using up_inv [OF assms] .
  have snd: "snd_inv cid (l_hist l) A (c_sendct (l_snd l)) (c_conn (l_snd l))"
    and W: "W = WindowSize (params (c_conn (l_snd l)))"
    using inv(1) by (simp_all add: client_sinv_def c_snd_inv_def)
  show ?thesis
    using snd_inv_in_flight [OF snd] snd_invD(6) [OF snd] W by (auto simp: mhas_def)
qed

lemma down_in_flight:
  assumes "down_reach cid s0 c0 l" and "server_fresh cid W s0" and "client_fresh cid (W + int d) c0"
    and v: "fmlookup (s_conn (l_snd l)) cid = Some v"
  shows "mlen (databuf v) \<le> nat W \<and>
    (\<forall>n. mhas (databuf v) n \<longrightarrow> seq v \<le> n \<and> n < seq v + W \<and> n < mget 0 (s_sendct (l_snd l)) cid)"
proof -
  obtain A lo R k where inv: "server_sinv cid W (l_hist l) A lo (l_snd l)"
    "client_rinv cid (W + int d) (l_hist l) R k (l_rcv l)" "A \<subseteq> R"
    "l_out l = take (nat (k - 1)) (l_hist l)"
    using down_inv [OF assms(1-3)] .
  note snd = server_sinvD(6) [OF inv(1) v]
  show ?thesis
    using snd_inv_in_flight [OF snd] snd_invD(6) [OF snd] server_sinvD(7) [OF inv(1) v]
    by (auto simp: mhas_def)
qed

end
