(* ===== verification/LspClientSafe.thy ===== *)
theory LspClientSafe
  imports LspClientLink
begin

text \<open>
  The life of a client: the handshake (\<open>NewClient\<close> until \<open>build\<close>), the detection of a lost server,
  and what \<open>Close\<close> waits for.
\<close>

section \<open>The states a client can reach\<close>

text \<open>
  The packets carry what the program puts into them, and the application does not write any more
  once it has called \<open>Close\<close>.
\<close>

fun cmove_ok :: "client \<Rightarrow> client_input \<Rightarrow> bool" where
  "cmove_ok c (CPacket oa od p) \<longleftrightarrow>
     (contype p \<in> {cwrite, receive_kind} \<longrightarrow> msg p \<noteq> None) \<and> (contype p = cwrite \<longrightarrow> \<not> c_closepend c)"
| "cmove_ok c CBuilt \<longleftrightarrow> c_conId c \<noteq> 0 \<and> \<not> estab (c_conn c)"
| "cmove_ok c (CClosed x) \<longleftrightarrow> True"

inductive client_reach :: "Params \<Rightarrow> client \<Rightarrow> bool" for parm where
  creach_new: "NewClient_start resolved dialled parm = Some (c, es) \<Longrightarrow> client_reach parm c"
| creach_move: "client_reach parm c \<Longrightarrow> cmove_ok c i \<Longrightarrow> client_step i c = Some (c', es) \<Longrightarrow>
    client_reach parm c'"

text \<open>The handler does not panic.\<close>

lemma client_step_total:
  assumes "cmove_ok c i"
  shows "client_step i c \<noteq> None"
proof (cases i)
  case (CPacket oa od p)
  then show ?thesis using assms by (auto simp: client_handle_def)
next
  case CBuilt
  then show ?thesis by (simp add: NewClient_wait_def)
qed simp

section \<open>Closing\<close>

text \<open>\<open>closeack\<close> is set only when everything has been acknowledged, or the server is lost.\<close>

definition close_ready :: "client \<Rightarrow> bool" where
  "close_ready c \<longleftrightarrow> losted (c_conn c) \<or> databuf (c_conn c) = fmempty \<and> writebuf (c_conn c) = fmempty"

definition close_inv :: "client \<Rightarrow> bool" where
  "close_inv c \<longleftrightarrow> (c_closeack c \<longrightarrow> c_closepend c \<and> close_ready c)"

lemma NewClient_start_close_inv: "NewClient_start resolved dialled parm = Some (c, es) \<Longrightarrow> close_inv c"
  by (auto simp: NewClient_start_def Let_def dial_def new_client_def close_inv_def split: option.splits)

lemma client_Close_close_inv: "close_inv c \<Longrightarrow> close_inv (fst (client_Close x c))"
  by (auto simp: close_inv_def close_ready_def client_frames)

lemma client_lost_close_inv: "close_inv c \<Longrightarrow> close_inv (fst (client_lost c))"
  by (auto simp: close_inv_def close_ready_def client_lost_def Let_def split_beta client_Close_def)

lemma client_handleEpoch_close_inv: "close_inv c \<Longrightarrow> close_inv (fst (client_handleEpoch oa od c))"
proof -
  assume inv: "close_inv c"
  have 1: "close_inv (c\<lparr>c_conn := (c_conn c)\<lparr>receive := r\<rparr>\<rparr>)" "close_inv (c\<lparr>c_conn := (c_conn c)\<lparr>lastrece := r\<rparr>\<rparr>)" for r
    using inv by (auto simp: close_inv_def close_ready_def)
  show ?thesis
    using 1 client_lost_close_inv by (auto simp: client_handleEpoch_def Let_def split_beta)
qed

lemma client_handleClose_close_inv: "close_inv c \<Longrightarrow> close_inv (fst (client_handleClose c))"
  by (auto simp: close_inv_def close_ready_def client_handleClose_def Let_def)

lemma ack_slide_empty:
  assumes "databuf v = fmempty" and "writebuf v = fmempty"
  shows "databuf (fst (ack_slide n v)) = fmempty \<and> writebuf (fst (ack_slide n v)) = fmempty"
proof -
  have "fmlookup (databuf (fst (ack_slide n v))) k = None" "fmlookup (writebuf (fst (ack_slide n v))) k = None" for k
    using ack_slide_subset(1,2) [where n = n and v = v and k = k] assms
    by (fastforce simp: option.expand)+
  then show ?thesis by (simp add: fmap_empty_iff)
qed

lemma client_ack_close_inv: "close_inv c \<Longrightarrow> close_inv (fst (client_ack m c))"
  using ack_slide_empty [of "(c_conn c)\<lparr>receive := lastrece (c_conn c)\<rparr>" "SeqNum m"]
  by (auto simp: close_inv_def close_ready_def client_ack_def Let_def split_beta)

lemma client_data_close_inv: "close_inv c \<Longrightarrow> close_inv (fst (client_data m c))"
  by (auto simp: close_inv_def close_ready_def client_data_def Let_def split_beta)

lemma client_handleReceive_close_inv: "close_inv c \<Longrightarrow> close_inv (fst (client_handleReceive m c))"
proof -
  assume inv: "close_inv c"
  have 1: "close_inv (counted c)" using inv by (auto simp: close_inv_def close_ready_def)
  have 2: "close_inv (c\<lparr>c_closeack := True\<rparr>)" if "c_closepend c" "close_ready c"
    using that by (auto simp: close_inv_def close_ready_def)
  show ?thesis
    using inv 1 2 client_ack_close_inv [OF 1, of m] client_data_close_inv [OF 1, of m]
    by (auto simp: client_handleReceive_def Let_def close_ready_def split: MsgType.split)
qed

lemma client_step_close_inv:
  assumes inv: "close_inv c" and ok: "cmove_ok c i" and st: "client_step i c = Some (c', es)"
  shows "close_inv c'"
proof (cases i)
  case (CPacket oa od p)
  have h: "client_handle oa od p c = Some (c', es)" using st CPacket by simp
  show ?thesis
  proof (cases "contype p = cwrite")
    case True
    then have "\<not> c_closeack c" using inv ok CPacket by (auto simp: close_inv_def)
    then show ?thesis using h True
      by (auto simp: client_handle_def client_handleWrite_def Let_def split_beta close_inv_def)
  next
    case False
    have "close_inv (fst (client_handleRead c))"
      using inv by (auto simp: client_handleRead_def close_inv_def close_ready_def split: option.split)
    then show ?thesis
      using h False inv client_handleEpoch_close_inv [OF inv, of oa od] client_handleClose_close_inv [OF inv]
        client_handleReceive_close_inv [OF inv]
      by (auto simp: client_handle_def client_handleEstab_def split: if_splits) (metis fst_conv)+
  qed
next
  case CBuilt
  then show ?thesis using st inv by (auto simp: NewClient_wait_def close_inv_def close_ready_def)
next
  case (CClosed x)
  then show ?thesis using st client_Close_close_inv [OF inv, of x] by simp
qed

lemma client_reach_close_inv: "client_reach parm c \<Longrightarrow> close_inv c"
  by (induction rule: client_reach.induct) (auto intro: NewClient_start_close_inv client_step_close_inv)

text \<open>A packet on \<open>over\<close>, which is what \<open>Close\<close> waits for, is sent only in such a state.\<close>

lemma Connect_close_Over: "Over x \<notin> set (Connect_close v)"
  by (auto simp: Connect_close_def split: option.split)

lemma client_Close_Over: "Over x \<notin> set (snd (client_Close y c))"
  by (auto simp: client_Close_def Connect_close_Over)

lemma client_handleEpoch_Over:
  assumes "Over x \<in> set (snd (client_handleEpoch oa od c))"
  shows "losted (c_conn (fst (client_handleEpoch oa od c)))"
  using assms client_lost_conn(8)
  by (auto simp: client_handleEpoch_def Let_def split_beta split: if_splits)

lemma client_step_Over:
  assumes inv: "close_inv c" and st: "client_step i c = Some (c', es)" and ov: "Over x \<in> set es"
  shows "close_ready c'"
proof (cases i)
  case (CPacket oa od p)
  have h: "client_handle oa od p c = Some (c', es)" using st CPacket by simp
  consider "contype p = timer" | "contype p = cclose" | "contype p \<noteq> timer" "contype p \<noteq> cclose" by blast
  then show ?thesis
  proof cases
    case 1
    then show ?thesis using client_handleEpoch_Over [of x oa od c] h ov
      by (simp add: client_handle_def close_ready_def)
  next
    case 2
    then have "client_handleClose c = (c', es)" using h by (simp add: client_handle_def)
    then show ?thesis using ov inv
      by (auto simp: client_handleClose_def Let_def close_inv_def close_ready_def split: if_splits)
  next
    case 3
    have "Over x \<notin> set (snd (client_handleReceive m c))" for m
      by (auto simp: client_handleReceive_def client_ack_def client_data_def Let_def split_beta split: MsgType.split)
    moreover have "Over x \<notin> set (snd (client_handleWrite m c))" for m
      by (auto simp: client_handleWrite_def Let_def split_beta)
    moreover have "Over x \<notin> set (snd (client_handleRead c))"
      by (auto simp: client_handleRead_def split: option.split)
    ultimately show ?thesis using h 3 ov
      by (auto simp: client_handle_def client_handleEstab_def split: if_splits) (metis snd_conv)+
  qed
next
  case CBuilt
  then show ?thesis using st ov by (auto simp: NewClient_wait_def)
next
  case (CClosed y)
  then show ?thesis using st ov client_Close_Over [of x y c] by simp
qed

section \<open>The handshake\<close>

definition prebuilt :: "int \<Rightarrow> client \<Rightarrow> bool" where
  "prebuilt W c \<longleftrightarrow> c_conId c = 0 \<and> c_sendct c = 1 \<and> c_readct c = 1 \<and> \<not> c_closepend c \<and>
     \<not> estab (c_conn c) \<and> seq (c_conn c) = 0 \<and> ack (c_conn c) = 1 \<and> databuf (c_conn c) = fmempty \<and>
     writebuf (c_conn c) = fmempty \<and> ackbuf (c_conn c) = fmempty \<and> readbuf (c_conn c) = fmempty \<and>
     WindowSize (params (c_conn c)) = W \<and> 1 \<le> W"

lemma NewClient_start_prebuilt:
  assumes "NewClient_start resolved dialled parm = Some (c, es)" and "1 \<le> WindowSize parm"
  shows "prebuilt (WindowSize parm) c"
  using assms by (auto simp: NewClient_start_def Let_def dial_def new_client_def prebuilt_def split: option.splits)

lemma ack_slide_young:
  assumes "databuf v = fmempty" and "writebuf v = fmempty" and "n \<noteq> seq v"
  shows "databuf (fst (ack_slide n v)) = fmempty \<and> writebuf (fst (ack_slide n v)) = fmempty \<and>
    seq (fst (ack_slide n v)) = seq v \<and> snd (ack_slide n v) = []"
  using assms by (simp add: ack_slide_def Let_def)

text \<open>
  Before the connection is built a packet from the network or the timer either changes nothing of
  importance, or is the server's answer, which gives the client its ID.
\<close>

lemma prebuilt_receive:
  assumes pre: "prebuilt W c"
  shows "prebuilt W (fst (client_handleReceive m c)) \<and> Build \<notin> set (snd (client_handleReceive m c)) \<or>
    Type m = MsgAck \<and> SeqNum m = 0 \<and> snd (client_handleReceive m c) = [Build] \<and>
    c_conId (fst (client_handleReceive m c)) = ConnID m \<and>
    (0 < ConnID m \<longrightarrow> client_fresh (ConnID m) W (fst (client_handleReceive m c)))"
proof (cases "Type m = MsgAck \<and> SeqNum m = 0")
  case True
  then show ?thesis using pre
    by (simp add: prebuilt_def client_handleReceive_def Let_def client_ack_def client_fresh_def)
next
  case False
  note no = this
  have "prebuilt W (fst (client_ack m (counted c))) \<and> snd (client_ack m (counted c)) = []" if "SeqNum m \<noteq> 0"
    using pre that ack_slide_young [of "(c_conn c)\<lparr>receive := lastrece (c_conn c)\<rparr>" "SeqNum m"]
    by (simp add: prebuilt_def client_ack_def Let_def split_beta)
  then show ?thesis using no pre
    by (cases "Type m") (simp_all add: prebuilt_def client_handleReceive_def Let_def client_data_def)
qed

lemma prebuilt_epoch:
  "prebuilt W c \<Longrightarrow> prebuilt W (fst (client_handleEpoch oa od c)) \<and> snd (client_handleEpoch oa od c) = [Send NewConnect]"
  by (simp add: prebuilt_def client_handleEpoch_def)

text \<open>The client never signals \<open>Lost\<close>: \<open>NewClient\<close> waits for an answer for ever.\<close>

lemma Connect_close_Lost: "Lost \<notin> set (Connect_close v)"
  by (auto simp: Connect_close_def split: option.split)

lemma client_Close_Lost: "Lost \<notin> set (snd (client_Close y c))"
  by (auto simp: client_Close_def Connect_close_Lost)

lemma client_handleEpoch_Lost: "Lost \<notin> set (snd (client_handleEpoch oa od c))"
  using client_Close_Lost by (auto simp: client_handleEpoch_def client_lost_def Let_def split_beta)

lemma client_step_Lost:
  assumes "client_step i c = Some (c', es)"
  shows "Lost \<notin> set es"
proof (cases i)
  case (CPacket oa od p)
  have "Lost \<notin> set (snd (client_handleReceive m c))" for m
    by (auto simp: client_handleReceive_def client_ack_def client_data_def Let_def split_beta split: MsgType.split)
  moreover have "Lost \<notin> set (snd (client_handleWrite m c))" for m
    by (auto simp: client_handleWrite_def Let_def split_beta)
  moreover have "Lost \<notin> set (snd (client_handleRead c))" "Lost \<notin> set (snd (client_handleClose c))"
    by (auto simp: client_handleRead_def client_handleClose_def Let_def split: option.split)
  ultimately show ?thesis using assms CPacket client_handleEpoch_Lost [of oa od c]
    by (auto simp: client_handle_def client_handleEstab_def split: if_splits) (metis snd_conv)+
next
  case CBuilt
  then show ?thesis using assms by (auto simp: NewClient_wait_def)
next
  case (CClosed y)
  then show ?thesis using assms client_Close_Lost [of y c] by simp
qed

section \<open>A lost server\<close>

definition epoch_gap :: "Connect \<Rightarrow> int" where
  "epoch_gap v = receive v - lastrece v"

lemma client_handleEpoch_gap:
  assumes "c_conId c \<noteq> 0"
  shows "epoch_gap (c_conn (fst (client_handleEpoch oa od c))) = epoch_gap (c_conn c) + 1"
    and "params (c_conn (fst (client_handleEpoch oa od c))) = params (c_conn c)"
    and "c_conId (fst (client_handleEpoch oa od c)) = c_conId c"
    and "losted (c_conn (fst (client_handleEpoch oa od c))) \<longleftrightarrow>
      losted (c_conn c) \<or> epoch_gap (c_conn c) + 1 \<ge> EpochLimit (params (c_conn c))"
    and "Replyread (Pkt None None (- 2)) \<in> set (snd (client_handleEpoch oa od c)) \<longleftrightarrow>
      epoch_gap (c_conn c) + 1 \<ge> EpochLimit (params (c_conn c))"
proof -
  have "Replyread q \<notin> set (Connect_close v)" for q v
    by (auto simp: Connect_close_def split: option.split)
  then have r: "Replyread q \<notin> set (snd (client_Close x c'))" for q x c'
    by (auto simp: client_Close_def)
  have l: "Replyread (Pkt None None (- 2)) \<in> set (snd (client_lost c'))" for c'
    by (simp add: client_lost_def Let_def split_beta)
  show "epoch_gap (c_conn (fst (client_handleEpoch oa od c))) = epoch_gap (c_conn c) + 1"
    "params (c_conn (fst (client_handleEpoch oa od c))) = params (c_conn c)"
    "c_conId (fst (client_handleEpoch oa od c)) = c_conId c"
    "losted (c_conn (fst (client_handleEpoch oa od c))) \<longleftrightarrow>
      losted (c_conn c) \<or> epoch_gap (c_conn c) + 1 \<ge> EpochLimit (params (c_conn c))"
    "Replyread (Pkt None None (- 2)) \<in> set (snd (client_handleEpoch oa od c)) \<longleftrightarrow>
      epoch_gap (c_conn c) + 1 \<ge> EpochLimit (params (c_conn c))"
    using assms l
    by (auto simp: client_handleEpoch_def Let_def split_beta epoch_gap_def client_frames algebra_simps)
qed

text \<open>\<open>k\<close> epochs in a row in which nothing arrives.\<close>

definition silent_epochs :: "int list \<Rightarrow> int list \<Rightarrow> nat \<Rightarrow> handler_input list" where
  "silent_epochs oa od k = replicate k (Take oa od (Pkt None None timer))"

lemma silent_epochs_run:
  assumes "c_conId c \<noteq> 0"
  shows "\<exists>c' es. client_handler (silent_epochs oa od k) c = Some (c', es) \<and>
    c_conId c' = c_conId c \<and> params (c_conn c') = params (c_conn c) \<and>
    epoch_gap (c_conn c') = epoch_gap (c_conn c) + int k \<and>
    (losted (c_conn c') \<longleftrightarrow> losted (c_conn c) \<or>
      0 < k \<and> epoch_gap (c_conn c) + int k \<ge> EpochLimit (params (c_conn c))) \<and>
    (Replyread (Pkt None None (- 2)) \<in> set es \<longleftrightarrow>
      0 < k \<and> epoch_gap (c_conn c) + int k \<ge> EpochLimit (params (c_conn c)))"
  using assms
proof (induction k arbitrary: c)
  case 0
  then show ?case by (simp add: silent_epochs_def)
next
  case (Suc k)
  let ?c1 = "fst (client_handleEpoch oa od c)" and ?e1 = "snd (client_handleEpoch oa od c)"
  note G = client_handleEpoch_gap [OF Suc.prems, of oa od]
  have "c_conId ?c1 \<noteq> 0" using Suc.prems G(3) by simp
  then obtain c' es where c': "client_handler (silent_epochs oa od k) ?c1 = Some (c', es)"
    "c_conId c' = c_conId ?c1" "params (c_conn c') = params (c_conn ?c1)"
    "epoch_gap (c_conn c') = epoch_gap (c_conn ?c1) + int k"
    "losted (c_conn c') \<longleftrightarrow> losted (c_conn ?c1) \<or>
      0 < k \<and> epoch_gap (c_conn ?c1) + int k \<ge> EpochLimit (params (c_conn ?c1))"
    "Replyread (Pkt None None (- 2)) \<in> set es \<longleftrightarrow>
      0 < k \<and> epoch_gap (c_conn ?c1) + int k \<ge> EpochLimit (params (c_conn ?c1))"
    using Suc.IH by blast
  have run: "client_handler (silent_epochs oa od (Suc k)) c = Some (c', ?e1 @ es)"
    using c'(1) by (simp add: silent_epochs_def client_handle_def andthen_def split_beta)
  show ?case
    using run c'(2-6) G by (cases k) (auto simp: algebra_simps)
qed

end
