(* ===== verification/LspMore.thy ===== *)
theory LspMore
  imports LspStreams LspClientSafe
begin

text \<open>
  More of what the operations of client and server do: what an epoch sends again, when a silent
  client is dropped, what \<open>CloseConn\<close> and \<open>Close\<close> leave behind, and runs of several steps.
\<close>

section \<open>Runs of the server\<close>

fun server_run :: "server_move list \<Rightarrow> server \<Rightarrow> (server, effect) outcome" where
  "server_run [] s = Some (s, [])"
| "server_run (i # is) s = andthen (server_step i s) (server_run is)"

section \<open>What an epoch sends again\<close>

lemma sent_map_Send_mem: "m \<in> set ms \<Longrightarrow> Send m \<in> set (map Send ms)"
  by simp

lemma client_handleEpoch_resend_all:
  assumes id: "c_conId c \<noteq> 0"
    and od: "enumerates od (fmdom (databuf (c_conn c)))" and oa: "enumerates oa (fmdom (ackbuf (c_conn c)))"
  shows "fmlookup (databuf (c_conn c)) n = Some m \<or> fmlookup (ackbuf (c_conn c)) n = Some m \<Longrightarrow>
      Send m \<in> set (snd (client_handleEpoch oa od c))"
    and "Send (NewAck (c_conId c) 0) \<in> set (snd (client_handleEpoch oa od c))"
proof -
  define c1 where "c1 = c\<lparr>c_conn := (c_conn c)\<lparr>receive := receive (c_conn c) + 1\<rparr>\<rparr>"
  define r where "r = (if receive (c_conn c1) - lastrece (c_conn c1) \<ge> EpochLimit (params (c_conn c1))
     then client_lost c1 else (c1, []))"
  have ab: "ackbuf (c_conn (fst r)) = ackbuf (c_conn c)" "databuf (c_conn (fst r)) = databuf (c_conn c)"
    by (simp_all add: r_def c1_def client_frames)
  have eq: "snd (client_handleEpoch oa od c) = [Send (NewAck (c_conId c) 0)] @ snd r @
      map Send (range_vals oa (ackbuf (c_conn c))) @ map Send (range_vals od (databuf (c_conn c)))"
    using id ab [unfolded r_def c1_def]
    by (simp add: client_handleEpoch_def Let_def c1_def r_def split_beta split: if_splits)
  show "Send (NewAck (c_conId c) 0) \<in> set (snd (client_handleEpoch oa od c))" unfolding eq by simp
  show "fmlookup (databuf (c_conn c)) n = Some m \<or> fmlookup (ackbuf (c_conn c)) n = Some m \<Longrightarrow>
      Send m \<in> set (snd (client_handleEpoch oa od c))"
    using range_vals_all [OF od, of m] range_vals_all [OF oa, of m] unfolding eq by auto
qed

text \<open>One connection in an epoch of the server: resend, or drop and tell the reader.\<close>

definition times_out :: "Connect \<Rightarrow> bool" where
  "times_out v \<longleftrightarrow> EpochLimit (params v) \<le> receive v + 1 - lastrece v"

lemma epoch_conn_resend:
  assumes v: "fmlookup (s_conn s) i = Some v" and a: "caddr v = Some a" and t: "\<not> times_out v"
    and p: "\<not> mhas (s_pendconn s) i" and od: "enumerates (o_databuf rg i) (fmdom (databuf v))"
    and oa: "enumerates (o_ackbuf rg i) (fmdom (ackbuf v))"
  shows "\<exists>s' es. epoch_conn rg i s = Some (s', es) \<and>
    (\<forall>n m. fmlookup (databuf v) n = Some m \<or> fmlookup (ackbuf v) n = Some m \<longrightarrow> Ssend m a \<in> set es) \<and>
    fmlookup (s_conn s') i = Some (v\<lparr>receive := receive v + 1\<rparr>)"
proof -
  have "fmlookup (s_pendconn s) i = None" using p by (simp add: mhas_def)
  then have eq: "epoch_conn rg i s = Some (set_conn i (v\<lparr>receive := receive v + 1\<rparr>) s,
      ssend_all (range_vals (o_ackbuf rg i) (ackbuf v)) (Some a) @
      ssend_all (range_vals (o_databuf rg i) (databuf v)) (Some a))"
    using v a t by (simp add: epoch_conn_def Let_def times_out_def epoch_alive_def)
  show ?thesis
    unfolding eq using range_vals_all [OF od] range_vals_all [OF oa]
    by (auto simp: set_ssend_all)
qed

lemma epoch_conn_drop:
  assumes v: "fmlookup (s_conn s) i = Some v" and a: "caddr v = Some a" and t: "times_out v"
    and p: "\<not> mhas (s_pendconn s) i" and c: "\<not> mget False (s_closepend s) i"
  shows "\<exists>s'. epoch_conn rg i s = Some (s', [Reply (Pkt (Some (zero_Message\<lparr>ConnID := i\<rparr>)) None (- 1))]) \<and>
    s_conn s' = fmdrop i (s_conn s) \<and> s_addmap s' = fmdrop a (s_addmap s) \<and> s_banclose s' = s_banclose s"
proof -
  have "s_conn (set_conn i w s) = fmupd i w (s_conn s)" for w by simp
  moreover have "fmdrop i (fmupd i w (fmupd i u (s_conn s))) = fmdrop i (s_conn s)" for w u
    by (rule fmap_ext) simp
  ultimately show ?thesis
    using v a t p c
    by (simp add: epoch_conn_def Let_def times_out_def epoch_lost_def server_handleclosecon_def)
qed

section \<open>CloseConn\<close>

lemma handle_closeconn_result:
  assumes v: "fmlookup (s_conn s) (ConnID m) = Some v" and a: "caddr v = Some a"
    and p: "\<not> mhas (s_pendconn s) (ConnID m)" and l: "\<not> losted v"
  shows "\<exists>s' es f. handle_closeconn rg m s = Some (s', es) \<and> s_conn s' = fmdrop (ConnID m) (s_conn s) \<and>
    fmlookup (s_banclose s') (ConnID m) = Some f \<and> f_addr f = Some a \<and>
    f_databuf f = fmadd (databuf v) (writebuf v)"
  using v a p l
  by (simp add: handle_closeconn_def Let_def server_handleclosecon_def)

section \<open>Close\<close>

lemma close_check_all:
  assumes "close_check is s = Some (s', True)"
  shows "(\<forall>i \<in> set is. mhas (s_conn s') i \<longrightarrow> \<not> mget False (s_closepend s') i) \<and>
    (\<forall>i. mhas (s_conn s') i \<longrightarrow> mhas (s_conn s) i \<and> mget False (s_closepend s') i = mget False (s_closepend s) i)"
  using assms
proof (induction "is" s arbitrary: s' rule: close_check.induct)
  case (1 s)
  then show ?case by simp
next
  case (2 i "is" s)
  show ?case
  proof (cases "fmlookup (s_conn s) i")
    case None
    then show ?thesis using "2.IH"(1) [OF None] "2.prems" by (auto simp: mhas_def)
  next
    case (Some k)
    note conn = this
    consider "\<not> mget False (s_closepend s) i"
      | "mget False (s_closepend s) i" "mget False (s_closeack s) i"
      | "mget False (s_closepend s) i" "\<not> mget False (s_closeack s) i" by blast
    then show ?thesis
    proof cases
      case 1
      then have "close_check is s = Some (s', True)" using "2.prems" Some by simp
      then show ?thesis using "2.IH"(3) [OF Some 1] 1 by auto
    next
      case 2
      with "2.prems" Some obtain t where d: "close_drop i k s = Some t" and c: "close_check is t = Some (s', True)"
        by (auto split: option.splits)
      have t: "s_conn t = fmdrop i (s_conn s)" "s_closepend t = fmdrop i (s_closepend s)"
        using d by (auto simp: close_drop_def split: option.splits)
      note IH = "2.IH"(2) [OF Some 2 d c]
      have "\<not> mhas (s_conn s') i" using IH t by auto
      then show ?thesis using IH t by auto
    next
      case 3
      then show ?thesis using "2.prems" Some by simp
    qed
  qed
qed

text \<open>The first loop opens no connection.\<close>

lemma close_marks_conn:
  assumes "run_loop close_mark ks s = Some (s', es)"
  shows "mhas (s_conn s') i \<Longrightarrow> mhas (s_conn s) i" and "es = []"
proof -
  have one: "whenever (\<lambda>t. \<forall>i. mhas (s_conn t) i \<longrightarrow> mhas (s_conn s) i) (\<lambda>e. False) (close_mark k u)"
    if "\<forall>i. mhas (s_conn u) i \<longrightarrow> mhas (s_conn s) i" for k u
    using that by (auto simp: close_mark_def close_drop_def split: option.split)
  have "whenever (\<lambda>t. \<forall>i. mhas (s_conn t) i \<longrightarrow> mhas (s_conn s) i) (\<lambda>e. False) (run_loop close_mark ks s)"
    by (rule whenever_run_loop) (use one in auto)
  then have all: "(\<forall>i. mhas (s_conn s') i \<longrightarrow> mhas (s_conn s) i) \<and> (\<forall>e \<in> set es. False)" using assms by simp
  then show "mhas (s_conn s') i \<Longrightarrow> mhas (s_conn s) i" by blast
  show "es = []" using all by (metis list.set_intros(1) neq_Nil_conv)
qed

lemma handle_sclose_done:
  assumes r: "handle_sclose rg s = Some (s', es)" and o: "Over p \<in> set es"
    and en: "\<And>i. mhas (s_conn s) i \<Longrightarrow> i \<in> set (o_conn2 rg)"
  shows "mhas (s_conn s') i \<Longrightarrow> \<not> mget False (s_closepend s') i"
proof -
  let ?s0 = "s\<lparr>s_banclose := fmempty\<rparr>"
  obtain s1 e1 where m: "run_loop close_mark (o_conn rg) ?s0 = Some (s1, e1)"
    and c: "andthen (Some (s1, e1)) (\<lambda>t. case close_check (o_conn2 rg) t of None \<Rightarrow> None
      | Some (s2, flag) \<Rightarrow> Some (s2, if flag then [Over (Pkt None None 5)] else [])) = Some (s', es)"
    using r by (cases "run_loop close_mark (o_conn rg) ?s0") (auto simp: handle_sclose_def)
  have e1: "e1 = []" and conn: "\<And>i. mhas (s_conn s1) i \<Longrightarrow> mhas (s_conn s) i"
    using close_marks_conn [OF m] by auto
  obtain flag where k: "close_check (o_conn2 rg) s1 = Some (s', flag)"
    "es = (if flag then [Over (Pkt None None 5)] else [])"
    using c e1 by (auto split: option.splits prod.splits)
  have flag using k(2) o by (cases flag) simp_all
  then have "close_check (o_conn2 rg) s1 = Some (s', True)" using k(1) by simp
  note A = close_check_all [OF this]
  show "mhas (s_conn s') i \<Longrightarrow> \<not> mget False (s_closepend s') i"
    using A conn en by blast
qed

section \<open>A session from the handshake on\<close>

text \<open>The server accepts a \<open>Connect\<close> from a new address under the next number.\<close>

lemma server_step_connect:
  assumes s: "server_reach sp s" "1 \<le> WindowSize (s_initparams s)" and a: "fmlookup (s_addmap s) a = None"
  shows "\<exists>s'. server_step (SPacket rg (Pkt (Some NewConnect) (Some a) receive_kind)) s =
      Some (s', [Ssend (NewAck (s_connCt s) 0) a]) \<and>
    server_fresh (s_connCt s) (WindowSize (s_initparams s)) s' \<and> \<not> mhas (s_conn s) (s_connCt s)"
proof -
  have wf: "srv_wf s" and t: "srv_tags s" using server_reach_wf [OF s(1)] by simp_all
  have "\<not> mget False (s_closepend s) 0"
    using srv_wfD(6) [OF wf, of 0] srv_wfD(2) [OF wf, of 0] by (auto simp: mhas_def)
  moreover have "\<not> mhas (s_conn s) (s_connCt s)"
    using srv_wfD(2) [OF wf, of "s_connCt s"] by (cases "fmlookup (s_conn s) (s_connCt s)") (auto simp: mhas_def)
  ultimately show ?thesis
    using recv_connect_fresh [OF wf t a s(2)]
    by (auto simp: server_handle_def server_handleReceive_def Let_def)
qed

text \<open>The client takes the answer, and \<open>NewClient\<close> the signal.\<close>

lemma client_built_fresh:
  assumes c: "prebuilt W c" and m: "Type am = MsgAck" "SeqNum am = 0" "0 < ConnID am"
    and st: "client_step (CPacket oa od (Pkt (Some am) b receive_kind)) c = Some (c1, es1)"
    and built: "client_step CBuilt c1 = Some (c2, es2)"
  shows "client_fresh (ConnID am) W c2" and "es1 = [Build]"
proof -
  have h: "client_handleReceive am c = (c1, es1)" using st by (simp add: client_handle_def)
  then have c1: "client_fresh (ConnID am) W c1" "es1 = [Build]"
    using c m by (auto simp: prebuilt_def client_handleReceive_def Let_def client_ack_def client_fresh_def)
  then show "client_fresh (ConnID am) W c2" "es1 = [Build]"
    using built by (auto simp: NewClient_wait_def client_fresh_def)
qed

end
