(* ===== verification/LspDemo.thy ===== *)
theory LspDemo
  imports LspMore
begin

text \<open>
  A small concrete session that the witnesses of the properties run: a client with the default
  parameters that has just been built as number 1, the server that has just accepted it, one message
  sent each way, and the states on the way.
\<close>

section \<open>The two ends\<close>

definition demo_client :: client where
  "demo_client =
     (new_client NewParams)\<lparr>c_conn := (NewConnection NewParams)\<lparr>seq := 1, estab := True,
        conn := Some \<lparr>nconn = 0\<rparr>, caddr := Some ''srv''\<rparr>, c_conId := 1\<rparr>"

definition demo_conn :: Connect where
  "demo_conn = (NewConnection NewParams)\<lparr>caddr := Some ''cli'', seq := 1\<rparr>"

definition demo_server :: server where
  "demo_server =
     (new_server NewParams)\<lparr>s_conn := fmupd 1 demo_conn fmempty, s_connCt := 2,
        s_closepend := fmupd 1 False fmempty, s_closeack := fmupd 1 False fmempty,
        s_sendct := fmupd 1 1 fmempty, s_addmap := fmupd ''cli'' 1 fmempty,
        s_pendconn := fmupd 1 1 fmempty, s_readct := fmupd 1 1 fmempty\<rparr>"

definition demo_orders :: orders where
  "demo_orders = \<lparr>o_ban = [], o_conn = [1], o_conn2 = [1], o_banbuf = (\<lambda>_. []), o_ackbuf = (\<lambda>_. []),
     o_databuf = (\<lambda>_. [1]), o_writebuf = (\<lambda>_. [])\<rparr>"

lemmas demo_defs = demo_client_def demo_conn_def demo_server_def demo_orders_def new_client_def
  new_server_def

lemma fmupd_not_empty [simp]: "fmupd k v m \<noteq> fmempty"
  by (auto simp: fmap_empty_iff)

lemma fmdrop_upd_same [simp]: "fmdrop k (fmupd k v fmempty) = fmempty"
  by (simp add: fmap_empty_iff)

text \<open>The server is the one that accepts a \<open>Connect\<close> from the client's address.\<close>

lemma demo_server_accepts:
  "recv_connect (Some ''cli'') (new_server NewParams) = Some (demo_server, [Ssend (NewAck 1 0) ''cli''])"
  by (simp add: recv_connect_def Let_def demo_defs ssend_def)

lemma demo_client_fresh: "client_fresh 1 1 demo_client"
  by (simp add: client_fresh_def demo_defs)

lemma demo_server_fresh: "server_fresh 1 1 demo_server"
  by (simp add: server_fresh_def demo_defs srv_tags_def conn_tags_def)

section \<open>A message from the client to the server\<close>

definition demo_write :: client_input where
  "demo_write = CPacket [] [] (Pkt (Some (zero_Message\<lparr>Payload := ''hi''\<rparr>)) None cwrite)"

definition demo_deliver :: server_move where
  "demo_deliver = SPacket demo_orders (Pkt (Some (NewData 1 1 ''hi'')) (Some ''cli'') receive_kind)"

definition demo_read :: server_move where
  "demo_read = SPacket demo_orders (Pkt None None sread)"

definition demo_client1 :: client where
  "demo_client1 = fst (the (client_step demo_write demo_client))"

definition demo_server1 :: server where
  "demo_server1 = fst (the (server_step demo_deliver demo_server))"

definition demo_server2 :: server where
  "demo_server2 = fst (the (server_step demo_read demo_server1))"

lemma demo_client1_step: "client_step demo_write demo_client = Some (demo_client1, [Send (NewData 1 1 ''hi'')])"
  by (simp add: demo_client1_def demo_write_def client_handle_def client_handleWrite_def Let_def
      enqueue_def demo_defs zero_Message_def)

lemma demo_server1_step:
  "server_step demo_deliver demo_server =
     Some (demo_server1, [Ssend (NewAck 1 1) ''cli'', Req (Pkt None None sread)])"
  by (simp add: demo_server1_def demo_deliver_def server_handle_def server_handleReceive_def Let_def
      recv_data_def confirm_def accept_data_def demo_defs ssend_def mhas_def trim.simps)

lemma demo_server1_conn:
  "fmlookup (s_conn demo_server1) 1 =
     Some (demo_conn\<lparr>estab := True, ackbuf := fmupd 1 (NewAck 1 1) fmempty,
       readbuf := fmupd 1 (NewData 1 1 ''hi'') fmempty\<rparr>)"
  "fmlookup (s_pendconn demo_server1) 1 = None" "fmlookup (s_readct demo_server1) 1 = Some 1"
  by (simp_all add: demo_server1_def demo_deliver_def server_handle_def server_handleReceive_def Let_def
      recv_data_def confirm_def accept_data_def demo_defs ssend_def mhas_def trim.simps)

lemma demo_server2_step:
  "server_step demo_read demo_server1 =
     Some (demo_server2, [Reply (Pkt (Some (NewData 1 1 ''hi'')) None 1)])"
proof -
  have "read_ready demo_server1 1"
    using demo_server1_conn by (simp add: read_ready_def mhas_def mget_def)
  then have f: "find (read_ready demo_server1) (o_conn demo_orders) = Some 1" by (simp add: demo_orders_def)
  have "server_step demo_read demo_server1 = handle_sread demo_orders demo_server1"
    by (simp add: demo_read_def server_handle_def)
  also have "\<dots> = Some (fst (the (handle_sread demo_orders demo_server1)),
      [Reply (Pkt (Some (NewData 1 1 ''hi'')) None 1)])"
    using demo_server1_conn by (simp add: handle_sread_def f Let_def mget_def)
  finally show ?thesis by (simp add: demo_server2_def)
qed

definition demo_up1 :: up_link where
  "demo_up1 = \<lparr>l_snd = demo_client1, l_rcv = demo_server, l_hist = [''hi''],
     l_dnet = {NewData 1 1 ''hi''}, l_anet = {}, l_out = []\<rparr>"

definition demo_up2 :: up_link where
  "demo_up2 = demo_up1\<lparr>l_rcv := demo_server1, l_anet := {1}\<rparr>"

definition demo_up3 :: up_link where
  "demo_up3 = demo_up2\<lparr>l_rcv := demo_server2, l_out := [''hi'']\<rparr>"

lemma demo_up_write: "link_step client_sstep (server_rstep 1) (link_start demo_client demo_server) demo_up1"
proof -
  have "client_sstep demo_client (SWrite ''hi'') demo_client1 {NewData 1 1 ''hi''}"
    unfolding client_sstep_def
    by (intro exI [of _ demo_write] exI [of _ "[Send (NewData 1 1 ''hi'')]"] conjI demo_client1_step)
      (auto simp: demo_write_def data_sent_def zero_Message_def)
  then have "link_step client_sstep (server_rstep 1) (link_start demo_client demo_server)
      ((link_start demo_client demo_server)\<lparr>l_snd := demo_client1,
        l_hist := l_hist (link_start demo_client demo_server) @ [''hi''],
        l_dnet := l_dnet (link_start demo_client demo_server) \<union> {NewData 1 1 ''hi''}\<rparr>)"
    by (intro link_write) (simp add: link_start_def)
  then show ?thesis by (simp add: link_start_def demo_up1_def)
qed

lemma demo_up_data: "link_step client_sstep (server_rstep 1) demo_up1 demo_up2"
proof -
  have "server_rstep 1 demo_server (RData (NewData 1 1 ''hi'')) demo_server1 {1} []"
    unfolding server_rstep_def
    by (intro exI [of _ demo_deliver] exI [of _ "[Ssend (NewAck 1 1) ''cli'', Req (Pkt None None sread)]"]
        conjI demo_server1_step)
      (auto simp: demo_deliver_def acks_sent_to_def)
  then have "link_step client_sstep (server_rstep 1) demo_up1
      (demo_up1\<lparr>l_rcv := demo_server1, l_anet := l_anet demo_up1 \<union> {1}, l_out := l_out demo_up1 @ []\<rparr>)"
    by (intro link_data [where m = "NewData 1 1 ''hi''"]) (simp_all add: demo_up1_def)
  then show ?thesis by (simp add: demo_up1_def demo_up2_def)
qed

lemma demo_up_read: "link_step client_sstep (server_rstep 1) demo_up2 demo_up3"
proof -
  have "server_rstep 1 demo_server1 ROther demo_server2 {} [''hi'']"
    unfolding server_rstep_def
    by (intro exI [of _ demo_read] exI [of _ "[Reply (Pkt (Some (NewData 1 1 ''hi'')) None 1)]"]
        conjI demo_server2_step)
      (auto simp: demo_read_def acks_sent_to_def)
  then have "link_step client_sstep (server_rstep 1) demo_up2
      (demo_up2\<lparr>l_rcv := demo_server2, l_anet := l_anet demo_up2 \<union> {}, l_out := l_out demo_up2 @ [''hi'']\<rparr>)"
    by (intro link_rcv) (simp_all add: demo_up1_def demo_up2_def)
  then show ?thesis by (simp add: demo_up1_def demo_up2_def demo_up3_def)
qed

lemma demo_up_reach:
  "up_reach 1 demo_client demo_server demo_up1" "up_reach 1 demo_client demo_server demo_up2"
  "up_reach 1 demo_client demo_server demo_up3"
proof -
  show 1: "up_reach 1 demo_client demo_server demo_up1" by (rule reach_step [OF reach_start demo_up_write])
  show 2: "up_reach 1 demo_client demo_server demo_up2" by (rule reach_step [OF 1 demo_up_data])
  show "up_reach 1 demo_client demo_server demo_up3" by (rule reach_step [OF 2 demo_up_read])
qed

text \<open>The acknowledgement reaches the client, whose window is empty again.\<close>

definition demo_ack :: client_input where
  "demo_ack = CPacket [] [] (Pkt (Some (NewAck 1 1)) (Some ''srv'') receive_kind)"

definition demo_client2 :: client where
  "demo_client2 = fst (the (client_step demo_ack demo_client1))"

lemma demo_client1_eq:
  "demo_client1 = demo_client\<lparr>c_conn := (c_conn demo_client)\<lparr>databuf := fmupd 1 (NewData 1 1 ''hi'') fmempty\<rparr>,
     c_sendct := 2\<rparr>"
  by (simp add: demo_client1_def demo_write_def client_handle_def client_handleWrite_def Let_def
      enqueue_def demo_defs zero_Message_def)

lemma demo_client2_step: "client_step demo_ack demo_client1 = Some (demo_client2, [])"
  by (simp add: demo_client2_def demo_ack_def client_handle_def client_handleReceive_def Let_def
      client_ack_def ack_in_window_def ack_slide_def slide.simps refill.simps demo_client1_eq demo_defs)

lemma demo_client2_empty:
  "databuf (c_conn demo_client2) = fmempty" "writebuf (c_conn demo_client2) = fmempty"
  by (simp_all add: demo_client2_def demo_ack_def client_handle_def client_handleReceive_def Let_def
      client_ack_def ack_in_window_def ack_slide_def slide.simps refill.simps demo_client1_eq demo_defs)

definition demo_up4 :: up_link where
  "demo_up4 = demo_up3\<lparr>l_snd := demo_client2\<rparr>"

lemma demo_up_ack: "link_step client_sstep (server_rstep 1) demo_up3 demo_up4"
proof -
  have "client_sstep demo_client1 (SAck 1) demo_client2 {}"
    unfolding client_sstep_def
    by (intro exI [of _ demo_ack] exI [of _ "[]"] conjI demo_client2_step) (auto simp: demo_ack_def)
  then have "link_step client_sstep (server_rstep 1) demo_up3
      (demo_up3\<lparr>l_snd := demo_client2, l_dnet := l_dnet demo_up3 \<union> {}\<rparr>)"
    by (intro link_ack [where n = 1]) (simp_all add: demo_up1_def demo_up2_def demo_up3_def)
  then show ?thesis by (simp add: demo_up1_def demo_up2_def demo_up3_def demo_up4_def)
qed

lemma demo_up4_reach: "up_reach 1 demo_client demo_server demo_up4"
  by (rule reach_step [OF demo_up_reach(3) demo_up_ack])

lemma demo_server2_conn: "mhas (s_conn demo_server2) 1"
proof -
  have "read_ready demo_server1 1"
    using demo_server1_conn by (simp add: read_ready_def mhas_def mget_def)
  then have f: "find (read_ready demo_server1) (o_conn demo_orders) = Some 1" by (simp add: demo_orders_def)
  show ?thesis
    using demo_server1_conn
    by (simp add: demo_server2_def demo_read_def server_handle_def handle_sread_def f Let_def mget_def mhas_def)
qed

section \<open>A message from the server to the client\<close>

definition demo_swrite :: server_move where
  "demo_swrite = SPacket demo_orders (Pkt (Some (zero_Message\<lparr>ConnID := 1, Payload := ''yo''\<rparr>)) None swrite)"

definition demo_cdeliver :: client_input where
  "demo_cdeliver = CPacket [] [] (Pkt (Some (NewData 1 1 ''yo'')) (Some ''srv'') receive_kind)"

definition demo_cread :: client_input where
  "demo_cread = CPacket [] [] (Pkt None None cread)"

definition demo_serverw :: server where
  "demo_serverw = fst (the (server_step demo_swrite demo_server))"

definition demo_clientd :: client where
  "demo_clientd = fst (the (client_step demo_cdeliver demo_client))"

definition demo_clientr :: client where
  "demo_clientr = fst (the (client_step demo_cread demo_clientd))"

lemma demo_serverw_step:
  "server_step demo_swrite demo_server =
     Some (demo_serverw, [Writeans (Pkt None None 1), Ssend (NewData 1 1 ''yo'') ''cli''])"
  by (simp add: demo_serverw_def demo_swrite_def server_handle_def handle_swrite_def server_handleWrite_def
      Let_def enqueue_def demo_defs ssend_all_def ssend_def zero_Message_def)

lemma demo_serverw_conn:
  "fmlookup (s_conn demo_serverw) 1 = Some (demo_conn\<lparr>databuf := fmupd 1 (NewData 1 1 ''yo'') fmempty\<rparr>)"
  by (simp add: demo_serverw_def demo_swrite_def server_handle_def handle_swrite_def server_handleWrite_def
      Let_def enqueue_def demo_defs ssend_all_def ssend_def zero_Message_def)

lemma demo_clientd_step:
  "client_step demo_cdeliver demo_client =
     Some (demo_clientd, [Send (NewAck 1 1), Req (Pkt None None cread)])"
  by (simp add: demo_clientd_def demo_cdeliver_def client_handle_def client_handleReceive_def Let_def
      client_data_def accept_data_def demo_defs mhas_def trim.simps)

lemma demo_clientd_state:
  "fmlookup (readbuf (c_conn demo_clientd)) 1 = Some (NewData 1 1 ''yo'')" "c_readct demo_clientd = 1"
  "databuf (c_conn demo_clientd) = fmempty"
  by (simp_all add: demo_clientd_def demo_cdeliver_def client_handle_def client_handleReceive_def Let_def
      client_data_def accept_data_def demo_defs mhas_def trim.simps)

lemma demo_clientr_step:
  "client_step demo_cread demo_clientd =
     Some (demo_clientr, [Replyread (Pkt (Some (NewData 1 1 ''yo'')) None 1)])"
  using demo_clientd_state
  by (simp add: demo_clientr_def demo_cread_def client_handle_def client_handleRead_def)

definition demo_down1 :: down_link where
  "demo_down1 = \<lparr>l_snd = demo_serverw, l_rcv = demo_client, l_hist = [''yo''],
     l_dnet = {NewData 1 1 ''yo''}, l_anet = {}, l_out = []\<rparr>"

definition demo_down2 :: down_link where
  "demo_down2 = demo_down1\<lparr>l_rcv := demo_clientd, l_anet := {1}\<rparr>"

definition demo_down3 :: down_link where
  "demo_down3 = demo_down2\<lparr>l_rcv := demo_clientr, l_out := [''yo'']\<rparr>"

lemma demo_down_write: "link_step (server_sstep 1) client_rstep (link_start demo_server demo_client) demo_down1"
proof -
  have "server_sstep 1 demo_server (SWrite ''yo'') demo_serverw {NewData 1 1 ''yo''}"
    unfolding server_sstep_def
    by (intro exI [of _ demo_swrite]
        exI [of _ "[Writeans (Pkt None None 1), Ssend (NewData 1 1 ''yo'') ''cli'']"] conjI demo_serverw_step)
      (auto simp: demo_swrite_def data_sent_to_def zero_Message_def)
  then have "link_step (server_sstep 1) client_rstep (link_start demo_server demo_client)
      ((link_start demo_server demo_client)\<lparr>l_snd := demo_serverw,
        l_hist := l_hist (link_start demo_server demo_client) @ [''yo''],
        l_dnet := l_dnet (link_start demo_server demo_client) \<union> {NewData 1 1 ''yo''}\<rparr>)"
    by (intro link_write) (simp add: link_start_def)
  then show ?thesis by (simp add: link_start_def demo_down1_def)
qed

lemma demo_down_data: "link_step (server_sstep 1) client_rstep demo_down1 demo_down2"
proof -
  have "client_rstep demo_client (RData (NewData 1 1 ''yo'')) demo_clientd {1} []"
    unfolding client_rstep_def
    by (intro exI [of _ demo_cdeliver] exI [of _ "[Send (NewAck 1 1), Req (Pkt None None cread)]"]
        conjI demo_clientd_step)
      (auto simp: demo_cdeliver_def acks_sent_def)
  then have "link_step (server_sstep 1) client_rstep demo_down1
      (demo_down1\<lparr>l_rcv := demo_clientd, l_anet := l_anet demo_down1 \<union> {1}, l_out := l_out demo_down1 @ []\<rparr>)"
    by (intro link_data [where m = "NewData 1 1 ''yo''"]) (simp_all add: demo_down1_def)
  then show ?thesis by (simp add: demo_down1_def demo_down2_def)
qed

lemma demo_down_read: "link_step (server_sstep 1) client_rstep demo_down2 demo_down3"
proof -
  have "client_rstep demo_clientd ROther demo_clientr {} [''yo'']"
    unfolding client_rstep_def
    by (intro exI [of _ demo_cread] exI [of _ "[Replyread (Pkt (Some (NewData 1 1 ''yo'')) None 1)]"]
        conjI demo_clientr_step)
      (auto simp: demo_cread_def acks_sent_def)
  then have "link_step (server_sstep 1) client_rstep demo_down2
      (demo_down2\<lparr>l_rcv := demo_clientr, l_anet := l_anet demo_down2 \<union> {}, l_out := l_out demo_down2 @ [''yo'']\<rparr>)"
    by (intro link_rcv) (simp_all add: demo_down1_def demo_down2_def)
  then show ?thesis by (simp add: demo_down1_def demo_down2_def demo_down3_def)
qed

lemma demo_down_reach:
  "down_reach 1 demo_server demo_client demo_down1" "down_reach 1 demo_server demo_client demo_down2"
  "down_reach 1 demo_server demo_client demo_down3"
proof -
  show 1: "down_reach 1 demo_server demo_client demo_down1" by (rule reach_step [OF reach_start demo_down_write])
  show 2: "down_reach 1 demo_server demo_client demo_down2" by (rule reach_step [OF 1 demo_down_data])
  show "down_reach 1 demo_server demo_client demo_down3" by (rule reach_step [OF 2 demo_down_read])
qed

definition demo_sack :: server_move where
  "demo_sack = SPacket demo_orders (Pkt (Some (NewAck 1 1)) (Some ''cli'') receive_kind)"

definition demo_servera :: server where
  "demo_servera = fst (the (server_step demo_sack demo_serverw))"

lemma demo_serverw_pend:
  "fmlookup (s_pendconn demo_serverw) 1 = Some 1" "s_banclose demo_serverw = fmempty"
  "mget False (s_closepend demo_serverw) 1 = False"
  by (simp_all add: demo_serverw_def demo_swrite_def server_handle_def handle_swrite_def server_handleWrite_def
      Let_def enqueue_def demo_defs ssend_all_def ssend_def zero_Message_def)

lemma demo_servera_step:
  "server_step demo_sack demo_serverw = Some (demo_servera, [])"
  using demo_serverw_conn demo_serverw_pend
  by (simp add: demo_servera_def demo_sack_def server_handle_def server_handleReceive_def Let_def
      recv_ack_def confirm_def recv_ack_window_def ack_in_window_def ack_slide_def slide.simps refill.simps
      demo_conn_def mhas_def ssend_all_def)

lemma demo_servera_conn:
  "\<exists>v. fmlookup (s_conn demo_servera) 1 = Some v \<and> databuf v = fmempty \<and> writebuf v = fmempty"
  using demo_serverw_conn demo_serverw_pend
  by (simp add: demo_servera_def demo_sack_def server_handle_def server_handleReceive_def Let_def
      recv_ack_def confirm_def recv_ack_window_def ack_in_window_def ack_slide_def slide.simps refill.simps
      demo_conn_def mhas_def ssend_all_def)

definition demo_down4 :: down_link where
  "demo_down4 = demo_down3\<lparr>l_snd := demo_servera\<rparr>"

lemma demo_down_ack: "link_step (server_sstep 1) client_rstep demo_down3 demo_down4"
proof -
  have "server_sstep 1 demo_serverw (SAck 1) demo_servera {}"
    unfolding server_sstep_def
    by (intro exI [of _ demo_sack] exI [of _ "[]"] conjI demo_servera_step)
      (auto simp: demo_sack_def data_sent_to_def)
  then have "link_step (server_sstep 1) client_rstep demo_down3
      (demo_down3\<lparr>l_snd := demo_servera, l_dnet := l_dnet demo_down3 \<union> {}\<rparr>)"
    by (intro link_ack [where n = 1]) (simp_all add: demo_down1_def demo_down2_def demo_down3_def)
  then show ?thesis by (simp add: demo_down1_def demo_down2_def demo_down3_def demo_down4_def)
qed

lemma demo_down4_reach: "down_reach 1 demo_server demo_client demo_down4"
  by (rule reach_step [OF demo_down_reach(3) demo_down_ack])

section \<open>Reachability\<close>

definition demo_listen :: server where
  "demo_listen = the (NewServer None None NewParams)"

lemma demo_listen_eq: "demo_listen = new_server NewParams"
  by (simp add: demo_listen_def NewServer_def server_listen_def Let_def new_server_def)

lemma demo_listen_reach: "server_reach NewParams (new_server NewParams)"
  by (rule reach_new [where resolved = None and listening = None])
    (simp add: NewServer_def server_listen_def Let_def new_server_def)

definition demo_connect :: server_move where
  "demo_connect = SPacket demo_orders (Pkt (Some NewConnect) (Some ''cli'') receive_kind)"

lemma demo_connect_step:
  "server_step demo_connect (new_server NewParams) = Some (demo_server, [Ssend (NewAck 1 0) ''cli''])"
  using demo_server_accepts
  by (simp add: demo_connect_def server_handle_def server_handleReceive_def Let_def new_server_def)

lemma demo_server_reach: "server_reach NewParams demo_server"
  by (rule reach_move [OF demo_listen_reach _ demo_connect_step]) (simp add: demo_connect_def)

end
