(* ===== verification/LspPanic.thy ===== *)
theory LspPanic
  imports LspDemo
begin

text \<open>
  A run that ends in a nil pointer: the application writes twice to a connection that is not
  established, closes the server, the client stays silent for the epoch limit, and then sends data.
\<close>

definition hurried :: Params where
  "hurried = NewParams\<lparr>EpochLimit := 1\<rparr>"

definition panic_conn :: Connect where
  "panic_conn = (NewConnection hurried)\<lparr>caddr := Some ''cli'', seq := 1\<rparr>"

text \<open>The server with one connection \<open>v\<close> that waits for its first message, and its tables.\<close>

definition panic_server :: "Connect \<Rightarrow> int \<Rightarrow> bool \<Rightarrow> bool \<Rightarrow> bool \<Rightarrow> server" where
  "panic_server v ct closed cp ca =
     (new_server hurried)\<lparr>s_conn := fmupd 1 v fmempty, s_connCt := 2, s_readclose := closed,
        s_closepend := fmupd 1 cp fmempty, s_closeack := fmupd 1 ca fmempty,
        s_sendct := fmupd 1 ct fmempty, s_addmap := fmupd ''cli'' 1 fmempty,
        s_pendconn := fmupd 1 1 fmempty, s_readct := fmupd 1 1 fmempty\<rparr>"

definition panic_full :: Connect where
  "panic_full = panic_conn\<lparr>databuf := fmupd 1 (NewData 1 1 ''a'') fmempty, writebuf := fmupd 2 (NewData 1 2 ''b'') fmempty\<rparr>"

definition panic_late :: server where
  "panic_late = (panic_server (panic_full\<lparr>receive := 1\<rparr>) 3 True True True)\<lparr>s_conn := fmempty,
     s_closepend := fmempty, s_closeack := fmempty, s_sendct := fmempty, s_addmap := fmempty\<rparr>"

lemma fmupd_again [simp]: "fmupd k v (fmupd k w m) = fmupd k v m"
  by (rule fmap_ext) simp

lemma mlen_single [simp]: "mlen (fmupd k v fmempty) = 1"
  by (simp add: mlen_upd)

lemma fmlookup_single_mget [simp]: "mget d (fmupd k v m) k = v"
  by (simp add: mget_def)

lemma hurried_simps [simp]: "WindowSize hurried = 1" "EpochLimit hurried = 1"
  by (simp_all add: hurried_def)

lemmas panic_defs = panic_server_def panic_conn_def panic_full_def new_server_def

lemma panic_1: "server_handle demo_orders (Pkt (Some NewConnect) (Some ''cli'') receive_kind) (new_server hurried) =
    Some (panic_server panic_conn 1 False False False, [Ssend (NewAck 1 0) ''cli''])"
  by (simp add: server_handle_def server_handleReceive_def recv_connect_def ssend_def Let_def panic_defs)

lemma panic_2: "server_handle demo_orders (Pkt (Some (zero_Message\<lparr>ConnID := 1, Payload := ''a''\<rparr>)) None swrite)
     (panic_server panic_conn 1 False False False) =
   Some (panic_server (panic_conn\<lparr>databuf := fmupd 1 (NewData 1 1 ''a'') fmempty\<rparr>) 2 False False False,
     [Writeans (Pkt None None 1), Ssend (NewData 1 1 ''a'') ''cli''])"
  by (simp add: server_handle_def handle_swrite_def server_handleWrite_def enqueue_def ssend_all_def ssend_def Let_def
      panic_defs)

lemma panic_3: "server_handle demo_orders (Pkt (Some (zero_Message\<lparr>ConnID := 1, Payload := ''b''\<rparr>)) None swrite)
     (panic_server (panic_conn\<lparr>databuf := fmupd 1 (NewData 1 1 ''a'') fmempty\<rparr>) 2 False False False) =
   Some (panic_server panic_full 3 False False False, [Writeans (Pkt None None 1)])"
  by (simp add: server_handle_def handle_swrite_def server_handleWrite_def enqueue_def ssend_all_def Let_def panic_defs)

lemma panic_4: "server_step SCloseStart (panic_server panic_full 3 False False False) =
    Some (panic_server panic_full 3 True False False, [Req (Pkt None None sclose)])"
  by (simp add: server_Close_start_def panic_defs)

lemma panic_5: "server_handle demo_orders (Pkt None None sclose) (panic_server panic_full 3 True False False) =
    Some (panic_server panic_full 3 True True False, [])"
  by (simp add: server_handle_def handle_sclose_def close_mark_def demo_orders_def panic_defs)

lemma panic_6: "server_handle demo_orders (Pkt None None timer) (panic_server panic_full 3 True True False) =
    Some (panic_server (panic_full\<lparr>receive := 1\<rparr>) 3 True True True, [Req (Pkt None None sclose)])"
  by (simp add: server_handle_def server_handleEpoch_def epoch_conn_def epoch_lost_pending_def Let_def demo_orders_def
      panic_defs)

lemma panic_7: "server_handle demo_orders (Pkt None None sclose) (panic_server (panic_full\<lparr>receive := 1\<rparr>) 3 True True True) =
    Some (panic_late, [Over (Pkt None None 5)])"
  by (simp add: server_handle_def handle_sclose_def close_mark_def close_drop_def demo_orders_def panic_late_def
      panic_defs)

lemma panic_8: "server_handle demo_orders (Pkt (Some (NewData 1 1 ''x'')) (Some ''cli'') receive_kind) panic_late = None"
  by (simp add: server_handle_def server_handleReceive_def recv_data_def confirm_def Let_def mget_def panic_late_def
      panic_defs)

definition panic_run :: "server_move list" where
  "panic_run =
     [SPacket demo_orders (Pkt (Some NewConnect) (Some ''cli'') receive_kind),
      SPacket demo_orders (Pkt (Some (zero_Message\<lparr>ConnID := 1, Payload := ''a''\<rparr>)) None swrite),
      SPacket demo_orders (Pkt (Some (zero_Message\<lparr>ConnID := 1, Payload := ''b''\<rparr>)) None swrite),
      SCloseStart,
      SPacket demo_orders (Pkt None None sclose),
      SPacket demo_orders (Pkt None None timer),
      SPacket demo_orders (Pkt None None sclose),
      SPacket demo_orders (Pkt (Some (NewData 1 1 ''x'')) (Some ''cli'') receive_kind)]"

lemma panic_run_None: "server_run panic_run (new_server hurried) = None"
  unfolding panic_run_def server_run.simps server_step.simps(1) panic_1 panic_2 panic_3 panic_4 panic_5 panic_6
    panic_7 panic_8 andthen_Some andthen_None
  by simp

section \<open>A client that is built and closed\<close>

definition demo_started :: client where
  "demo_started = (new_client NewParams)\<lparr>c_conn := (NewConnection NewParams)
     \<lparr>caddr := Some ''srv'', conn := Some \<lparr>nconn = 0\<rparr>\<rparr>\<rparr>"

definition demo_keepalive :: client_input where
  "demo_keepalive = CPacket [] [] (Pkt (Some (NewAck 1 0)) None receive_kind)"

definition demo_cclose :: client_input where
  "demo_cclose = CPacket [] [] (Pkt None None cclose)"

definition demo_closing :: client where
  "demo_closing = demo_client\<lparr>c_closepend := True, c_readnum := 1\<rparr>"

lemmas demo_close_defs = demo_started_def demo_keepalive_def demo_cclose_def demo_closing_def demo_client_def
  new_client_def

lemma demo_close_steps:
  "client_step demo_keepalive demo_started =
     Some (demo_started\<lparr>c_conId := 1, c_readnum := 1, c_conn := (c_conn demo_started)\<lparr>seq := 1\<rparr>\<rparr>, [Build])"
  "client_step CBuilt (demo_started\<lparr>c_conId := 1, c_readnum := 1, c_conn := (c_conn demo_started)\<lparr>seq := 1\<rparr>\<rparr>) =
     Some (demo_client\<lparr>c_readnum := 1\<rparr>, [])"
  "client_step demo_cclose (demo_client\<lparr>c_readnum := 1\<rparr>) = Some (demo_closing, [])"
  "client_step demo_keepalive demo_closing = Some (demo_closing\<lparr>c_closeack := True\<rparr>, [Req (Pkt None None cclose)])"
  "client_step demo_cclose (demo_closing\<lparr>c_closeack := True\<rparr>) =
     Some (demo_closing\<lparr>c_closeack := True\<rparr>, [Over (Pkt None None 5)])"
  by (simp_all add: client_handle_def client_handleReceive_def client_ack_def client_handleClose_def NewClient_wait_def
      Let_def demo_close_defs)

lemma demo_closed_reach: "client_reach NewParams (demo_closing\<lparr>c_closeack := True\<rparr>)"
proof -
  have "NewClient_start (Some \<lparr>naddr = ''srv''\<rparr>) (Some \<lparr>nconn = 0\<rparr>) NewParams =
      Some (demo_started, [Req (Pkt (Some zero_Message) None cconnects)])"
    by (simp add: NewClient_start_def dial_def new_client_def Let_def UDPAddr_String_def demo_started_def)
  then have 0: "client_reach NewParams demo_started" by (rule creach_new)
  have 1: "client_reach NewParams (demo_started\<lparr>c_conId := 1, c_readnum := 1, c_conn := (c_conn demo_started)\<lparr>seq := 1\<rparr>\<rparr>)"
    by (rule creach_move [OF 0 _ demo_close_steps(1)]) (simp add: demo_keepalive_def)
  have 2: "client_reach NewParams (demo_client\<lparr>c_readnum := 1\<rparr>)"
    by (rule creach_move [OF 1 _ demo_close_steps(2)]) (simp add: demo_close_defs)
  have 3: "client_reach NewParams demo_closing"
    by (rule creach_move [OF 2 _ demo_close_steps(3)]) (simp add: demo_cclose_def)
  show ?thesis by (rule creach_move [OF 3 _ demo_close_steps(4)]) (simp add: demo_keepalive_def)
qed

end
