(* ===== verification/LspRunners.thy ===== *)
theory LspRunners
  imports LspMessage
begin

text \<open>
  The echo programs \<open>crunner/crunner.go\<close> and \<open>srunner/srunner.go\<close>: the parameters they pass to the
  library from their flags, and their loops. The values of the flags and the results of the
  library's calls are arguments; what is printed goes to the terminal or to the log.
\<close>

section \<open>Flags\<close>

record flags =
  fl_port :: int
  fl_host :: string
  fl_readDrop :: int
  fl_writeDrop :: int
  fl_epochLimit :: int
  fl_epochMillis :: int
  fl_windowSize :: int
  fl_showLogs :: bool

definition default_flags :: flags where
  "default_flags = \<lparr>fl_port = 9999, fl_host = ''localhost'', fl_readDrop = 0, fl_writeDrop = 0,
     fl_epochLimit = DefaultEpochLimit, fl_epochMillis = DefaultEpochMillis,
     fl_windowSize = DefaultWindowSize, fl_showLogs = False\<rparr>"

definition flag_params :: "flags \<Rightarrow> Params" where
  "flag_params f = \<lparr>EpochLimit = fl_epochLimit f, EpochMillis = fl_epochMillis f,
     WindowSize = fl_windowSize f\<rparr>"

definition JoinHostPort :: "string \<Rightarrow> string \<Rightarrow> string" where
  "JoinHostPort host port =
     (if CHR '':'' \<in> set host \<or> CHR ''%'' \<in> set host then ''['' @ host @ '']:'' @ port
      else host @ '':'' @ port)"

text \<open>
  \<open>net.SplitHostPort\<close>: the port follows the last colon; a host with a colon or a zone stands in
  brackets. The errors are those of the \<open>AddrError\<close> that it returns.
\<close>

datatype addr_error = MissingPort | TooManyColons | MissingBrackets | MissingClose | UnexpectedOpen | UnexpectedClose

fun byteIndex :: "string \<Rightarrow> char \<Rightarrow> nat option" where
  "byteIndex [] c = None"
| "byteIndex (x # xs) c = (if x = c then Some 0 else map_option Suc (byteIndex xs c))"

fun last_byteIndex :: "string \<Rightarrow> char \<Rightarrow> nat option" where
  "last_byteIndex [] c = None"
| "last_byteIndex (x # xs) c =
     (case last_byteIndex xs c of Some i \<Rightarrow> Some (Suc i) | None \<Rightarrow> if x = c then Some 0 else None)"

definition split_check :: "string \<Rightarrow> nat \<Rightarrow> nat \<Rightarrow> nat \<Rightarrow> string \<Rightarrow> addr_error + string \<times> string" where
  "split_check hostport i j k host =
     (if CHR ''['' \<in> set (drop j hostport) then Inl UnexpectedOpen
      else if CHR '']'' \<in> set (drop k hostport) then Inl UnexpectedClose
      else Inr (host, drop (i + 1) hostport))"

definition SplitHostPort :: "string \<Rightarrow> addr_error + string \<times> string" where
  "SplitHostPort hostport =
     (case last_byteIndex hostport (CHR '':'') of
        None \<Rightarrow> Inl MissingPort
      | Some i \<Rightarrow>
          if hostport ! 0 = CHR ''['' then
            (case byteIndex hostport (CHR '']'') of
               None \<Rightarrow> Inl MissingClose
             | Some e \<Rightarrow>
                 if e + 1 = length hostport then Inl MissingPort
                 else if e + 1 = i then split_check hostport i 1 (e + 1) (drop 1 (take e hostport))
                 else if hostport ! (e + 1) = CHR '':'' then Inl TooManyColons
                 else Inl MissingPort)
          else
            (let host = take i hostport
             in if CHR '':'' \<in> set host then Inl TooManyColons
                else if CHR ''%'' \<in> set host then Inl MissingBrackets
                else split_check hostport i 0 0 host))"

lemma last_byteIndex_None: "last_byteIndex xs c = None \<longleftrightarrow> c \<notin> set xs"
  by (induction xs) (auto split: option.splits)

lemma last_byteIndex_append:
  "c \<notin> set ys \<Longrightarrow> last_byteIndex (xs @ c # ys) c = Some (length xs)"
  by (induction xs) (simp_all add: iffD2 [OF last_byteIndex_None])

lemma byteIndex_append: "c \<notin> set xs \<Longrightarrow> byteIndex (xs @ c # ys) c = Some (length xs)"
  by (induction xs) auto

text \<open>What is joined without brackets, and what with them.\<close>

lemma split_plain:
  assumes "CHR '':'' \<notin> set h" "CHR ''%'' \<notin> set h" "CHR ''['' \<notin> set h" "CHR '']'' \<notin> set h"
    and "CHR '':'' \<notin> set p" "CHR ''['' \<notin> set p" "CHR '']'' \<notin> set p"
  shows "SplitHostPort (h @ CHR '':'' # p) = Inr (h, p)"
proof -
  have "(h @ CHR '':'' # p) ! 0 \<noteq> CHR ''[''" using assms(3) by (cases h) auto
  then show ?thesis
    using last_byteIndex_append [OF assms(5), of h] assms by (simp add: SplitHostPort_def split_check_def Let_def)
qed

lemma split_bracketed:
  assumes "CHR ''['' \<notin> set h" "CHR '']'' \<notin> set h"
    and "CHR '':'' \<notin> set p" "CHR ''['' \<notin> set p" "CHR '']'' \<notin> set p"
  shows "SplitHostPort (CHR ''['' # h @ CHR '']'' # CHR '':'' # p) = Inr (h, p)"
proof -
  have "last_byteIndex (h @ CHR '']'' # CHR '':'' # p) (CHR '':'') = Some (length h + 1)"
    using last_byteIndex_append [OF assms(3), of "h @ '']''"] by simp
  then show ?thesis
    using assms byteIndex_append [OF assms(2)] by (simp add: SplitHostPort_def split_check_def)
qed

text \<open>The round trip, for hosts and ports without brackets, IPv6 addresses among them.\<close>

lemma split_join_host_port:
  assumes "CHR ''['' \<notin> set host" "CHR '']'' \<notin> set host"
    and "CHR '':'' \<notin> set port" "CHR ''['' \<notin> set port" "CHR '']'' \<notin> set port"
  shows "SplitHostPort (JoinHostPort host port) = Inr (host, port)"
  using split_plain [OF _ _ assms] split_bracketed [OF assms] by (simp add: JoinHostPort_def)

definition crunner_setup :: "flags \<Rightarrow> netstate \<Rightarrow> netstate" where
  "crunner_setup f n =
     (let n1 = (if fl_showLogs f then EnableDebugLogs True n else n)
      in SetClientWriteDropPercent (fl_writeDrop f) (SetClientReadDropPercent (fl_readDrop f) n1))"

definition srunner_setup :: "flags \<Rightarrow> netstate \<Rightarrow> netstate" where
  "srunner_setup f n =
     (let n1 = (if fl_showLogs f then EnableDebugLogs True n else n)
      in SetServerWriteDropPercent (fl_writeDrop f) (SetServerReadDropPercent (fl_readDrop f) n1))"

text \<open>The format \<open>'%s'\<close> and the line end of the printed texts.\<close>

definition quoted :: "string \<Rightarrow> string" where
  "quoted s = [CHR 0x27] @ s @ [CHR 0x27]"

definition nl :: string where
  "nl = [CHR 0x0A]"

section \<open>The client's loop\<close>

datatype run_effect = Print string | Logf string | CallWrite bytes | CallRead | SrvWrite int bytes

text \<open>
  One turn: the token scanned from the input (\<open>None\<close> at its end), the error of \<open>Write\<close> and the
  result of \<open>Read\<close>. The boolean says whether the loop goes on.
\<close>

definition runClient_turn :: "int \<Rightarrow> string option \<Rightarrow> string option \<Rightarrow> string + bytes \<Rightarrow> run_effect list \<times> bool" where
  "runClient_turn i tok werr rd =
     (case tok of
        None \<Rightarrow> ([Print ''Client: ''], False)
      | Some s \<Rightarrow>
          (case werr of
             Some err \<Rightarrow> ([Print ''Client: '', CallWrite s,
                Print (''Client '' @ show_int i @ '' failed to write to server: '' @ err @ nl)], False)
           | None \<Rightarrow>
               (let w = [Print ''Client: '', CallWrite s,
                         Logf (''Client '' @ show_int i @ '' wrote '' @ quoted s @ '' to server'' @ nl), CallRead]
                in case rd of
                     Inl err \<Rightarrow> (w @ [Print (''Client '' @ show_int i @ '' failed to read from server: '' @ err @ nl)], False)
                   | Inr payload \<Rightarrow> (w @ [Print (''Server: '' @ payload @ nl)], True))))"

fun runClient :: "int \<Rightarrow> (string option \<times> string option \<times> (string + bytes)) list \<Rightarrow> run_effect list" where
  "runClient i [] = []"
| "runClient i ((tok, werr, rd) # ins) =
     (case runClient_turn i tok werr rd of
        (es, True) \<Rightarrow> es @ runClient i ins
      | (es, False) \<Rightarrow> es @ [Print (''Exiting...'' @ nl)])"

definition crunner_main :: "flags \<Rightarrow> (string + int) \<Rightarrow> (string option \<times> string option \<times> (string + bytes)) list
     \<Rightarrow> netstate \<Rightarrow> netstate \<times> Params \<times> run_effect list" where
  "crunner_main f cli ins n =
     (let hostport = JoinHostPort (fl_host f) (show_int (fl_port f));
          start = [Print (''Connecting to server at '' @ quoted hostport @ ''...'' @ nl)]
      in (crunner_setup f n, flag_params f,
          case cli of
            Inl err \<Rightarrow> start @ [Print (''Failed to connect to server at '' @ hostport @ '': '' @ err @ nl)]
          | Inr i \<Rightarrow> start @ runClient i ins))"

section \<open>The server's loop\<close>

definition runServer_turn :: "(int \<times> string) + (int \<times> bytes) \<Rightarrow> string option \<Rightarrow> run_effect list" where
  "runServer_turn rd werr =
     (case rd of
        Inl (i, err) \<Rightarrow> [Print (''Client '' @ show_int i @ '' has died: '' @ err @ nl)]
      | Inr (i, payload) \<Rightarrow>
          [Logf (''Server received '' @ quoted payload @ '' from client '' @ show_int i @ nl), SrvWrite i payload,
           (case werr of
              Some err \<Rightarrow> Print (''Server failed to write to connection '' @ show_int i @ '': '' @ err @ nl)
            | None \<Rightarrow> Logf (''Server wrote '' @ quoted payload @ '' to client '' @ show_int i @ nl))])"

fun runServer :: "(((int \<times> string) + (int \<times> bytes)) \<times> string option) list \<Rightarrow> run_effect list" where
  "runServer [] = []"
| "runServer ((rd, werr) # ins) = runServer_turn rd werr @ runServer ins"

definition srunner_main :: "flags \<Rightarrow> string option \<Rightarrow> (((int \<times> string) + (int \<times> bytes)) \<times> string option) list
     \<Rightarrow> netstate \<Rightarrow> netstate \<times> Params \<times> run_effect list" where
  "srunner_main f srv ins n =
     (let start = [Print (''Starting server on port '' @ show_int (fl_port f) @ ''...'' @ nl)]
      in (srunner_setup f n, flag_params f,
          case srv of
            Some err \<Rightarrow> start @ [Print (''Failed to start Server on port '' @ show_int (fl_port f) @ '': '' @ err @ nl)]
          | None \<Rightarrow> start @ [Print (''Server waiting for clients...'' @ nl)] @ runServer ins))"

text \<open>The server echoes exactly what it reads, to the connection it came from and in that order.\<close>

fun echo_of :: "run_effect \<Rightarrow> (int \<times> bytes) option" where
  "echo_of (SrvWrite i p) = Some (i, p)"
| "echo_of _ = None"

fun was_read :: "((int \<times> string) + (int \<times> bytes)) \<Rightarrow> (int \<times> bytes) option" where
  "was_read (Inr x) = Some x"
| "was_read (Inl _) = None"

lemma runServer_echo:
  "List.map_filter echo_of (runServer ins) = List.map_filter (was_read \<circ> fst) ins"
  by (induction ins rule: runServer.induct)
    (auto simp: List.map_filter_def runServer_turn_def split: sum.split option.split)

end
