(* ===== verification/LspLive.thy ===== *)
theory LspLive
  imports LspLink
begin

text \<open>
  Progress of a link. The interfaces \<open>live_sender\<close> and \<open>live_receiver\<close> say what a sender and a
  receiver that are ready can do next; \<open>live_link\<close> proves from them that a link never wedges: from
  every state it can still deliver and acknowledge all that has been written.

  The sender's window can come to rest with nothing in flight and messages in the queue, because
  the loop that slides the window stops as soon as \<open>databuf\<close> is empty. What gets it going again is
  a further copy of the acknowledgement at the start of the window, which the network may still
  hold, and which the receiver repeats at every epoch.
\<close>

locale live_sender = window_sender sstep sinv cid W
  for sstep :: "'s sender_step" and sinv and cid and W +
  fixes flight :: "'s \<Rightarrow> int set" and queued :: "'s \<Rightarrow> int set" and sready :: "'s \<Rightarrow> bool" and low :: "'s \<Rightarrow> int"
  assumes flight_write: "sinv h A lo s \<Longrightarrow> sstep s (SWrite p) s' D \<Longrightarrow> n \<in> flight s' \<Longrightarrow>
      n \<in> flight s \<or> wmsg cid (h @ [p]) n \<in> D"
    and flight_ack: "sinv h A lo s \<Longrightarrow> sstep s (SAck k) s' D \<Longrightarrow> 1 \<le> k \<Longrightarrow> k \<le> int (length h) \<Longrightarrow>
      k < lo + W \<Longrightarrow> n \<in> flight s' \<Longrightarrow> n \<in> flight s \<or> wmsg cid h n \<in> D"
    and flight_other: "sinv h A lo s \<Longrightarrow> sstep s SOther s' D \<Longrightarrow> n \<in> flight s' \<Longrightarrow>
      n \<in> flight s \<or> wmsg cid h n \<in> D"
    and flight_range: "sinv h A lo s \<Longrightarrow> n \<in> flight s \<Longrightarrow>
      lo \<le> n \<and> 1 \<le> n \<and> n \<le> int (length h) \<and> n < lo + W"
    and queued_range: "sinv h A lo s \<Longrightarrow> n \<in> queued s \<Longrightarrow> lo + W \<le> n \<and> 1 \<le> n \<and> n \<le> int (length h)"
    and ready_window: "sinv h A lo s \<Longrightarrow> sready s \<Longrightarrow> lo = low s \<and> 1 \<le> W \<and> 1 \<le> lo \<and> lo \<le> int (length h) + 1"
    and unacknowledged: "sinv h A lo s \<Longrightarrow> sready s \<Longrightarrow> 1 \<le> n \<Longrightarrow> n \<le> int (length h) \<Longrightarrow>
      n \<in> A \<or> n \<in> flight s \<or> n \<in> queued s"
    and take_ack: "sinv h A lo s \<Longrightarrow> sready s \<Longrightarrow> n \<in> flight s \<or> n = low s \<and> queued s \<noteq> {} \<Longrightarrow>
      \<exists>s' D. sstep s (SAck n) s' D \<and> sready s' \<and> flight s' \<union> queued s' = flight s \<union> queued s - {n} \<and>
        low s \<le> low s' \<and> (n = low s \<longrightarrow> low s < low s')"

locale live_receiver = window_receiver rstep rinv cid W
  for rstep :: "'r receiver_step" and rinv and cid and W +
  fixes rready :: "'r \<Rightarrow> bool" and rlow :: "'r \<Rightarrow> int"
  assumes low_arrived: "rinv h R k r \<Longrightarrow> rready r \<Longrightarrow> rlow r = 1 \<or> rlow r + W - 1 \<in> R"
    and take_data: "rinv h R k r \<Longrightarrow> rready r \<Longrightarrow> 1 \<le> n \<Longrightarrow> n \<le> int (length h) \<Longrightarrow> rlow r \<le> n \<Longrightarrow>
      \<exists>r' As out. rstep r (RData (wmsg cid h n)) r' As out \<and> rready r' \<and> n \<in> As"
    and take_next: "rinv h R k r \<Longrightarrow> rready r \<Longrightarrow> k \<in> R \<Longrightarrow>
      \<exists>r' As p. rstep r ROther r' As [p] \<and> rready r'"

locale live_link =
  reliable_link sstep sinv rstep rinv cid W W' + ls: live_sender sstep sinv cid W flight queued sready low +
  lr: live_receiver rstep rinv cid W' rready rlow
  for sstep :: "'s sender_step" and sinv and rstep :: "'r receiver_step" and rinv and cid and W and W'
    and flight and queued and sready and low and rready and rlow
begin

text \<open>What is in flight has been sent.\<close>

lemma flight_sent:
  assumes "link_reach sstep rstep s0 r0 l" and s0: "sinv [] {} lo0 s0" and r0: "rinv [] {} 1 r0" and f: "flight s0 = {}"
  shows "\<forall>n \<in> flight (l_snd l). wmsg cid (l_hist l) n \<in> l_dnet l"
  using assms(1)
proof (induction rule: link_reach.induct)
  case reach_start
  then show ?case using f by (simp add: link_start_def)
next
  case (reach_step l l')
  obtain A lo R k where I: "sinv (l_hist l) A lo (l_snd l)" "rinv (l_hist l) R k (l_rcv l)" "A \<subseteq> R" "A \<subseteq> l_anet l"
    "\<forall>m \<in> l_dnet l. sendable cid W (l_hist l) lo m" "l_anet l \<subseteq> R" "l_out l = take (nat (k - 1)) (l_hist l)"
    "\<forall>n \<in> R. n < lo + W"
    using link_inv [OF reach_step(1) s0 r0] by blast
  note IH = reach_step.IH and step = reach_step(2)
  from step show ?case
  proof (cases rule: link_step.cases)
    case (link_write p s' D)
    have "wmsg cid (l_hist l @ [p]) n \<in> l_dnet l \<union> D" if n: "n \<in> flight s'" for n
    proof (cases "n \<in> flight (l_snd l)")
      case True
      then show ?thesis using IH ls.flight_range [OF I(1) True] by (simp add: wmsg_append)
    next
      case False
      then show ?thesis using ls.flight_write [OF I(1) link_write(2) n] by blast
    qed
    then show ?thesis by (simp add: link_write(1))
  next
    case (link_ack j s' D)
    have j: "j \<in> R" using link_ack(2) I(6) by blast
    then have b: "1 \<le> j" "j \<le> int (length (l_hist l))" "j < lo + W" using rcv.rcv_bounds [OF I(2) j] I(8) by blast+
    show ?thesis using IH ls.flight_ack [OF I(1) link_ack(3) b] by (auto simp: link_ack(1))
  next
    case (link_snd s' D)
    then show ?thesis using IH ls.flight_other [OF I(1) link_snd(2)] by auto
  qed (use IH in auto)
qed

text \<open>One round: a message in flight is delivered, and its acknowledgement comes back.\<close>

lemma runs_reach: "(link_step sstep rstep)\<^sup>*\<^sup>* l l' \<Longrightarrow> link_reach sstep rstep s0 r0 l \<Longrightarrow> link_reach sstep rstep s0 r0 l'"
  by (induction rule: rtranclp_induct) (auto intro: link_reach.intros)

lemma ack_round:
  assumes reach: "link_reach sstep rstep s0 r0 l" and s0: "sinv [] {} lo0 s0" and r0: "rinv [] {} 1 r0"
    and f: "flight s0 = {}" and ready: "sready (l_snd l)" "rready (l_rcv l)" and n: "n \<in> flight (l_snd l)"
  shows "\<exists>l'. (link_step sstep rstep)\<^sup>*\<^sup>* l l' \<and> l_hist l' = l_hist l \<and> sready (l_snd l') \<and> rready (l_rcv l') \<and>
    flight (l_snd l') \<union> queued (l_snd l') = flight (l_snd l) \<union> queued (l_snd l) - {n} \<and> low (l_snd l) \<le> low (l_snd l')"
proof -
  obtain A lo R k where I: "sinv (l_hist l) A lo (l_snd l)" "rinv (l_hist l) R k (l_rcv l)" "A \<subseteq> R" "A \<subseteq> l_anet l"
    "\<forall>m \<in> l_dnet l. sendable cid W (l_hist l) lo m" "l_anet l \<subseteq> R" "l_out l = take (nat (k - 1)) (l_hist l)"
    "\<forall>n \<in> R. n < lo + W"
    using link_inv [OF reach s0 r0] by blast
  have b: "lo \<le> n" "1 \<le> n" "n \<le> int (length (l_hist l))" using ls.flight_range [OF I(1) n] by blast+
  have "rlow (l_rcv l) \<le> n"
  proof (cases "rlow (l_rcv l) = 1")
    case False
    then have "rlow (l_rcv l) + W' - 1 \<in> R" using lr.low_arrived [OF I(2) ready(2)] by blast
    then have "rlow (l_rcv l) + W' - 1 < lo + W" using I(8) by blast
    then show ?thesis using windows b(1) by linarith
  qed (use b in simp)
  then obtain r' As out where r': "rstep (l_rcv l) (RData (wmsg cid (l_hist l) n)) r' As out" "rready r'" "n \<in> As"
    using lr.take_data [OF I(2) ready(2) b(2,3)] by blast
  have m: "wmsg cid (l_hist l) n \<in> l_dnet l" using flight_sent [OF reach s0 r0 f] n by blast
  let ?l = "l\<lparr>l_rcv := r', l_anet := l_anet l \<union> As, l_out := l_out l @ out\<rparr>"
  have 1: "link_step sstep rstep l ?l" by (rule link_step.link_data [where rstep = rstep and l = l, OF m r'(1)])
  obtain s' D where s': "sstep (l_snd l) (SAck n) s' D" "sready s'"
    "flight s' \<union> queued s' = flight (l_snd l) \<union> queued (l_snd l) - {n}" "low (l_snd l) \<le> low s'"
    using ls.take_ack [OF I(1) ready(1)] n by blast
  have 2: "link_step sstep rstep ?l (?l\<lparr>l_snd := s', l_dnet := l_dnet ?l \<union> D\<rparr>)"
    by (rule link_step.link_ack [of n]) (use r'(3) s'(1) in simp_all)
  show ?thesis
    by (rule exI [of _ "?l\<lparr>l_snd := s', l_dnet := l_dnet ?l \<union> D\<rparr>"])
      (use converse_rtranclp_into_rtranclp [of "link_step sstep rstep", OF 1 r_into_rtranclp [of "link_step sstep rstep", OF 2]] r'(2) s' in simp)
qed

text \<open>With nothing in flight the acknowledgement at the start of the window is known, and moves it.\<close>

lemma slide_round:
  assumes reach: "link_reach sstep rstep s0 r0 l" and s0: "sinv [] {} lo0 s0" and r0: "rinv [] {} 1 r0"
    and ready: "sready (l_snd l)" "rready (l_rcv l)"
    and f: "flight (l_snd l) = {}" and q: "queued (l_snd l) \<noteq> {}"
  shows "\<exists>l'. (link_step sstep rstep)\<^sup>*\<^sup>* l l' \<and> l_hist l' = l_hist l \<and> sready (l_snd l') \<and> rready (l_rcv l') \<and>
    flight (l_snd l') \<union> queued (l_snd l') = flight (l_snd l) \<union> queued (l_snd l) \<and> low (l_snd l) < low (l_snd l')"
proof -
  obtain A lo R k where I: "sinv (l_hist l) A lo (l_snd l)" "rinv (l_hist l) R k (l_rcv l)" "A \<subseteq> R" "A \<subseteq> l_anet l"
    "\<forall>m \<in> l_dnet l. sendable cid W (l_hist l) lo m" "l_anet l \<subseteq> R" "l_out l = take (nat (k - 1)) (l_hist l)"
    "\<forall>n \<in> R. n < lo + W"
    using link_inv [OF reach s0 r0] by blast
  have w: "lo = low (l_snd l)" "1 \<le> W" "1 \<le> lo" using ls.ready_window [OF I(1) ready(1)] by blast+
  obtain n where "n \<in> queued (l_snd l)" using q by blast
  then have "lo \<le> int (length (l_hist l))" using ls.queued_range [OF I(1), of n] w(2) by linarith
  moreover have nq: "lo \<notin> queued (l_snd l)" using ls.queued_range [OF I(1), of lo] w(2) by force
  ultimately have "lo \<in> A" using ls.unacknowledged [OF I(1) ready(1) w(3)] f by blast
  then have a: "lo \<in> l_anet l" using I(4) by blast
  obtain s' D where s': "sstep (l_snd l) (SAck lo) s' D" "sready s'"
    "flight s' \<union> queued s' = flight (l_snd l) \<union> queued (l_snd l) - {lo}" "low (l_snd l) < low s'"
    using ls.take_ack [OF I(1) ready(1), of lo] q w(1) by blast
  have "link_step sstep rstep l (l\<lparr>l_snd := s', l_dnet := l_dnet l \<union> D\<rparr>)"
    by (rule link_step.link_ack [where sstep = sstep and l = l, OF a s'(1)])
  then show ?thesis
    by (intro exI [of _ "l\<lparr>l_snd := s', l_dnet := l_dnet l \<union> D\<rparr>"]) (use s' ready(2) nq f in auto)
qed

text \<open>Rounds repeat until everything is acknowledged.\<close>

lemma drain:
  assumes "link_reach sstep rstep s0 r0 l" and s0: "sinv [] {} lo0 s0" and r0: "rinv [] {} 1 r0"
    and f0: "flight s0 = {}" and "sready (l_snd l)" and "rready (l_rcv l)"
  shows "\<exists>l'. (link_step sstep rstep)\<^sup>*\<^sup>* l l' \<and> l_hist l' = l_hist l \<and> sready (l_snd l') \<and> rready (l_rcv l') \<and>
    flight (l_snd l') = {} \<and> queued (l_snd l') = {}"
  using assms(1,5,6)
proof (induction "card (flight (l_snd l) \<union> queued (l_snd l)) + nat (int (length (l_hist l)) + 1 - low (l_snd l))"
    arbitrary: l rule: less_induct)
  case less
  let ?U = "\<lambda>l. flight (l_snd l) \<union> queued (l_snd l)"
  note reach = less.prems(1) and ready = less.prems(2,3)
  have win: "\<exists>h A lo. h = l_hist l \<and> sinv h A lo (l_snd l)" if "link_reach sstep rstep s0 r0 l" for l
    using link_inv [OF that s0 r0] by blast
  have bound: "low (l_snd l) \<le> int (length (l_hist l)) + 1"
    if "link_reach sstep rstep s0 r0 l" "sready (l_snd l)" for l
    using win [OF that(1)] ls.ready_window that(2) by blast
  have fin: "finite (?U l)"
  proof (rule finite_subset)
    show "?U l \<subseteq> {1..int (length (l_hist l))}"
      using win [OF reach] ls.flight_range ls.queued_range by fastforce
  qed simp
  have go: "?case" if l1: "(link_step sstep rstep)\<^sup>*\<^sup>* l l1" "l_hist l1 = l_hist l" "sready (l_snd l1)" "rready (l_rcv l1)"
    and m: "card (?U l1) + nat (int (length (l_hist l)) + 1 - low (l_snd l1)) <
      card (?U l) + nat (int (length (l_hist l)) + 1 - low (l_snd l))" for l1
  proof -
    have reach1: "link_reach sstep rstep s0 r0 l1" by (rule runs_reach [OF l1(1) reach])
    obtain l2 where "(link_step sstep rstep)\<^sup>*\<^sup>* l1 l2" "l_hist l2 = l_hist l1" "sready (l_snd l2)" "rready (l_rcv l2)"
      "flight (l_snd l2) = {}" "queued (l_snd l2) = {}"
      using less.hyps [OF _ reach1 l1(3,4)] m l1(2) by auto
    then show ?thesis using l1(1,2) by (metis rtranclp_trans)
  qed
  consider (fl) n where "n \<in> flight (l_snd l)" | (qu) "flight (l_snd l) = {}" "queued (l_snd l) \<noteq> {}"
    | (no) "flight (l_snd l) = {}" "queued (l_snd l) = {}" by blast
  then show ?case
  proof cases
    case fl
    obtain l1 where l1: "(link_step sstep rstep)\<^sup>*\<^sup>* l l1" "l_hist l1 = l_hist l" "sready (l_snd l1)" "rready (l_rcv l1)"
      "?U l1 = ?U l - {n}" "low (l_snd l) \<le> low (l_snd l1)"
      using ack_round [OF reach s0 r0 f0 ready fl] by blast
    have "card (?U l1) < card (?U l)" unfolding l1(5) using fin fl by (intro card_Diff1_less) auto
    then show ?thesis using l1(6) by (intro go [OF l1(1-4)]) linarith
  next
    case qu
    obtain l1 where l1: "(link_step sstep rstep)\<^sup>*\<^sup>* l l1" "l_hist l1 = l_hist l" "sready (l_snd l1)" "rready (l_rcv l1)"
      "?U l1 = ?U l" "low (l_snd l) < low (l_snd l1)"
      using slide_round [OF reach s0 r0 ready qu] by blast
    have "low (l_snd l1) \<le> int (length (l_hist l)) + 1"
      using bound [OF runs_reach [OF l1(1) reach] l1(3)] l1(2) by simp
    then show ?thesis using l1(5,6) by (intro go [OF l1(1-4)]) simp
  next
    case no
    then show ?thesis using ready by blast
  qed
qed

text \<open>Then the reader can read it all.\<close>

lemma read_all:
  assumes "link_reach sstep rstep s0 r0 l" and s0: "sinv [] {} lo0 s0" and r0: "rinv [] {} 1 r0"
    and "sready (l_snd l)" and "rready (l_rcv l)" and "flight (l_snd l) = {}" and "queued (l_snd l) = {}"
  shows "\<exists>l'. (link_step sstep rstep)\<^sup>*\<^sup>* l l' \<and> l_hist l' = l_hist l \<and> l_snd l' = l_snd l \<and> l_out l' = l_hist l"
  using assms(1,4-7)
proof (induction "length (l_hist l) - length (l_out l)" arbitrary: l rule: less_induct)
  case less
  note reach = less.prems(1) and ready = less.prems(2,3) and none = less.prems(4,5)
  obtain A lo R k where I: "sinv (l_hist l) A lo (l_snd l)" "rinv (l_hist l) R k (l_rcv l)" "A \<subseteq> R" "A \<subseteq> l_anet l"
    "\<forall>m \<in> l_dnet l. sendable cid W (l_hist l) lo m" "l_anet l \<subseteq> R" "l_out l = take (nat (k - 1)) (l_hist l)"
    "\<forall>n \<in> R. n < lo + W"
    using link_inv [OF reach s0 r0] by blast
  have k: "1 \<le> k" "k \<le> int (length (l_hist l)) + 1" using rcv.rcv_next [OF I(2)] by blast+
  show ?case
  proof (cases "k = int (length (l_hist l)) + 1")
    case True
    then have "l_out l = l_hist l" using I(7) by simp
    then show ?thesis by blast
  next
    case False
    then have kl: "k \<le> int (length (l_hist l))" using k by simp
    then have "k \<in> A" using ls.unacknowledged [OF I(1) ready(1) k(1)] none by blast
    then have "k \<in> R" using I(3) by blast
    then obtain r' As p where r': "rstep (l_rcv l) ROther r' As [p]" "rready r'"
      using lr.take_next [OF I(2) ready(2)] by blast
    let ?l = "l\<lparr>l_rcv := r', l_anet := l_anet l \<union> As, l_out := l_out l @ [p]\<rparr>"
    have st: "link_step sstep rstep l ?l" by (rule link_step.link_rcv [where rstep = rstep and l = l, OF r'(1)])
    have reach1: "link_reach sstep rstep s0 r0 ?l" by (rule link_reach.reach_step [OF reach st])
    have "length (l_out l) < length (l_hist l)" using I(7) k kl by simp
    then have "length (l_hist ?l) - length (l_out ?l) < length (l_hist l) - length (l_out l)" by simp
    from less.hyps [OF this reach1] obtain l2 where l2: "(link_step sstep rstep)\<^sup>*\<^sup>* ?l l2" "l_hist l2 = l_hist l"
      "l_snd l2 = l_snd l" "l_out l2 = l_hist l"
      using ready r'(2) none by auto
    then show ?thesis using converse_rtranclp_into_rtranclp [of "link_step sstep rstep", OF st l2(1)] by blast
  qed
qed

lemma never_wedged:
  assumes "link_reach sstep rstep s0 r0 l" and "sinv [] {} lo0 s0" and "rinv [] {} 1 r0" and "flight s0 = {}"
    and "sready (l_snd l)" and "rready (l_rcv l)"
  obtains l' where "(link_step sstep rstep)\<^sup>*\<^sup>* l l'" and "l_hist l' = l_hist l" and "l_out l' = l_hist l"
    and "sready (l_snd l')" and "flight (l_snd l') = {}" and "queued (l_snd l') = {}"
proof -
  obtain l1 where l1: "(link_step sstep rstep)\<^sup>*\<^sup>* l l1" "l_hist l1 = l_hist l" "sready (l_snd l1)" "rready (l_rcv l1)"
    "flight (l_snd l1) = {}" "queued (l_snd l1) = {}"
    using drain [OF assms] by blast
  obtain l2 where "(link_step sstep rstep)\<^sup>*\<^sup>* l1 l2" "l_hist l2 = l_hist l1" "l_snd l2 = l_snd l1" "l_out l2 = l_hist l1"
    using read_all [OF runs_reach [OF l1(1) assms(1)] assms(2,3) l1(3-6)] by blast
  then show thesis using that l1 by (metis rtranclp_trans)
qed

end

end
