(* ===== verification/LspClientLive.thy ===== *)
theory LspClientLive
  imports LspClientLink LspLive
begin

text \<open>
  What a connection and a client can do next: the window when an acknowledgement comes in, and the
  client as a \<open>live_sender\<close> and a \<open>live_receiver\<close>.
\<close>

section \<open>The window\<close>

definition in_flight :: "Connect \<Rightarrow> int set" where
  "in_flight v = {n. mhas (databuf v) n}"

definition in_queue :: "Connect \<Rightarrow> int set" where
  "in_queue v = {n. mhas (writebuf v) n}"

lemma in_flight_frame: "databuf v' = databuf v \<Longrightarrow> in_flight v' = in_flight v"
  by (simp add: in_flight_def)

lemma in_queue_frame: "writebuf v' = writebuf v \<Longrightarrow> in_queue v' = in_queue v"
  by (simp add: in_queue_def)

lemma in_flight_update [simp]:
  "in_flight (v\<lparr>receive := i\<rparr>) = in_flight v" "in_flight (v\<lparr>lastrece := i\<rparr>) = in_flight v"
  "in_flight (v\<lparr>seq := i\<rparr>) = in_flight v" "in_queue (v\<lparr>receive := i\<rparr>) = in_queue v"
  "in_queue (v\<lparr>lastrece := i\<rparr>) = in_queue v" "in_queue (v\<lparr>seq := i\<rparr>) = in_queue v"
  by (simp_all add: in_flight_def in_queue_def)

lemma snd_inv_flight:
  assumes "snd_inv cid h A ct v" and "n \<in> in_flight v"
  shows "seq v \<le> n \<and> 1 \<le> n \<and> n \<le> int (length h) \<and> n < seq v + WindowSize (params v)"
  using snd_invD(1,3) [OF assms(1)] snd_invD(6) [OF assms(1), of n] assms(2) by (auto simp: in_flight_def mhas_def)

lemma snd_inv_queue:
  assumes "snd_inv cid h A ct v" and "n \<in> in_queue v"
  shows "seq v + WindowSize (params v) \<le> n \<and> 1 \<le> n \<and> n \<le> int (length h)"
  using snd_invD(1-3) [OF assms(1)] snd_invD(7) [OF assms(1), of n] assms(2) by (auto simp: in_queue_def mhas_def)

lemma snd_inv_waiting:
  assumes "snd_inv cid h A ct v" and "1 \<le> n" and "n \<le> int (length h)"
  shows "n \<in> A \<or> n \<in> in_flight v \<or> n \<in> in_queue v"
  using snd_invD(1) [OF assms(1)] snd_invD(8) [OF assms(1,2)] assms(3) by (simp add: in_flight_def in_queue_def)

text \<open>A write puts its message in flight by sending it.\<close>

lemma enqueue_flight:
  assumes "k \<in> in_flight (fst (enqueue n m v))"
  shows "k \<in> in_flight v \<or> k = n \<and> snd (enqueue n m v) = [m]"
  using assms by (auto simp: enqueue_def in_flight_def split: if_splits)

text \<open>So does the slide of the window.\<close>

lemma ack_slide_flight:
  assumes inv: "snd_inv cid h A ct v" and k: "k \<in> in_flight (fst (ack_slide n v))"
  shows "k \<in> in_flight v \<or> wmsg cid h k \<in> set (snd (ack_slide n v))"
proof -
  obtain j where sl: "slid n v j (fst (ack_slide n v)) (snd (ack_slide n v))"
    using ack_slide_slid snd_invD(2) [OF inv] by blast
  show ?thesis
  proof (cases "seq v + WindowSize (params v) \<le> k \<and> k < seq v + WindowSize (params v) + j \<and> mhas (writebuf v) k")
    case True
    then obtain x where x: "fmlookup (writebuf v) k = Some x" by (auto simp: mhas_def)
    have "x \<in> set (snd (ack_slide n v))" unfolding slidD(7) [OF sl] using True x by blast
    then show ?thesis using snd_invD(7) [OF inv x] by simp
  next
    case False
    then show ?thesis using k slidD(5) [OF sl, of k] by (auto simp: in_flight_def mhas_def split: if_splits)
  qed
qed

text \<open>The acknowledged message is done, no other one is, and the window does not move back.\<close>

lemma ack_slide_progress:
  assumes inv: "snd_inv cid h A ct v" and n: "seq v \<le> n" "n < seq v + WindowSize (params v)"
  shows "in_flight (fst (ack_slide n v)) \<union> in_queue (fst (ack_slide n v)) = in_flight v \<union> in_queue v - {n}"
    and "seq v \<le> seq (fst (ack_slide n v))" and "n = seq v \<Longrightarrow> seq v < seq (fst (ack_slide n v))"
proof -
  let ?v = "fst (ack_slide n v)"
  obtain j where sl: "slid n v j ?v (snd (ack_slide n v))" using ack_slide_slid snd_invD(2) [OF inv] by blast
  note S = slidD [OF sl]
  have nw: "\<not> mhas (writebuf v) n" using snd_inv_queue [OF inv, of n] n by (auto simp: in_queue_def)
  have "mhas (databuf ?v) k \<or> mhas (writebuf ?v) k \<longleftrightarrow> (mhas (databuf v) k \<or> mhas (writebuf v) k) \<and> k \<noteq> n" for k
    using S(5,6) [of k] nw by (auto simp: mhas_def split: if_splits)
  then show "in_flight ?v \<union> in_queue ?v = in_flight v \<union> in_queue v - {n}" by (auto simp: in_flight_def in_queue_def)
  show "seq v \<le> seq ?v" "n = seq v \<Longrightarrow> seq v < seq ?v" using S(1,3,4) by simp_all
qed

lemma ack_window_has:
  assumes inv: "snd_inv cid h A ct v" and n: "n \<in> in_flight v \<or> n = seq v \<and> in_queue v \<noteq> {}"
  shows "ack_in_window n v" and "n < seq v + WindowSize (params v)" and "1 \<le> n"
    and "mlen (databuf v) \<noteq> 0 \<or> mlen (writebuf v) \<noteq> 0"
proof -
  show "n < seq v + WindowSize (params v)" "1 \<le> n" "ack_in_window n v"
    using n snd_invD(2,3) [OF inv] snd_inv_flight [OF inv, of n] by (auto simp: ack_in_window_def)
  show "mlen (databuf v) \<noteq> 0 \<or> mlen (writebuf v) \<noteq> 0"
    using n by (auto simp: in_flight_def in_queue_def)
qed

section \<open>The client sends\<close>

definition client_ready :: "client \<Rightarrow> bool" where
  "client_ready c \<longleftrightarrow> \<not> (c_closepend c \<and> losted (c_conn c))"

definition client_flight :: "client \<Rightarrow> int set" where
  "client_flight c = in_flight (c_conn c)"

definition client_queue :: "client \<Rightarrow> int set" where
  "client_queue c = in_queue (c_conn c)"

definition client_low :: "client \<Rightarrow> int" where
  "client_low c = seq (c_conn c)"

lemma client_sinv_snd:
  assumes "client_sinv cid W h A lo c"
  shows "snd_inv cid h A (c_sendct c) (c_conn c)" and "lo = seq (c_conn c)" and "W = WindowSize (params (c_conn c))"
    and "0 < cid" and "c_conId c = cid"
  using assms by (simp_all add: client_sinv_def c_snd_inv_def)

lemma client_quiet_flight: "c_quiet c c' \<Longrightarrow> client_flight c' = client_flight c"
  by (simp add: c_quiet_def same_window_def client_flight_def in_flight_def)

lemma client_flight_write:
  assumes inv: "client_sinv cid W h A lo c" and st: "client_sstep c (SWrite p) c' D" and n: "n \<in> client_flight c'"
  shows "n \<in> client_flight c \<or> wmsg cid (h @ [p]) n \<in> D"
proof -
  obtain i es where i: "client_step i c = Some (c', es)" "client_sev i = SWrite p" "D = data_sent es"
    using st by (auto simp: client_sstep_def)
  have w: "(c', es) = client_handleWrite p c"
    using i(1)
  proof (cases rule: client_step_cases)
    case quiet
    then show ?thesis using i(2) by blast
  next
    case (sack m)
    then show ?thesis using i(2) by (simp split: if_splits)
  qed (use i(2) in simp_all)
  let ?ct = "c_sendct c" and ?m = "NewData cid (c_sendct c) p"
  have c': "c_conn c' = fst (enqueue ?ct ?m (c_conn c))" "es = map Send (snd (enqueue ?ct ?m (c_conn c)))"
    using w client_sinv_snd(5) [OF inv] by (simp_all add: client_handleWrite_def Let_def split_beta)
  have "wmsg cid (h @ [p]) ?ct = ?m" using snd_invD(1) [OF client_sinv_snd(1) [OF inv]] by (simp add: wmsg_last)
  moreover have "?m \<in> D" if "snd (enqueue ?ct ?m (c_conn c)) = [?m]"
    using that c'(2) by (simp add: i(3) data_sent_def NewData_def)
  ultimately show ?thesis using enqueue_flight n unfolding client_flight_def c'(1) by metis
qed

lemma client_flight_client_ack:
  assumes inv: "client_sinv cid W h A lo c" and n: "n \<in> client_flight (fst (client_ack m c))"
  shows "n \<in> client_flight c \<or> wmsg cid h n \<in> data_sent (snd (client_ack m c))"
proof -
  let ?v = "(c_conn c)\<lparr>receive := lastrece (c_conn c)\<rparr>"
  have id: "c_conId c \<noteq> 0" using client_sinv_snd(4,5) [OF inv] by simp
  have s: "snd_inv cid h A (c_sendct c) ?v" using client_sinv_snd(1) [OF inv] snd_inv_frame [of ?v "c_conn c"] by simp
  have "client_ack m c = (c\<lparr>c_conn := fst (ack_slide (SeqNum m) ?v)\<rparr>, map Send (snd (ack_slide (SeqNum m) ?v))) \<or>
      client_flight (fst (client_ack m c)) = client_flight c"
    using id by (simp add: client_ack_def Let_def split_beta client_flight_def)
  then show ?thesis
  proof
    assume sl: "client_ack m c = (c\<lparr>c_conn := fst (ack_slide (SeqNum m) ?v)\<rparr>, map Send (snd (ack_slide (SeqNum m) ?v)))"
    have "n \<in> in_flight (fst (ack_slide (SeqNum m) ?v))" using n sl by (simp add: client_flight_def)
    from ack_slide_flight [OF s this] show ?thesis by (auto simp: sl client_flight_def data_sent_def)
  qed (use n in simp)
qed

lemma client_flight_ack:
  assumes inv: "client_sinv cid W h A lo c" and st: "client_sstep c (SAck k) c' D" and n: "n \<in> client_flight c'"
  shows "n \<in> client_flight c \<or> wmsg cid h n \<in> D"
proof -
  obtain i es where i: "client_step i c = Some (c', es)" "client_sev i = SAck k" "D = data_sent es"
    using st by (auto simp: client_sstep_def)
  show ?thesis
    using i(1)
  proof (cases rule: client_step_cases)
    case quiet
    then show ?thesis using n client_quiet_flight by blast
  next
    case (sack m)
    have inv1: "client_sinv cid W h A lo (counted c)" by (rule client_sinv_same [OF inv]) (simp add: c_quiet_def)
    have c': "c' = fst (client_ack m (counted c))" "es = snd (client_ack m (counted c))"
      using sack(3) by (metis fst_conv, metis snd_conv)
    show ?thesis using client_flight_client_ack [OF inv1, of n m] n by (simp add: c' i(3) client_flight_def)
  qed (use i(2) in simp_all)
qed

lemma client_flight_other:
  assumes inv: "client_sinv cid W h A lo c" and st: "client_sstep c SOther c' D" and n: "n \<in> client_flight c'"
  shows "n \<in> client_flight c \<or> wmsg cid h n \<in> D"
proof -
  obtain i es where i: "client_step i c = Some (c', es)" "client_sev i = SOther" "D = data_sent es"
    using st by (auto simp: client_sstep_def)
  have inv1: "client_sinv cid W h A lo (counted c)" by (rule client_sinv_same [OF inv]) (simp add: c_quiet_def)
  have c1: "client_flight (counted c) = client_flight c" by (simp add: client_flight_def)
  show ?thesis
    using i(1)
  proof (cases rule: client_step_cases)
    case quiet
    then show ?thesis using n client_quiet_flight by blast
  next
    case (sack m)
    have "c' = fst (client_ack m (counted c))" "es = snd (client_ack m (counted c))"
      using sack(3) by (metis fst_conv, metis snd_conv)
    then show ?thesis using client_flight_client_ack [OF inv1, of n m] n c1 by (simp add: i(3))
  next
    case (sdata m)
    have "c' = fst (client_data m (counted c))" using sdata(3) by (metis fst_conv)
    then show ?thesis using n client_data_snd_frame(3) [of m "counted c"] by (simp add: client_flight_def in_flight_def)
  next
    case sread
    have "c' = fst (client_handleRead c)" using sread(3) by (metis fst_conv)
    then show ?thesis using n client_handleRead_snd_frame(3) [of c] by (simp add: client_flight_def in_flight_def)
  qed (use i(2) in simp_all)
qed

lemma client_take_ack:
  assumes inv: "client_sinv cid W h A lo c" and r: "client_ready c"
    and n: "n \<in> client_flight c \<or> n = client_low c \<and> client_queue c \<noteq> {}"
  shows "\<exists>c' D. client_sstep c (SAck n) c' D \<and> client_ready c' \<and>
    client_flight c' \<union> client_queue c' = client_flight c \<union> client_queue c - {n} \<and>
    client_low c \<le> client_low c' \<and> (n = client_low c \<longrightarrow> client_low c < client_low c')"
proof -
  let ?v = "(c_conn c)\<lparr>receive := lastrece (c_conn c)\<rparr>"
  let ?i = "CPacket [] [] (Pkt (Some (NewAck cid n)) None receive_kind)"
  let ?c = "(counted c)\<lparr>c_conn := fst (ack_slide n ?v)\<rparr>"
  note C = client_sinv_snd [OF inv]
  have s: "snd_inv cid h A (c_sendct c) ?v" using C(1) snd_inv_frame [of ?v "c_conn c"] by simp
  have n': "n \<in> in_flight ?v \<or> n = seq ?v \<and> in_queue ?v \<noteq> {}"
    using n by (simp add: client_flight_def client_queue_def client_low_def)
  note H = ack_window_has [OF s n']
  have "client_handleReceive (NewAck cid n) c = client_ack (NewAck cid n) (counted c)"
    using r H(4) by (auto simp: client_handleReceive_def Let_def client_ready_def NewAck_def)
  also have "\<dots> = (?c, map Send (snd (ack_slide n ?v)))"
    using H(1,3) C(4,5) by (simp add: client_ack_def NewAck_def Let_def split_beta ack_in_window_def)
  finally have "client_step ?i c = Some (?c, map Send (snd (ack_slide n ?v)))" by (simp add: client_handle_def)
  moreover have "client_sev ?i = SAck n" using H(3) by (simp add: NewAck_def)
  ultimately have "client_sstep c (SAck n) ?c (data_sent (map Send (snd (ack_slide n ?v))))"
    unfolding client_sstep_def by blast
  moreover have "seq ?v \<le> n" using H(1) by (simp add: ack_in_window_def)
  ultimately show ?thesis
    using ack_slide_progress [OF s _ H(2)] r
    by (intro exI [of _ ?c] exI) (auto simp: client_flight_def client_queue_def client_low_def client_ready_def)
qed

interpretation clive: live_sender client_sstep "client_sinv cid W" cid W client_flight client_queue client_ready client_low
  for cid W
proof unfold_locales
  fix h A lo c n
  assume inv: "client_sinv cid W h A lo c"
  note C = client_sinv_snd [OF inv]
  show "n \<in> client_flight c \<Longrightarrow> lo \<le> n \<and> 1 \<le> n \<and> n \<le> int (length h) \<and> n < lo + W"
    using snd_inv_flight [OF C(1), of n] C(2,3) by (simp add: client_flight_def)
  show "n \<in> client_queue c \<Longrightarrow> lo + W \<le> n \<and> 1 \<le> n \<and> n \<le> int (length h)"
    using snd_inv_queue [OF C(1), of n] C(2,3) by (simp add: client_queue_def)
  show "client_ready c \<Longrightarrow> lo = client_low c \<and> 1 \<le> W \<and> 1 \<le> lo \<and> lo \<le> int (length h) + 1"
    using snd_invD(1-4) [OF C(1)] C(2,3) by (simp add: client_low_def)
  show "client_ready c \<Longrightarrow> 1 \<le> n \<Longrightarrow> n \<le> int (length h) \<Longrightarrow> n \<in> A \<or> n \<in> client_flight c \<or> n \<in> client_queue c"
    using snd_inv_waiting [OF C(1), of n] by (simp add: client_flight_def client_queue_def)
qed (rule client_flight_write client_flight_ack client_flight_other client_take_ack, assumption+)+

section \<open>The client receives\<close>

definition client_reading :: "client \<Rightarrow> bool" where
  "client_reading c \<longleftrightarrow> \<not> c_closepend c \<and> \<not> losted (c_conn c) \<and> estab (c_conn c)"

definition client_rlow :: "client \<Rightarrow> int" where
  "client_rlow c = ack (c_conn c)"

lemma client_rinv_rcv:
  assumes "client_rinv cid W h R k c"
  shows "rcv_inv cid h R k (c_conn c)" and "c_readct c = k" and "W = WindowSize (params (c_conn c))" and "c_conId c = cid"
  using assms by (simp_all add: client_rinv_def c_rcv_inv_def)

lemma client_take_data:
  assumes inv: "client_rinv cid W h R k c" and r: "client_reading c" and n: "1 \<le> n" "n \<le> int (length h)" "client_rlow c \<le> n"
  shows "\<exists>c' As out. client_rstep c (RData (wmsg cid h n)) c' As out \<and> client_reading c' \<and> n \<in> As"
proof -
  let ?m = "wmsg cid h n"
  let ?i = "CPacket [] [] (Pkt (Some ?m) None receive_kind)"
  obtain c' es where d: "client_data ?m (counted c) = (c', es)" by fastforce
  have "client_handleReceive ?m c = client_data ?m (counted c)"
    using r by (simp add: client_handleReceive_def Let_def client_reading_def)
  then have "client_step ?i c = Some (c', es)" using d by (simp add: client_handle_def)
  moreover have "client_rev ?i = RData ?m" by simp
  ultimately have "client_rstep c (RData ?m) c' (acks_sent es) (client_reads es)" unfolding client_rstep_def by blast
  moreover have "client_reading c'" and "Send (NewAck cid n) \<in> set es"
    using d r n(3) client_rinv_rcv(4) [OF inv]
    by (auto simp: client_data_def Let_def split_beta client_reading_def client_rlow_def)
  moreover have "n \<in> acks_sent es" if "Send (NewAck cid n) \<in> set es"
  proof -
    have "NewAck cid n \<in> set (sent es)" using that by (force simp: set_sent)
    then show ?thesis using n(1) by (force simp: acks_sent_def NewAck_def)
  qed
  ultimately show ?thesis by blast
qed

lemma client_take_next:
  assumes inv: "client_rinv cid W h R k c" and r: "client_reading c" and k: "k \<in> R"
  shows "\<exists>c' As p. client_rstep c ROther c' As [p] \<and> client_reading c'"
proof -
  note C = client_rinv_rcv [OF inv]
  have "mhas (readbuf (c_conn c)) k" using rcv_invD(8) [OF C(1), of k] k by blast
  then obtain m where m: "fmlookup (readbuf (c_conn c)) (c_readct c) = Some m" by (auto simp: mhas_def C(2))
  let ?c = "c\<lparr>c_conn := take_read (c_readct c) (c_conn c), c_readct := c_readct c + 1\<rparr>"
  let ?i = "CPacket [] [] (Pkt None None cread)" and ?es = "[Replyread (Pkt (Some m) None 1)]"
  have "client_step ?i c = Some (?c, ?es)" using m by (simp add: client_handle_def client_handleRead_def)
  moreover have "client_rev ?i = ROther" by simp
  ultimately have "client_rstep c ROther ?c (acks_sent ?es) (client_reads ?es)" unfolding client_rstep_def by blast
  moreover have "client_reads ?es = [Payload m]" by simp
  ultimately show ?thesis using r by (intro exI [of _ ?c]) (auto simp: client_reading_def)
qed

interpretation clisten: live_receiver client_rstep "client_rinv cid W" cid W client_reading client_rlow for cid W
proof unfold_locales
  fix h R k c
  assume inv: "client_rinv cid W h R k c"
  show "client_reading c \<Longrightarrow> client_rlow c = 1 \<or> client_rlow c + W - 1 \<in> R"
    using rcv_invD(11) [OF client_rinv_rcv(1) [OF inv]] client_rinv_rcv(3) [OF inv] by (simp add: client_rlow_def)
qed (rule client_take_data client_take_next, assumption+)+

end
