(* ===== verification/LspServerLive.thy ===== *)
theory LspServerLive
  imports LspServerLink LspClientLive
begin

text \<open>
  What the server can do next for one of its connections, as a \<open>live_sender\<close> and a \<open>live_receiver\<close>:
  as long as the connection is in the table it takes every acknowledgement, and as long as \<open>Close\<close>
  has not marked it every message.
\<close>

section \<open>The server sends\<close>

definition server_has :: "int \<Rightarrow> server \<Rightarrow> bool" where
  "server_has cid s \<longleftrightarrow> mhas (s_conn s) cid"

definition server_flight :: "int \<Rightarrow> server \<Rightarrow> int set" where
  "server_flight cid s = (case fmlookup (s_conn s) cid of None \<Rightarrow> {} | Some v \<Rightarrow> in_flight v)"

definition server_queue :: "int \<Rightarrow> server \<Rightarrow> int set" where
  "server_queue cid s = (case fmlookup (s_conn s) cid of None \<Rightarrow> {} | Some v \<Rightarrow> in_queue v)"

definition server_low :: "int \<Rightarrow> server \<Rightarrow> int" where
  "server_low cid s = (case fmlookup (s_conn s) cid of None \<Rightarrow> 0 | Some v \<Rightarrow> seq v)"

lemma server_views:
  assumes "fmlookup (s_conn s) cid = Some v"
  shows "server_has cid s" and "server_flight cid s = in_flight v" and "server_queue cid s = in_queue v"
    and "server_low cid s = seq v"
  using assms by (auto simp: server_has_def server_flight_def server_queue_def server_low_def mhas_def)

lemma server_hasE:
  assumes "server_has cid s"
  obtains v where "fmlookup (s_conn s) cid = Some v"
  using assms by (auto simp: server_has_def mhas_def)

lemma server_flightE:
  assumes "n \<in> server_flight cid s"
  obtains v where "fmlookup (s_conn s) cid = Some v" and "n \<in> in_flight v"
  using assms by (auto simp: server_flight_def split: option.splits)

lemma server_quiet_flight: "q_from cid s s' \<Longrightarrow> n \<in> server_flight cid s' \<Longrightarrow> n \<in> server_flight cid s"
  by (erule server_flightE) (auto simp: q_from_def s_quiet_def same_window_def server_flight_def in_flight_def)

text \<open>The slide of the window on the server, seen from the state before.\<close>

lemma ack_into_flight:
  assumes inv: "server_sinv cid W h A lo s" and v: "fmlookup (s_conn s) cid = Some v" and n: "n \<in> in_flight (ack_into m v)"
  shows "n \<in> in_flight v \<or> wmsg cid h n \<in> set (ack_out m v)"
proof -
  let ?v = "v\<lparr>lastrece := receive v\<rparr>"
  have "snd_inv cid h A (mget 0 (s_sendct s) cid) ?v" using server_sinvD(6) [OF inv v] snd_inv_frame [of ?v v] by simp
  from ack_slide_flight [OF this, of n "SeqNum m"] show ?thesis using n by (simp add: ack_into_def ack_out_def)
qed

lemma data_sent_to_ssend:
  "m \<in> set ms \<Longrightarrow> Type m = MsgData \<Longrightarrow> ConnID m = cid \<Longrightarrow> a \<noteq> None \<Longrightarrow> m \<in> data_sent_to cid (es @ ssend_all ms a)"
  by (force simp: data_sent_to_def set_sent set_ssend_all)

lemma server_flight_write:
  assumes inv: "server_sinv cid W h A lo s" and st: "server_sstep cid s (SWrite p) s' D" and n: "n \<in> server_flight cid s'"
  shows "n \<in> server_flight cid s \<or> wmsg cid (h @ [p]) n \<in> D"
proof -
  obtain i es where i: "server_step i s = Some (s', es)" "\<not> closes_conn cid i"
    "server_sev cid i es = SWrite p" "D = data_sent_to cid es"
    using st by (auto simp: server_sstep_def)
  note I = server_sinvD [OF inv]
  show ?thesis
    using I(1,2) i(1,2)
  proof (cases rule: server_step_cases)
    case quiet
    then show ?thesis using i(3) by blast
  next
    case (wr v k q)
    let ?m = "NewData cid k p"
    have q: "q = p" using wr(1) i(3) by simp
    have "n \<in> in_flight (fst (enqueue k ?m v))" using n wr(5) q by (simp add: server_flight_def)
    then consider "n \<in> in_flight v" | "n = k" "snd (enqueue k ?m v) = [?m]" using enqueue_flight by blast
    then show ?thesis
    proof cases
      case 1
      then show ?thesis using server_views(2) [OF wr(3)] by simp
    next
      case 2
      have "wmsg cid (h @ [p]) k = ?m" using snd_invD(1) [OF I(6) [OF wr(3)]] wr(4) by (simp add: wmsg_last)
      moreover have "?m \<in> D"
        using 2(2) I(8) [OF wr(3)] wr(6) data_sent_to_ssend [of ?m "[?m]" cid "caddr v" "[Writeans (Pkt None None 1)]"]
        by (auto simp: i(4) q NewData_def)
      ultimately show ?thesis using 2(1) by simp
    qed
  next
    case (ack s1 v m)
    then show ?thesis using i(3) by (simp split: if_splits)
  qed (use i(3) in simp_all)
qed

lemma server_flight_ack_case:
  assumes inv: "server_sinv cid W h A lo s" and q: "q_from cid s s1" and v: "fmlookup (s_conn s1) cid = Some v"
    and s': "s' = set_conn cid (ack_into m v) s1" and es: "es = ssend_all (ack_out m v) (caddr v)"
    and n: "n \<in> server_flight cid s'"
  shows "n \<in> server_flight cid s \<or> wmsg cid h n \<in> data_sent_to cid es"
proof -
  have inv1: "server_sinv cid W h A lo s1" by (rule server_sinv_quiet [OF inv q])
  have "n \<in> in_flight (ack_into m v)" using n s' by (simp add: server_flight_def)
  then consider "n \<in> in_flight v" | "wmsg cid h n \<in> set (ack_out m v)" using ack_into_flight [OF inv1 v] by blast
  then show ?thesis
  proof cases
    case 1
    then show ?thesis using server_quiet_flight [OF q] server_views(2) [OF v] by blast
  next
    case 2
    then show ?thesis
      using server_sinvD(8) [OF inv1 v] data_sent_to_ssend [OF 2, of cid "caddr v" "[]"] es by auto
  qed
qed

lemma server_flight_ack:
  assumes inv: "server_sinv cid W h A lo s" and st: "server_sstep cid s (SAck k) s' D" and n: "n \<in> server_flight cid s'"
  shows "n \<in> server_flight cid s \<or> wmsg cid h n \<in> D"
proof -
  obtain i es where i: "server_step i s = Some (s', es)" "\<not> closes_conn cid i"
    "server_sev cid i es = SAck k" "D = data_sent_to cid es"
    using st by (auto simp: server_sstep_def)
  show ?thesis
    using server_sinvD(1,2) [OF inv] i(1,2)
  proof (cases rule: server_step_cases)
    case quiet
    then show ?thesis using server_quiet_flight n by blast
  next
    case (ack s1 v m)
    then show ?thesis using server_flight_ack_case [OF inv ack(3,4,7,8) n] i(4) by blast
  qed (use i(3) in simp_all)
qed

lemma server_flight_other:
  assumes inv: "server_sinv cid W h A lo s" and st: "server_sstep cid s SOther s' D" and n: "n \<in> server_flight cid s'"
  shows "n \<in> server_flight cid s \<or> wmsg cid h n \<in> D"
proof -
  obtain i es where i: "server_step i s = Some (s', es)" "\<not> closes_conn cid i"
    "server_sev cid i es = SOther" "D = data_sent_to cid es"
    using st by (auto simp: server_sstep_def)
  show ?thesis
    using server_sinvD(1,2) [OF inv] i(1,2)
  proof (cases rule: server_step_cases)
    case quiet
    then show ?thesis using server_quiet_flight n by blast
  next
    case (rd v m)
    then show ?thesis using n by (simp add: server_flight_def in_flight_def)
  next
    case (data s1 v m)
    have "n \<in> in_flight v" using n data(7) by (simp add: server_flight_def in_flight_def data_into_def)
    then have "n \<in> server_flight cid s1" using server_views(2) [OF data(4)] by simp
    then show ?thesis using server_quiet_flight [OF data(3)] by blast
  next
    case (ack s1 v m)
    then show ?thesis using server_flight_ack_case [OF inv ack(3,4,7,8) n] i(4) by blast
  qed (use i(3) in simp_all)
qed

text \<open>An acknowledgement in the window is taken, on a connection that is confirmed by it if need be.\<close>

lemma confirm_present:
  assumes "fmlookup (s_conn s) i = Some v"
  shows "confirm i s = Some (set_conn i (v\<lparr>estab := True, losted := False\<rparr>) (s\<lparr>s_pendconn := fmdrop i (s_pendconn s)\<rparr>))"
  using assms by (simp add: confirm_def Let_def)

lemma recv_ack_takes:
  assumes v: "fmlookup (s_conn s) (ConnID m) = Some v" and m: "0 < SeqNum m" "ack_in_window (SeqNum m) v"
    and b: "\<not> mhas (s_banclose s) (ConnID m)"
  obtains s1 v1 where "recv_ack m s = Some (set_conn (ConnID m) (ack_into m v1) s1, ssend_all (ack_out m v1) (caddr v1))"
    and "same_window v v1"
proof -
  let ?i = "ConnID m" and ?v = "v\<lparr>estab := True, losted := False\<rparr>"
  have b': "fmlookup (s_banclose s) ?i = None" using b by (simp add: mhas_def)
  have win: "recv_ack_window m False t = Some (set_conn ?i (ack_into m u) t, ssend_all (ack_out m u) (caddr u))"
    if "fmlookup (s_conn t) ?i = Some u" "same_window v u" for t u
    using that m by (simp add: recv_ack_window_def ack_into_def ack_out_def Let_def split_beta ack_in_window_def
        same_window_def)
  show thesis
  proof (cases "mhas (s_pendconn s) ?i")
    case True
    let ?s1 = "set_conn ?i ?v (s\<lparr>s_pendconn := fmdrop ?i (s_pendconn s)\<rparr>)"
    have "recv_ack m s = recv_ack_window m False ?s1"
      using True m(1) b' confirm_present [OF v] by (simp add: recv_ack_def Let_def)
    then show thesis using that [of ?v ?s1] win [of ?s1 ?v] by (simp add: same_window_def)
  next
    case False
    have "recv_ack m s = recv_ack_window m False s" using False m(1) b' by (simp add: recv_ack_def Let_def)
    then show thesis using that [of v s] win [OF v] by simp
  qed
qed

lemma server_take_ack:
  assumes inv: "server_sinv cid W h A lo s" and has: "server_has cid s"
    and n: "n \<in> server_flight cid s \<or> n = server_low cid s \<and> server_queue cid s \<noteq> {}"
  shows "\<exists>s' D. server_sstep cid s (SAck n) s' D \<and> server_has cid s' \<and>
    server_flight cid s' \<union> server_queue cid s' = server_flight cid s \<union> server_queue cid s - {n} \<and>
    server_low cid s \<le> server_low cid s' \<and> (n = server_low cid s \<longrightarrow> server_low cid s < server_low cid s')"
proof -
  obtain v where v: "fmlookup (s_conn s) cid = Some v" using server_hasE [OF has] .
  note V = server_views [OF v] and I = server_sinvD [OF inv]
  let ?m = "NewAck cid n"
  have m: "ConnID ?m = cid" "SeqNum ?m = n" "Type ?m = MsgAck" by (simp_all add: NewAck_def)
  note H = ack_window_has [OF I(6) [OF v] n [unfolded V]]
  have pos: "0 < n" using H(3) by simp
  obtain s1 v1 where r: "recv_ack ?m s = Some (set_conn cid (ack_into ?m v1) s1, ssend_all (ack_out ?m v1) (caddr v1))"
    "same_window v v1"
    using recv_ack_takes [of s ?m v, unfolded m, OF v pos H(1) I(3)] by blast
  let ?s = "set_conn cid (ack_into ?m v1) s1" and ?es = "ssend_all (ack_out ?m v1) (caddr v1)"
  let ?p = "Pkt (Some ?m) (caddr v) receive_kind"
  let ?i = "SPacket \<lparr>o_ban = [], o_conn = [], o_conn2 = [], o_banbuf = (\<lambda>_. []), o_ackbuf = (\<lambda>_. []), o_databuf = (\<lambda>_. []),
     o_writebuf = (\<lambda>_. [])\<rparr> ?p"
  have "server_handleReceive ?p s = recv_ack ?m s"
    using v H(4) m by (auto simp: server_handleReceive_def Let_def)
  then have "server_step ?i s = Some (?s, ?es)" using r(1) by (simp add: server_handle_def)
  moreover have "\<not> closes_conn cid ?i" by simp
  moreover have "server_sev cid ?i ?es = SAck n" using m H(3) by simp
  ultimately have st: "server_sstep cid s (SAck n) ?s (data_sent_to cid ?es)" unfolding server_sstep_def by blast
  let ?v = "v1\<lparr>lastrece := receive v1\<rparr>"
  have w: "seq ?v = seq v" "params ?v = params v" "in_flight ?v = in_flight v" "in_queue ?v = in_queue v"
    using r(2) by (simp_all add: same_window_def in_flight_def in_queue_def)
  have s: "snd_inv cid h A (mget 0 (s_sendct s) cid) ?v"
    using I(6) [OF v] same_window_snd [OF r(2)] snd_inv_frame [of ?v v1] by simp
  have "seq ?v \<le> n" "n < seq ?v + WindowSize (params ?v)" using H(1,2) w by (simp_all add: ack_in_window_def)
  note P = ack_slide_progress [OF s this]
  have "fmlookup (s_conn ?s) cid = Some (ack_into ?m v1)" by simp
  note V' = server_views [OF this]
  have e: "ack_into ?m v1 = fst (ack_slide n ?v)" by (simp add: ack_into_def m)
  have "server_flight cid ?s \<union> server_queue cid ?s = in_flight v \<union> in_queue v - {n}" using P(1) unfolding V' unfolding e w .
  moreover have "seq v \<le> server_low cid ?s" using P(2) unfolding V' unfolding e w .
  moreover have "n = seq v \<longrightarrow> seq v < server_low cid ?s" using P(3) unfolding V' unfolding e w by blast
  ultimately show ?thesis unfolding V using st V'(1) by blast
qed

interpretation slive: live_sender "server_sstep cid" "server_sinv cid W" cid W "server_flight cid" "server_queue cid"
    "server_has cid" "server_low cid"
  for cid W
proof unfold_locales
  fix h A lo s n
  assume inv: "server_sinv cid W h A lo s"
  note I = server_sinvD [OF inv]
  show "n \<in> server_flight cid s \<Longrightarrow> lo \<le> n \<and> 1 \<le> n \<and> n \<le> int (length h) \<and> n < lo + W"
    by (erule server_flightE) (use snd_inv_flight [OF I(6)] I(7) in blast)
  show "n \<in> server_queue cid s \<Longrightarrow> lo + W \<le> n \<and> 1 \<le> n \<and> n \<le> int (length h)"
    using snd_inv_queue [OF I(6)] I(7) by (fastforce simp: server_queue_def split: option.splits)
  show "server_has cid s \<Longrightarrow> lo = server_low cid s \<and> 1 \<le> W \<and> 1 \<le> lo \<and> lo \<le> int (length h) + 1"
    using snd_invD(1-4) [OF I(6)] I(7) server_views(4) by (fastforce elim!: server_hasE)
  show "server_has cid s \<Longrightarrow> 1 \<le> n \<Longrightarrow> n \<le> int (length h) \<Longrightarrow>
      n \<in> A \<or> n \<in> server_flight cid s \<or> n \<in> server_queue cid s"
    using snd_inv_waiting [OF I(6)] server_views(2,3) by (metis server_hasE)
qed (rule server_flight_write server_flight_ack server_flight_other server_take_ack, assumption+)+

section \<open>The server receives\<close>

definition server_listening :: "int \<Rightarrow> server \<Rightarrow> bool" where
  "server_listening cid s \<longleftrightarrow> mhas (s_conn s) cid \<and> \<not> mget False (s_closepend s) cid"

definition server_rlow :: "int \<Rightarrow> server \<Rightarrow> int" where
  "server_rlow cid s = (case fmlookup (s_conn s) cid of None \<Rightarrow> 1 | Some v \<Rightarrow> ack v)"

lemma server_listeningE:
  assumes "server_listening cid s"
  obtains v where "fmlookup (s_conn s) cid = Some v" and "server_rlow cid s = ack v" and "\<not> mget False (s_closepend s) cid"
  using assms by (auto simp: server_listening_def server_rlow_def mhas_def)

text \<open>A message that is not older than the window is accepted and acknowledged.\<close>

lemma recv_data_takes:
  assumes v: "fmlookup (s_conn s) (ConnID m) = Some v" and m: "0 < SeqNum m" "ack v \<le> SeqNum m" and a: "caddr v = Some a"
  obtains s' es where "recv_data m s = Some (s', es)" and "Ssend (NewAck (ConnID m) (SeqNum m)) a \<in> set es"
    and "mhas (s_conn s') (ConnID m)" and "s_closepend s' = s_closepend s"
proof -
  let ?i = "ConnID m" and ?v = "v\<lparr>estab := True, losted := False\<rparr>"
  show thesis
  proof (cases "mhas (s_pendconn s) ?i")
    case True
    then show thesis using that m a confirm_present [OF v]
      by (simp add: recv_data_def Let_def split_beta ssend_def)
  next
    case False
    then show thesis using that m a v by (simp add: recv_data_def Let_def split_beta ssend_def)
  qed
qed

lemma server_take_data:
  assumes inv: "server_rinv cid W h R k s" and r: "server_listening cid s"
    and n: "1 \<le> n" "n \<le> int (length h)" "server_rlow cid s \<le> n"
  shows "\<exists>s' As out. server_rstep cid s (RData (wmsg cid h n)) s' As out \<and> server_listening cid s' \<and> n \<in> As"
proof -
  obtain v where v: "fmlookup (s_conn s) cid = Some v" "server_rlow cid s = ack v" "\<not> mget False (s_closepend s) cid"
    using server_listeningE [OF r] .
  obtain a where a: "caddr v = Some a" using server_rinvD(8) [OF inv v(1)] by blast
  let ?m = "wmsg cid h n" and ?p = "Pkt (Some (wmsg cid h n)) (caddr v) receive_kind"
  let ?i = "SPacket \<lparr>o_ban = [], o_conn = [], o_conn2 = [], o_banbuf = (\<lambda>_. []), o_ackbuf = (\<lambda>_. []), o_databuf = (\<lambda>_. []),
     o_writebuf = (\<lambda>_. [])\<rparr> ?p"
  obtain s' es where d: "recv_data ?m s = Some (s', es)" "Ssend (NewAck cid n) a \<in> set es" "mhas (s_conn s') cid"
    "s_closepend s' = s_closepend s"
    using recv_data_takes [of s ?m v a] v n a by auto
  have "server_handleReceive ?p s = recv_data ?m s" using v(3) by (simp add: server_handleReceive_def Let_def)
  then have "server_step ?i s = Some (s', es)" using d(1) by (simp add: server_handle_def)
  moreover have "\<not> closes_conn cid ?i" "server_rev cid ?i = RData ?m" by simp_all
  ultimately have "server_rstep cid s (RData ?m) s' (acks_sent_to cid es) (server_reads cid es)"
    unfolding server_rstep_def by blast
  moreover have "NewAck cid n \<in> set (sent es)" using d(2) by (force simp: set_sent)
  then have "n \<in> acks_sent_to cid es" using n(1) by (force simp: acks_sent_to_def NewAck_def)
  moreover have "server_listening cid s'" using d(3,4) v(3) by (simp add: server_listening_def)
  ultimately show ?thesis by blast
qed

text \<open>The next message is read when the loop of \<open>Read\<close> comes to this connection first.\<close>

lemma server_take_next:
  assumes inv: "server_rinv cid W h R k s" and r: "server_listening cid s" and k: "k \<in> R"
  shows "\<exists>s' As p. server_rstep cid s ROther s' As [p] \<and> server_listening cid s'"
proof -
  obtain v where v: "fmlookup (s_conn s) cid = Some v" "server_rlow cid s = ack v" "\<not> mget False (s_closepend s) cid"
    using server_listeningE [OF r] .
  note I = server_rinvD [OF inv]
  have ct: "mget 0 (s_readct s) cid = k" using I(6) [OF v(1)] by blast
  have p: "\<not> mhas (s_pendconn s) cid" using I(7) [OF v(1)] k by blast
  have "mhas (readbuf v) k" using rcv_invD(8) [OF I(5) [OF v(1)], of k] k by blast
  then have m: "fmlookup (readbuf v) k = Some (wmsg cid h k)" using rcv_invD(9) [OF I(5) [OF v(1)], of k] by (auto simp: mhas_def)
  let ?rg = "\<lparr>o_ban = [], o_conn = cid # filter (\<lambda>i. i \<noteq> cid) (sorted_list_of_fset (fmdom (s_conn s))), o_conn2 = [],
     o_banbuf = (\<lambda>_. []), o_ackbuf = (\<lambda>_. []), o_databuf = (\<lambda>_. []), o_writebuf = (\<lambda>_. [])\<rparr>"
  let ?i = "SPacket ?rg (Pkt None None sread)" and ?es = "[Reply (Pkt (Some (wmsg cid h k)) None 1)]"
  let ?s = "(set_conn cid (take_read k v) s)\<lparr>s_readct := fmupd cid (k + 1) (s_readct s)\<rparr>"
  have "read_ready s cid" using v(1) p m ct by (simp add: read_ready_def mhas_def)
  then have "handle_sread ?rg s = Some (?s, ?es)" using v(1) ct m by (simp add: handle_sread_def Let_def)
  then have "server_step ?i s = Some (?s, ?es)" by (simp add: server_handle_def)
  moreover have "\<not> closes_conn cid ?i" "server_rev cid ?i = ROther" by simp_all
  ultimately have "server_rstep cid s ROther ?s (acks_sent_to cid ?es) (server_reads cid ?es)"
    unfolding server_rstep_def by blast
  moreover have "server_reads cid ?es = [Payload (wmsg cid h k)]" by simp
  moreover have "server_listening cid ?s" using v(3) by (simp add: server_listening_def)
  ultimately show ?thesis by metis
qed

interpretation slisten: live_receiver "server_rstep cid" "server_rinv cid W" cid W "server_listening cid" "server_rlow cid"
  for cid W
proof unfold_locales
  fix h R k s
  assume inv: "server_rinv cid W h R k s"
  show "server_listening cid s \<Longrightarrow> server_rlow cid s = 1 \<or> server_rlow cid s + W - 1 \<in> R"
    using rcv_invD(11) [OF server_rinvD(5) [OF inv]] server_rinvD(6) [OF inv] by (fastforce elim!: server_listeningE)
qed (rule server_take_data server_take_next, assumption+)+

end
