(* ===== verification/LspProgress.thy ===== *)
theory LspProgress
  imports LspStreams LspServerLive LspDemo
begin

text \<open>
  Both directions of a connection as instances of \<open>live_link\<close>: whatever has happened so far, as long
  as the connection is in the server's table and not marked by \<open>Close\<close>, everything that has been
  written can still be delivered, acknowledged and read. And a run in which the sender's window
  comes to rest before that.
\<close>

interpretation uplive: live_link client_sstep "client_sinv cid W" "server_rstep cid" "server_rinv cid (W + int d)" cid W
    "W + int d" client_flight client_queue client_ready client_low "server_listening cid" "server_rlow cid"
  for cid W d
  by unfold_locales

interpretation downlive: live_link "server_sstep cid" "server_sinv cid W" client_rstep "client_rinv cid (W + int d)" cid W
    "W + int d" "server_flight cid" "server_queue cid" "server_has cid" "server_low cid" client_reading client_rlow
  for cid W d
  by unfold_locales

abbreviation up_runs :: "int \<Rightarrow> up_link \<Rightarrow> up_link \<Rightarrow> bool" where
  "up_runs cid \<equiv> (link_step client_sstep (server_rstep cid))\<^sup>*\<^sup>*"

abbreviation down_runs :: "int \<Rightarrow> down_link \<Rightarrow> down_link \<Rightarrow> bool" where
  "down_runs cid \<equiv> (link_step (server_sstep cid) client_rstep)\<^sup>*\<^sup>*"

lemma in_buffers_none:
  "in_flight v = {} \<longleftrightarrow> databuf v = fmempty" "in_queue v = {} \<longleftrightarrow> writebuf v = fmempty"
  by (auto simp: in_flight_def in_queue_def fmap_empty_iff mhas_def)

lemma up_finishes:
  assumes r: "up_reach cid c0 s0 l" and c: "client_fresh cid W c0" and s: "server_fresh cid (W + int d) s0"
    and ready: "client_ready (l_snd l)" "server_listening cid (l_rcv l)"
  shows "\<exists>l'. up_runs cid l l' \<and> l_hist l' = l_hist l \<and> l_out l' = l_hist l \<and>
    databuf (c_conn (l_snd l')) = fmempty \<and> writebuf (c_conn (l_snd l')) = fmempty"
proof -
  have "client_flight c0 = {}" using c by (simp add: client_fresh_def client_flight_def in_flight_def)
  from uplive.never_wedged [OF r client_fresh_inv(1) [OF c] server_fresh_inv(2) [OF s] this ready]
  obtain l' where "up_runs cid l l'" "l_hist l' = l_hist l" "l_out l' = l_hist l"
    "client_flight (l_snd l') = {}" "client_queue (l_snd l') = {}" .
  then show ?thesis by (auto simp: client_flight_def client_queue_def in_buffers_none)
qed

lemma down_finishes:
  assumes r: "down_reach cid s0 c0 l" and s: "server_fresh cid W s0" and c: "client_fresh cid (W + int d) c0"
    and v: "fmlookup (s_conn (l_snd l)) cid = Some v" and ready: "client_reading (l_rcv l)"
  shows "\<exists>l' v'. down_runs cid l l' \<and> l_hist l' = l_hist l \<and> l_out l' = l_hist l \<and>
    fmlookup (s_conn (l_snd l')) cid = Some v' \<and> databuf v' = fmempty \<and> writebuf v' = fmempty"
proof -
  have "server_flight cid s0 = {}"
    using s by (auto simp: server_fresh_def server_flight_def in_flight_def)
  from downlive.never_wedged [OF r server_fresh_inv(1) [OF s] client_fresh_inv(2) [OF c] this server_views(1) [OF v] ready]
  obtain l' where "down_runs cid l l'" "l_hist l' = l_hist l" "l_out l' = l_hist l"
    "server_has cid (l_snd l')" "server_flight cid (l_snd l') = {}" "server_queue cid (l_snd l') = {}" .
  then show ?thesis by (auto simp: server_views in_buffers_none elim!: server_hasE)
qed

section \<open>Whatever is written can be delivered\<close>

lemma up_writes:
  "\<exists>l. up_reach cid c0 s0 l \<and> l_hist l = ps \<and> l_rcv l = s0 \<and>
     c_closepend (l_snd l) = c_closepend c0 \<and> losted (c_conn (l_snd l)) = losted (c_conn c0)"
proof (induction ps rule: rev_induct)
  case Nil
  show ?case
    using reach_start [of client_sstep "server_rstep cid" c0 s0]
    by (intro exI [of _ "link_start c0 s0"]) (simp add: link_start_def)
next
  case (snoc p ps)
  then obtain l where l: "up_reach cid c0 s0 l" "l_hist l = ps" "l_rcv l = s0"
    "c_closepend (l_snd l) = c_closepend c0" "losted (c_conn (l_snd l)) = losted (c_conn c0)" by blast
  let ?i = "CPacket [] [] (Pkt (Some (zero_Message\<lparr>Payload := p\<rparr>)) None cwrite)"
  obtain c' es where w: "client_handleWrite p (l_snd l) = (c', es)" by (cases "client_handleWrite p (l_snd l)")
  have st: "client_step ?i (l_snd l) = Some (c', es)" using w by (simp add: client_handle_def)
  have "client_sstep (l_snd l) (SWrite p) c' (data_sent es)"
    unfolding client_sstep_def by (intro exI [of _ ?i] exI [of _ es] conjI st) simp_all
  from link_write [where sstep = client_sstep and rstep = "server_rstep cid" and l = l, OF this]
  have "link_step client_sstep (server_rstep cid) l
      (l\<lparr>l_snd := c', l_hist := l_hist l @ [p], l_dnet := l_dnet l \<union> data_sent es\<rparr>)" (is "link_step _ _ l ?l") .
  then have "up_reach cid c0 s0 ?l" by (rule link_reach.reach_step [OF l(1)])
  moreover have "c_closepend c' = c_closepend (l_snd l) \<and> losted (c_conn c') = losted (c_conn (l_snd l))"
    using w by (auto simp: client_handleWrite_def Let_def split_beta)
  ultimately show ?case using l(2-5) by (intro exI [of _ ?l]) simp
qed

lemma down_writes:
  assumes "fmlookup (s_conn s0) cid = Some v0" and "\<not> losted v0"
  shows "\<exists>l v. down_reach cid s0 c0 l \<and> l_hist l = ps \<and> l_rcv l = c0 \<and>
     fmlookup (s_conn (l_snd l)) cid = Some v \<and> \<not> losted v"
proof (induction ps rule: rev_induct)
  case Nil
  show ?case
    using assms reach_start [of "server_sstep cid" client_rstep s0 c0]
    by (intro exI [of _ "link_start s0 c0"] exI [of _ v0]) (simp add: link_start_def)
next
  case (snoc p ps)
  then obtain l v where l: "down_reach cid s0 c0 l" "l_hist l = ps" "l_rcv l = c0"
    "fmlookup (s_conn (l_snd l)) cid = Some v" "\<not> losted v" by blast
  let ?m = "zero_Message\<lparr>ConnID := cid, Payload := p\<rparr>"
  let ?i = "SPacket demo_orders (Pkt (Some ?m) None swrite)"
  let ?n = "mget 0 (s_sendct (l_snd l)) cid"
  let ?v = "fst (enqueue ?n (NewData cid ?n p) v)"
  let ?s = "(set_conn cid ?v (l_snd l))\<lparr>s_sendct := fmupd cid (?n + 1) (s_sendct (l_snd l))\<rparr>"
  let ?es = "Writeans (Pkt None None 1) # ssend_all (snd (enqueue ?n (NewData cid ?n p) v)) (caddr v)"
  have st: "server_step ?i (l_snd l) = Some (?s, ?es)"
    using l(4,5) by (simp add: server_handle_def handle_swrite_def server_handleWrite_def Let_def split_beta)
  have "server_sstep cid (l_snd l) (SWrite p) ?s (data_sent_to cid ?es)"
    unfolding server_sstep_def by (intro exI [of _ ?i] exI [of _ ?es] conjI st) simp_all
  from link_write [where sstep = "server_sstep cid" and rstep = client_rstep and l = l, OF this]
  have "link_step (server_sstep cid) client_rstep l
      (l\<lparr>l_snd := ?s, l_hist := l_hist l @ [p], l_dnet := l_dnet l \<union> data_sent_to cid ?es\<rparr>)" (is "link_step _ _ l ?l") .
  then have "down_reach cid s0 c0 ?l" by (rule link_reach.reach_step [OF l(1)])
  moreover have "\<not> losted ?v" using l(5) by simp
  ultimately show ?case using l(2-4) by (intro exI [of _ ?l] exI [of _ ?v]) simp
qed

lemma up_delivers:
  assumes c: "client_fresh cid W c0" "client_ready c0" and s: "server_fresh cid (W + int d) s0" "server_listening cid s0"
  shows "\<exists>l. up_reach cid c0 s0 l \<and> l_hist l = ps \<and> l_out l = ps"
proof -
  obtain l where l: "up_reach cid c0 s0 l" "l_hist l = ps" "l_rcv l = s0"
    "c_closepend (l_snd l) = c_closepend c0" "losted (c_conn (l_snd l)) = losted (c_conn c0)"
    using up_writes by blast
  have r: "client_ready (l_snd l)" "server_listening cid (l_rcv l)"
    using l(3-5) c(2) s(2) by (simp_all add: client_ready_def)
  obtain l' where l': "up_runs cid l l'" "l_hist l' = l_hist l" "l_out l' = l_hist l"
    using up_finishes [OF l(1) c(1) s(1) r] by blast
  then show ?thesis using uplive.runs_reach [OF l'(1) l(1)] l(2) by auto
qed

lemma down_delivers:
  assumes s: "server_fresh cid W s0" "fmlookup (s_conn s0) cid = Some v0" "\<not> losted v0"
    and c: "client_fresh cid (W + int d) c0" "client_reading c0"
  shows "\<exists>l. down_reach cid s0 c0 l \<and> l_hist l = ps \<and> l_out l = ps"
proof -
  obtain l v where l: "down_reach cid s0 c0 l" "l_hist l = ps" "l_rcv l = c0" "fmlookup (s_conn (l_snd l)) cid = Some v"
    using down_writes [OF s(2,3)] by blast
  have "client_reading (l_rcv l)" using l(3) c(2) by simp
  then obtain l' where l': "down_runs cid l l'" "l_hist l' = l_hist l" "l_out l' = l_hist l"
    using down_finishes [OF l(1) s(1) c(1) l(4)] by blast
  then show ?thesis using downlive.runs_reach [OF l'(1) l(1)] l(2) by auto
qed

section \<open>A window at rest\<close>

text \<open>
  A client with a window of two and four messages: the first is acknowledged after the second, and
  then the third. By then nothing is in flight, and the fourth message still waits.
\<close>

definition two_wide :: client where
  "two_wide = demo_client\<lparr>c_conn := (c_conn demo_client)\<lparr>params := NewParams\<lparr>WindowSize := 2\<rparr>\<rparr>\<rparr>"

definition rest_write :: "bytes \<Rightarrow> handler_input" where
  "rest_write p = Take [] [] (Pkt (Some (zero_Message\<lparr>Payload := p\<rparr>)) None cwrite)"

definition rest_ack :: "int \<Rightarrow> handler_input" where
  "rest_ack n = Take [] [] (Pkt (Some (NewAck 1 n)) None receive_kind)"

definition rest_run :: "handler_input list" where
  "rest_run = [rest_write ''a'', rest_write ''b'', rest_write ''c'', rest_write ''d'', rest_ack 2, rest_ack 1, rest_ack 3]"

definition rest_client :: "(int, Message) fmap \<Rightarrow> (int, Message) fmap \<Rightarrow> int \<Rightarrow> int \<Rightarrow> int \<Rightarrow> client" where
  "rest_client db wb sq ct rn = two_wide\<lparr>c_conn := (c_conn two_wide)\<lparr>databuf := db, writebuf := wb, seq := sq\<rparr>,
     c_sendct := ct, c_readnum := rn\<rparr>"

abbreviation rest_msg :: "int \<Rightarrow> bytes \<Rightarrow> Message" where
  "rest_msg n p \<equiv> NewData 1 n p"

lemmas rest_defs = rest_client_def two_wide_def demo_client_def new_client_def

lemma rest_writes:
  "client_handler [rest_write p] (rest_client db wb sq ct rn) =
     (if ct < sq + 2 then Some (rest_client (fmupd ct (rest_msg ct p) db) wb sq (ct + 1) rn, [Send (rest_msg ct p)])
      else Some (rest_client db (fmupd ct (rest_msg ct p) wb) sq (ct + 1) rn, []))"
  by (simp add: rest_write_def client_handle_def client_handleWrite_def enqueue_def Let_def rest_defs)

lemma rest_acks:
  assumes "n \<noteq> 0" and "wb \<noteq> fmempty"
  shows "client_handler [rest_ack n] (rest_client db wb sq ct rn) =
    (if sq \<le> n \<and> n \<le> sq + 2
     then (case ack_slide n (c_conn (rest_client db wb sq ct rn)) of
             (v, out) \<Rightarrow> Some (rest_client (databuf v) (writebuf v) (seq v) ct (rn + 1), map Send out))
     else Some (rest_client db wb sq ct (rn + 1), []))"
  using assms
  by (simp add: rest_ack_def client_handle_def client_handleReceive_def client_ack_def ack_in_window_def
      ack_slide_def Let_def split_beta rest_defs)

lemma rest_Cons:
  "client_handler (rest_write p # i # ins) c = andthen (client_handler [rest_write p] c) (client_handler (i # ins))"
  "client_handler (rest_ack n # i # ins) c = andthen (client_handler [rest_ack n] c) (client_handler (i # ins))"
  by (simp_all add: rest_write_def rest_ack_def andthen_def split: option.split)

lemma rest_result:
  "client_handler rest_run two_wide =
     Some (rest_client fmempty (fmupd 4 (rest_msg 4 ''d'') fmempty) 2 5 3,
       map Send [rest_msg 1 ''a'', rest_msg 2 ''b'', rest_msg 3 ''c''])"
proof -
  let ?a = "rest_msg 1 ''a''" and ?b = "rest_msg 2 ''b''" and ?c = "rest_msg 3 ''c''" and ?d = "rest_msg 4 ''d''"
  let ?w = "fmupd 4 ?d (fmupd 3 ?c fmempty)"
  have start: "two_wide = rest_client fmempty fmempty 1 1 0" by (simp add: rest_defs)
  have f: "fmdrop (2 :: int) (fmupd 2 ?b (fmupd 1 ?a fmempty)) = fmupd 1 ?a fmempty" "fmdrop (1 :: int) (fmupd 1 ?a fmempty) = fmempty"
    "fmdrop (3 :: int) ?w = fmupd 4 ?d fmempty" "fmdrop (3 :: int) (fmupd 3 ?c fmempty) = fmempty"
    by (simp_all add: fmdrop_fmupd)
  have 2: "ack_slide 2 (c_conn (rest_client (fmupd 2 ?b (fmupd 1 ?a fmempty)) ?w 1 ct rn)) =
      (c_conn (rest_client (fmupd 1 ?a fmempty) ?w 1 ct rn), [])" for ct rn
    using f by (simp add: ack_slide_def rest_client_def)
  have 1: "ack_slide 1 (c_conn (rest_client (fmupd 1 ?a fmempty) ?w 1 ct rn)) =
      (c_conn (rest_client (fmupd 3 ?c fmempty) (fmupd 4 ?d fmempty) 2 ct rn), [?c])" for ct rn
    using f by (simp add: ack_slide_def slide.simps refill.simps Let_def rest_client_def two_wide_def)
  have 3: "ack_slide 3 (c_conn (rest_client (fmupd 3 ?c fmempty) (fmupd 4 ?d fmempty) 2 ct rn)) =
      (c_conn (rest_client fmempty (fmupd 4 ?d fmempty) 2 ct rn), [])" for ct rn
    using f by (simp add: ack_slide_def rest_client_def)
  have b: "databuf (c_conn (rest_client db wb sq ct rn)) = db" "writebuf (c_conn (rest_client db wb sq ct rn)) = wb"
    "seq (c_conn (rest_client db wb sq ct rn)) = sq" for db wb sq ct rn
    by (simp_all add: rest_client_def)
  show ?thesis
    by (simp add: rest_run_def start rest_Cons rest_writes rest_acks 1 2 3 b del: client_handler.simps(3))
qed

abbreviation rest_end :: client where
  "rest_end \<equiv> rest_client fmempty (fmupd 4 (rest_msg 4 ''d'') fmempty) 2 5 3"

lemma rest_buffers: "databuf (c_conn rest_end) = fmempty" "fmlookup (writebuf (c_conn rest_end)) 4 = Some (rest_msg 4 ''d'')"
  by (simp_all add: rest_client_def)

text \<open>An epoch sends no data, and a second acknowledgement of 2 frees the message.\<close>

lemma rest_epoch: "data_sent (snd (client_handleEpoch oa od rest_end)) = {}"
proof -
  have "ackbuf (c_conn rest_end) = fmempty" by (simp add: rest_defs)
  then show ?thesis
    using client_handleEpoch_resends [of rest_end oa od] rest_buffers(1) by (auto simp: resends_def data_sent_def)
qed

lemma rest_again: "\<exists>c. client_handler [rest_ack 2] rest_end = Some (c, [Send (rest_msg 4 ''d'')])"
proof -
  have f: "fmdrop (4 :: int) (fmupd 4 x fmempty) = fmempty" for x :: Message by (simp add: fmdrop_fmupd)
  have "snd (ack_slide 2 (c_conn rest_end)) = [rest_msg 4 ''d'']"
    using f by (simp add: ack_slide_def slide.simps refill.simps Let_def rest_client_def two_wide_def)
  then show ?thesis by (simp add: rest_acks split_beta)
qed

end
