(* ===== verification/LspClaims.thy ===== *)
theory LspClaims
  imports LspPanic LspRunners LspProgress
begin

text \<open>
  The properties of the Live Sequence Protocol library and of the programs around it, each with a
  witness that applies it to the small session of \<open>LspDemo\<close>.
\<close>

section \<open>Delivery\<close>





text \<open>
  C19. A message that the client has written and that is no longer in its buffers has arrived: the
  server has handed it out already, or keeps it for its reader.
\<close>

theorem up_no_loss:
  assumes "client_fresh cid W c0" and "server_fresh cid (W + int d) s0"
    and "link_reach client_sstep (server_rstep cid) c0 s0 l"
    and "1 \<le> n" and "n \<le> int (length (l_hist l))"
    and "\<not> mhas (databuf (c_conn (l_snd l))) n" and "\<not> mhas (writebuf (c_conn (l_snd l))) n"
    and "fmlookup (s_conn (l_rcv l)) cid = Some v"
  shows "n \<le> int (length (l_out l)) \<or> fmlookup (readbuf v) n = Some (wmsg cid (l_hist l) n)"
  by (rule up_arrived [OF assms(3,1,2,4-8)])

theorem up_no_loss_witness:
  "\<exists>v. fmlookup (s_conn (l_rcv demo_up4)) 1 = Some v \<and>
    (1 \<le> int (length (l_out demo_up4)) \<or> fmlookup (readbuf v) 1 = Some (wmsg 1 (l_hist demo_up4) 1))"
proof -
  have f: "l_hist demo_up4 = [''hi'']" "l_snd demo_up4 = demo_client2" "l_rcv demo_up4 = demo_server2"
    by (simp_all add: demo_up4_def demo_up3_def demo_up2_def demo_up1_def)
  obtain v where "fmlookup (s_conn (l_rcv demo_up4)) 1 = Some v"
    using demo_server2_conn by (auto simp: f mhas_def)
  then show ?thesis
    using up_no_loss [of 1 1 demo_client 0 demo_server demo_up4 1 v] demo_client_fresh demo_server_fresh
      demo_up4_reach demo_client2_empty by (auto simp: f)
qed

text \<open>
  C20. The same towards the client: a message the server has accepted and that has left the buffers of
  the connection has been handed out by the client or waits for its reader.
\<close>

theorem down_no_loss:
  assumes "server_fresh cid W s0" and "client_fresh cid (W + int d) c0"
    and "link_reach (server_sstep cid) client_rstep s0 c0 l"
    and "1 \<le> n" and "n \<le> int (length (l_hist l))"
    and "fmlookup (s_conn (l_snd l)) cid = Some v" and "\<not> mhas (databuf v) n" and "\<not> mhas (writebuf v) n"
  shows "n \<le> int (length (l_out l)) \<or>
    fmlookup (readbuf (c_conn (l_rcv l))) n = Some (wmsg cid (l_hist l) n)"
  by (rule down_arrived [OF assms(3,1,2,4-8)])

theorem down_no_loss_witness:
  "1 \<le> int (length (l_out demo_down4)) \<or>
    fmlookup (readbuf (c_conn (l_rcv demo_down4))) 1 = Some (wmsg 1 (l_hist demo_down4) 1)"
proof -
  have f: "l_hist demo_down4 = [''yo'']" "l_snd demo_down4 = demo_servera"
    by (simp_all add: demo_down4_def demo_down3_def demo_down2_def demo_down1_def)
  obtain v where "fmlookup (s_conn (l_snd demo_down4)) 1 = Some v" "databuf v = fmempty" "writebuf v = fmempty"
    using demo_servera_conn by (auto simp: f)
  then show ?thesis
    using down_no_loss [of 1 1 demo_server 0 demo_client demo_down4 1 v] demo_client_fresh demo_server_fresh
      demo_down4_reach by (simp add: f)
qed



section \<open>Progress\<close>






section \<open>The window\<close>

text \<open>
  C26. The client never has more than \<open>WindowSize\<close> messages in flight, and their numbers lie in the
  window \<open>[seq, seq + WindowSize)\<close> and have been written.
\<close>

theorem up_window_bound:
  assumes "client_fresh cid W c0" and "server_fresh cid (W + int d) s0"
    and "link_reach client_sstep (server_rstep cid) c0 s0 l"
  shows "mlen (databuf (c_conn (l_snd l))) \<le> nat W \<and>
    (\<forall>n. mhas (databuf (c_conn (l_snd l))) n \<longrightarrow>
       seq (c_conn (l_snd l)) \<le> n \<and> n < seq (c_conn (l_snd l)) + W \<and> n < c_sendct (l_snd l))"
  by (rule up_in_flight [OF assms(3,1,2)])

theorem up_window_bound_witness:
  "mlen (databuf (c_conn demo_client1)) \<le> 1 \<and> mhas (databuf (c_conn demo_client1)) 1 \<and>
    seq (c_conn demo_client1) \<le> 1 \<and> 1 < seq (c_conn demo_client1) + 1"
proof -
  have f: "l_snd demo_up1 = demo_client1" by (simp add: demo_up1_def)
  have "mhas (databuf (c_conn demo_client1)) 1" by (simp add: demo_client1_eq)
  then show ?thesis
    using up_window_bound [of 1 1 demo_client 0 demo_server demo_up1] demo_client_fresh demo_server_fresh
      demo_up_reach(1) by (auto simp: f)
qed

text \<open>
  C40. Handling an acknowledgement refines a single slide of the window: it moves up by some \<open>j\<close>, not
  at all unless the oldest message was acknowledged, never past a message in flight, and admits
  exactly the queued messages of the new part.
\<close>

theorem ack_slide_refines:
  assumes "1 \<le> WindowSize (params v)"
  shows "\<exists>j. slid n v j (fst (ack_slide n v)) (snd (ack_slide n v))"
  using assms slid_moved slid_unmoved by (cases "n = seq v") blast+

theorem ack_slide_refines_witness:
  "\<exists>j. slid 1 (c_conn demo_client1) j (fst (ack_slide 1 (c_conn demo_client1))) (snd (ack_slide 1 (c_conn demo_client1)))"
  by (rule ack_slide_refines) (simp add: demo_client1_eq demo_client_def)

text \<open>A message that has been received before is acknowledged again and not stored a second time.\<close>

lemma duplicate_reacknowledged:
  assumes "estab (c_conn c)" and "\<not> losted (c_conn c)" and "ack (c_conn c) \<le> SeqNum m"
    and "mhas (ackbuf (c_conn c)) (SeqNum m)"
  shows "snd (client_data m c) = [Send (NewAck (c_conId c) (SeqNum m))] \<and>
    readbuf (c_conn (fst (client_data m c))) = readbuf (c_conn c)"
  using assms by (simp add: client_data_def Let_def split_beta accept_data_def)

section \<open>Epochs\<close>

text \<open>
  C28. A client that hears nothing for \<open>k\<close> epochs declares the server lost, and tells its reader,
  exactly when \<open>k\<close> has reached the epoch limit.
\<close>

theorem silent_server_lost:
  assumes "c_conId c \<noteq> 0" and "\<not> losted (c_conn c)" and "receive (c_conn c) = lastrece (c_conn c)" and "0 < k"
  shows "\<exists>c' es. client_handler (replicate k (Take oa od (Pkt None None timer))) c = Some (c', es) \<and>
    (losted (c_conn c') \<longleftrightarrow> EpochLimit (params (c_conn c)) \<le> int k) \<and>
    (Replyread (Pkt None None (- 2)) \<in> set es \<longleftrightarrow> EpochLimit (params (c_conn c)) \<le> int k)"
  using silent_epochs_run [OF assms(1), of oa od k] assms(2-4)
  by (auto simp: silent_epochs_def epoch_gap_def)

theorem silent_server_lost_witness:
  "(\<exists>c' es. client_handler (replicate 4 (Take [] [] (Pkt None None timer))) demo_client = Some (c', es) \<and>
      \<not> losted (c_conn c')) \<and>
   (\<exists>c' es. client_handler (replicate 5 (Take [] [] (Pkt None None timer))) demo_client = Some (c', es) \<and>
      losted (c_conn c'))"
proof -
  have p: "c_conId demo_client \<noteq> 0" "\<not> losted (c_conn demo_client)"
    "receive (c_conn demo_client) = lastrece (c_conn demo_client)"
    "EpochLimit (params (c_conn demo_client)) = 5"
    by (simp_all add: demo_defs)
  show ?thesis
    using silent_server_lost [OF p(1-3), of 4 "[]" "[]"] silent_server_lost [OF p(1-3), of 5 "[]" "[]"] p(4)
    by auto
qed

text \<open>
  At every epoch a client with a connection sends again every message that has not been
  acknowledged, every acknowledgement it still remembers, and the acknowledgement 0 that keeps the
  connection alive.
\<close>

lemma client_epoch_resends:
  assumes "c_conId c \<noteq> 0" and "enumerates od (fmdom (databuf (c_conn c)))"
    and "enumerates oa (fmdom (ackbuf (c_conn c)))"
    and "m = NewAck (c_conId c) 0 \<or> fmlookup (databuf (c_conn c)) n = Some m \<or> fmlookup (ackbuf (c_conn c)) n = Some m"
  shows "Send m \<in> set (snd (client_handleEpoch oa od c))"
  using client_handleEpoch_resend_all [OF assms(1-3)] assms(4) by blast





section \<open>Connections\<close>

text \<open>
  The server does not panic: in every state that it can reach, every step that the library can make
  ends in a state, as long as the application writes only to established connections.
\<close>

lemma server_never_panics:
  assumes "server_reach parm s" and "move_ok s i"
  shows "\<exists>s' es. server_step i s = Some (s', es) \<and> server_reach parm s'"
proof -
  have "srv_wf s" using server_reach_wf [OF assms(1)] by blast
  then obtain s' es where "server_step i s = Some (s', es)"
    using server_step_safe [OF _ assms(2)] by (auto elim!: safelyE)
  then show ?thesis using reach_move [OF assms] by blast
qed



text \<open>
  A \<open>Connect\<close> from an address that has a connection opens none: the numbers, the addresses and
  the window of that connection stay, and one that is not established yet gets its answer again.
\<close>

lemma reconnect_keeps:
  assumes "server_reach parm s" and "fmlookup (s_addmap s) a = Some i"
    and "recv_connect (Some a) s = Some (s', es)"
  shows "s_connCt s' = s_connCt s \<and> s_addmap s' = s_addmap s \<and> s_quiet i s s' \<and>
    (mhas (s_pendconn s) i \<longrightarrow> es = [Ssend (NewAck i 0) a])"
proof -
  have wf: "srv_wf s" using server_reach_wf [OF assms(1)] by blast
  obtain v where v: "fmlookup (s_conn s) i = Some v" "caddr v = Some a"
    using srv_wfD(4) [OF wf assms(2)] by blast
  show ?thesis
    using assms(2,3) v
    by (auto simp: recv_connect_def Let_def ssend_def s_quiet_def same_window_def split: if_splits)
qed

text \<open>A client never signals \<open>Lost\<close>.\<close>

lemma newclient_never_gives_up:
  assumes "client_step i c = Some (c', es)"
  shows "Lost \<notin> set es"
  using assms by (rule client_step_Lost)

section \<open>Closing\<close>

text \<open>
  When the server's handler lets \<open>Close\<close> return, no connection is left in the table that still
  waits for acknowledgements.
\<close>

lemma close_leaves_none_pending:
  assumes "handle_sclose rg s = Some (s', es)" and "Over p \<in> set es"
    and "enumerates (o_conn2 rg) (fmdom (s_conn s))"
  shows "\<not> (mhas (s_conn s') i \<and> mget False (s_closepend s') i)"
proof -
  have "\<And>i. mhas (s_conn s) i \<Longrightarrow> i \<in> set (o_conn2 rg)" using enumerates_mhas [OF assms(3)] by blast
  then show ?thesis using handle_sclose_done [OF assms(1,2)] by blast
qed

text \<open>
  \<open>CloseConn\<close> on an established connection forgets the connection at once, and keeps every
  message that is not acknowledged, sent or queued, with the address to send it to.
\<close>

lemma closeconn_keeps_unacked:
  assumes "fmlookup (s_conn s) (ConnID m) = Some v" and "caddr v = Some a"
    and "\<not> mhas (s_pendconn s) (ConnID m)" and "\<not> losted v"
  shows "\<exists>s' es f. handle_closeconn rg m s = Some (s', es) \<and> s_conn s' = fmdrop (ConnID m) (s_conn s) \<and>
    fmlookup (s_banclose s') (ConnID m) = Some f \<and> f_addr f = Some a \<and>
    (\<forall>n. mhas (f_databuf f) n \<longleftrightarrow> mhas (databuf v) n \<or> mhas (writebuf v) n)"
proof -
  obtain s' es f where r: "handle_closeconn rg m s = Some (s', es)" "s_conn s' = fmdrop (ConnID m) (s_conn s)"
    "fmlookup (s_banclose s') (ConnID m) = Some f" "f_addr f = Some a"
    "f_databuf f = fmadd (databuf v) (writebuf v)"
    using handle_closeconn_result [OF assms, of rg] by blast
  have "mhas (f_databuf f) n \<longleftrightarrow> mhas (databuf v) n \<or> mhas (writebuf v) n" for n
    by (auto simp: r(5) mhas_def split: if_splits)
  with r show ?thesis by blast
qed

section \<open>The network\<close>

text \<open>
  A percentage outside \<open>0..100\<close> is refused, and the four drop percentages stay in that range
  whatever is set.
\<close>

lemma drop_percent_bounded:
  assumes "percent_ok n"
  shows "percent_ok (SetReadDropPercent p (SetWriteDropPercent q n)) \<and>
    0 \<le> readDropPercent n c \<and> readDropPercent n c \<le> 100 \<and>
    0 \<le> writeDropPercent n c \<and> writeDropPercent n c \<le> 100"
  using assms drop_percent_range [OF assms] by (simp add: percent_ok_set)

section \<open>Sessions\<close>



text \<open>
  C23. The packet that \<open>Close\<close> of the client waits for is sent only when everything that was written
  has been acknowledged, or the server has been declared lost.
\<close>

theorem close_waits_for_acks:
  assumes "client_reach parm c" and "client_step i c = Some (c', es)" and "Over x \<in> set es"
  shows "losted (c_conn c') \<or> databuf (c_conn c') = fmempty \<and> writebuf (c_conn c') = fmempty"
  using client_step_Over [OF client_reach_close_inv [OF assms(1)] assms(2,3)] by (simp add: close_ready_def)

theorem close_waits_for_acks_witness:
  "losted (c_conn demo_closing) \<or> databuf (c_conn demo_closing) = fmempty \<and> writebuf (c_conn demo_closing) = fmempty"
  using close_waits_for_acks [OF demo_closed_reach demo_close_steps(5)] by simp


end
