(* ===== verification/LspGoroutines.thy ===== *)
theory LspGoroutines
  imports LspClient LspServer
begin

text \<open>
  The goroutines of a client and of a server, and the buffered channels between them. \<open>LspClient\<close>
  and \<open>LspServer\<close> give what one turn of the handler computes and the channel operations it makes;
  here those operations are carried out one at a time, and one that finds its channel full (or, for
  a receive, empty) blocks its goroutine. A system has the handler, the timer (\<open>Timers\<close>), the reader
  (\<open>connectHandler\<close>) and any number of goroutines of the application that call the API. A step is
  made by one of them; who moves next is open, as Go leaves it.

  A handler's turn changes the struct when the turn starts. The application's calls look at fields of
  the struct without a lock; they see the fields after the turn that is under way.
\<close>

section \<open>Channels\<close>

datatype chan = ReqC | ReplyC | ReplyreadC | OverC | CloseansC | WriteansC | BuildC | LostC
  | ExitC | ExitEpoC | QuitC

text \<open>A channel carries packets, or the number 1 as a signal.\<close>

datatype val = VPkt Packet | VInt int

type_synonym chans = "chan \<Rightarrow> val list"

definition chan_send :: "(chan \<Rightarrow> nat) \<Rightarrow> chan \<Rightarrow> val \<Rightarrow> chans \<Rightarrow> chans option" where
  "chan_send cap c v q = (if length (q c) < cap c then Some (q(c := q c @ [v])) else None)"

definition chan_recv :: "chan \<Rightarrow> chans \<Rightarrow> (val \<times> chans) option" where
  "chan_recv c q = (case q c of [] \<Rightarrow> None | v # r \<Rightarrow> Some (v, q(c := r)))"

text \<open>The capacities that \<open>NewClient\<close>, \<open>NewServer\<close> and \<open>NewConnection\<close> give to \<open>make\<close>; 0 where there is no such channel.\<close>

fun connection_cap :: "chan \<Rightarrow> nat" where
  "connection_cap BuildC = 1"
| "connection_cap LostC = 1"
| "connection_cap QuitC = 1"
| "connection_cap _ = 0"

fun client_cap :: "chan \<Rightarrow> nat" where
  "client_cap ReqC = 1000"
| "client_cap ReplyC = 100"
| "client_cap OverC = 1000"
| "client_cap ReplyreadC = 100"
| "client_cap ExitC = 1"
| "client_cap ExitEpoC = 1"
| "client_cap c = connection_cap c"

fun server_cap :: "chan \<Rightarrow> nat" where
  "server_cap ReqC = 1000"
| "server_cap ReplyC = 10000"
| "server_cap WriteansC = 100"
| "server_cap CloseansC = 100"
| "server_cap OverC = 100"
| "server_cap ExitC = 1"
| "server_cap ExitEpoC = 1"
| "server_cap c = connection_cap c"

text \<open>One operation of a goroutine: a send, the receive \<open><-over\<close>, or an operation on the socket.\<close>

fun effect_send :: "effect \<Rightarrow> (chan \<times> val) option" where
  "effect_send (Req p) = Some (ReqC, VPkt p)"
| "effect_send (Reply p) = Some (ReplyC, VPkt p)"
| "effect_send (Replyread p) = Some (ReplyreadC, VPkt p)"
| "effect_send (Over p) = Some (OverC, VPkt p)"
| "effect_send (Closeans p) = Some (CloseansC, VPkt p)"
| "effect_send (Writeans p) = Some (WriteansC, VPkt p)"
| "effect_send Build = Some (BuildC, VInt 1)"
| "effect_send Lost = Some (LostC, VInt 1)"
| "effect_send Exit = Some (ExitC, VInt 1)"
| "effect_send ExitEpo = Some (ExitEpoC, VInt 1)"
| "effect_send Quit = Some (QuitC, VInt 1)"
| "effect_send _ = None"

definition perform :: "(chan \<Rightarrow> nat) \<Rightarrow> effect \<Rightarrow> chans \<Rightarrow> chans option" where
  "perform cap e q =
     (case effect_send e of
        Some (c, v) \<Rightarrow> chan_send cap c v q
      | None \<Rightarrow> if e = TakeOver then map_option snd (chan_recv OverC q) else Some q)"

fun closes_socket :: "effect \<Rightarrow> bool" where
  "closes_socket (CloseSock c) = True"
| "closes_socket _ = False"

section \<open>Goroutines\<close>

text \<open>
  What is left to do of a call of the API: operations, a \<open>select\<close> over channels with what follows
  for the value received and the struct at that time, and writes to the struct.
\<close>

datatype 's op =
    Do effect
  | Select "(chan \<times> (val \<Rightarrow> 's \<Rightarrow> 's op list)) list"
  | Upd "'s \<Rightarrow> 's"

text \<open>
  The handler is at its \<open>select\<close>, waits for a packet, carries out the operations of a turn, has
  returned, or has run into a nil pointer, which ends the program.
\<close>

datatype handler_pc = HSelect | HTake | HTurn "effect list" | HDone | HPanic
datatype timer_pc = TWait | TPost | TDone
datatype reader_pc = RSelect | RRead | RPost Packet | RDone

record 's sys =
  y_st :: 's
  y_ch :: chans
  y_h :: handler_pc
  y_t :: timer_pc
  y_r :: reader_pc
  y_open :: bool
  y_app :: "nat \<Rightarrow> 's op list"

text \<open>The code a system runs: the capacities, the handler with the open orders, the calls of the API.\<close>

record ('s, 'o, 'c) machine =
  m_cap :: "chan \<Rightarrow> nat"
  m_handle :: "'o \<Rightarrow> Packet \<Rightarrow> 's \<Rightarrow> ('s, effect) outcome"
  m_call :: "'c \<Rightarrow> 's \<Rightarrow> 's op list"

text \<open>
  Who moves: the handler, the timer (an epoch has passed, the packet goes out, the exit signal is
  taken), the reader with what the socket gives it (\<open>None\<close>: an error, or a datagram that does not
  parse), a goroutine of the application that calls the API, and one that goes on with its call,
  with the alternative that its \<open>select\<close> takes. And what a move amounts to.
\<close>

datatype ('o, 'c) label =
    Handler 'o | TimerTick | TimerPost | TimerExit | Reader "Packet option" | Call nat 'c | App nat nat

datatype event =
    Turn Packet "effect list"    \<comment> \<open>the handler takes a packet and starts on the operations\<close>
  | Performed effect             \<comment> \<open>the handler has carried out one operation\<close>
  | Api effect                   \<comment> \<open>a call of the application has carried out one operation\<close>
  | Received chan val            \<comment> \<open>a call of the application has received a value\<close>
  | Silent

definition handler_step :: "('s, 'o, 'c) machine \<Rightarrow> 'o \<Rightarrow> 's sys \<Rightarrow> (event \<times> 's sys) option" where
  "handler_step M rg y =
     (case y_h y of
        HSelect \<Rightarrow>
          (case chan_recv ExitC (y_ch y) of
             Some (_, q) \<Rightarrow> Some (Silent, y\<lparr>y_h := HDone, y_ch := q\<rparr>)
           | None \<Rightarrow> Some (Silent, y\<lparr>y_h := HTake\<rparr>))
      | HTake \<Rightarrow>
          (case chan_recv ReqC (y_ch y) of
             Some (VPkt p, q) \<Rightarrow>
               (case m_handle M rg p (y_st y) of
                  None \<Rightarrow> Some (Silent, y\<lparr>y_h := HPanic\<rparr>)
                | Some (s, es) \<Rightarrow> Some (Turn p es, y\<lparr>y_st := s, y_ch := q, y_h := HTurn es\<rparr>))
           | _ \<Rightarrow> None)
      | HTurn [] \<Rightarrow> Some (Silent, y\<lparr>y_h := HSelect\<rparr>)
      | HTurn (e # es) \<Rightarrow>
          map_option (\<lambda>q. (Performed e, y\<lparr>y_ch := q, y_h := HTurn es, y_open := (y_open y \<and> \<not> closes_socket e)\<rparr>))
            (perform (m_cap M) e (y_ch y))
      | HDone \<Rightarrow> None
      | HPanic \<Rightarrow> None)"

definition post :: "('s, 'o, 'c) machine \<Rightarrow> Packet \<Rightarrow> 's sys \<Rightarrow> 's sys option" where
  "post M p y = map_option (\<lambda>q. y\<lparr>y_ch := q\<rparr>) (chan_send (m_cap M) ReqC (VPkt p) (y_ch y))"

definition timer_post :: "('s, 'o, 'c) machine \<Rightarrow> 's sys \<Rightarrow> (event \<times> 's sys) option" where
  "timer_post M y =
     (if y_t y = TPost then map_option (\<lambda>y. (Silent, y\<lparr>y_t := TWait\<rparr>)) (post M (Pkt None None timer) y) else None)"

definition timer_exit :: "'s sys \<Rightarrow> (event \<times> 's sys) option" where
  "timer_exit y =
     (if y_t y = TWait
      then map_option (\<lambda>(_, q). (Silent, y\<lparr>y_t := TDone, y_ch := q\<rparr>)) (chan_recv ExitEpoC (y_ch y))
      else None)"

definition reader_step :: "('s, 'o, 'c) machine \<Rightarrow> Packet option \<Rightarrow> 's sys \<Rightarrow> (event \<times> 's sys) option" where
  "reader_step M d y =
     (case y_r y of
        RSelect \<Rightarrow>
          (case chan_recv QuitC (y_ch y) of
             Some (_, q) \<Rightarrow> Some (Silent, y\<lparr>y_r := RDone, y_ch := q\<rparr>)
           | None \<Rightarrow> Some (Silent, y\<lparr>y_r := RRead\<rparr>))
      | RRead \<Rightarrow>
          (case d of
             None \<Rightarrow> Some (Silent, y\<lparr>y_r := RSelect\<rparr>)
           | Some p \<Rightarrow> if y_open y then Some (Silent, y\<lparr>y_r := RPost p\<rparr>) else None)
      | RPost p \<Rightarrow> map_option (\<lambda>y. (Silent, y\<lparr>y_r := RSelect\<rparr>)) (post M p y)
      | RDone \<Rightarrow> None)"

definition call_step :: "('s, 'o, 'c) machine \<Rightarrow> nat \<Rightarrow> 'c \<Rightarrow> 's sys \<Rightarrow> (event \<times> 's sys) option" where
  "call_step M i c y =
     (if y_app y i = [] then Some (Silent, y\<lparr>y_app := (y_app y)(i := m_call M c (y_st y))\<rparr>) else None)"

definition app_step :: "('s, 'o, 'c) machine \<Rightarrow> nat \<Rightarrow> nat \<Rightarrow> 's sys \<Rightarrow> (event \<times> 's sys) option" where
  "app_step M i k y =
     (case y_app y i of
        [] \<Rightarrow> None
      | Do e # ops \<Rightarrow>
          map_option (\<lambda>q. (Api e, y\<lparr>y_ch := q, y_open := (y_open y \<and> \<not> closes_socket e), y_app := (y_app y)(i := ops)\<rparr>))
            (perform (m_cap M) e (y_ch y))
      | Select alts # ops \<Rightarrow>
          (if k < length alts
           then (case alts ! k of (c, f) \<Rightarrow>
             map_option (\<lambda>(v, q). (Received c v, y\<lparr>y_ch := q, y_app := (y_app y)(i := f v (y_st y) @ ops)\<rparr>))
               (chan_recv c (y_ch y)))
           else None)
      | Upd f # ops \<Rightarrow> Some (Silent, y\<lparr>y_st := f (y_st y), y_app := (y_app y)(i := ops)\<rparr>))"

definition sys_step :: "('s, 'o, 'c) machine \<Rightarrow> ('o, 'c) label \<Rightarrow> 's sys \<Rightarrow> (event \<times> 's sys) option" where
  "sys_step M lab y =
     (if y_h y = HPanic then None
      else case lab of
        Handler rg \<Rightarrow> handler_step M rg y
      | TimerTick \<Rightarrow> if y_t y = TWait then Some (Silent, y\<lparr>y_t := TPost\<rparr>) else None
      | TimerPost \<Rightarrow> timer_post M y
      | TimerExit \<Rightarrow> timer_exit y
      | Reader d \<Rightarrow> reader_step M d y
      | Call i c \<Rightarrow> call_step M i c y
      | App i k \<Rightarrow> app_step M i k y)"

text \<open>A schedule: who moves, one after the other. The value is \<open>None\<close> when one of them cannot move.\<close>

fun sys_run :: "('s, 'o, 'c) machine \<Rightarrow> ('o, 'c) label list \<Rightarrow> 's sys \<Rightarrow> 's sys option" where
  "sys_run M [] y = Some y"
| "sys_run M (lab # labs) y =
     (case sys_step M lab y of None \<Rightarrow> None | Some (_, y') \<Rightarrow> sys_run M labs y')"

lemma sys_run_append:
  "sys_run M (ls @ ks) y = (case sys_run M ls y of None \<Rightarrow> None | Some y' \<Rightarrow> sys_run M ks y')"
  by (induction ls arbitrary: y) (auto split: option.splits)

definition sys_start :: "'s \<Rightarrow> (nat \<Rightarrow> 's op list) \<Rightarrow> 's sys" where
  "sys_start s apps =
     \<lparr>y_st = s, y_ch = \<lambda>_. [], y_h = HSelect, y_t = TWait, y_r = RSelect, y_open = True, y_app = apps\<rparr>"

section \<open>The client\<close>

text \<open>
  What follows a receive from \<open>over\<close> in \<open>Close\<close> is the rest of \<open>client_Close\<close>. \<open>NewClient\<close> is the first
  call: it posts a packet and waits for \<open>lost\<close> or \<open>build\<close>.
\<close>

datatype client_api = CallConnID | CallRead | CallWrite bytes | CallClose

definition close_rest :: "val \<Rightarrow> client \<Rightarrow> client op list" where
  "close_rest v c =
     (case v of
        VPkt x \<Rightarrow> map Do (drop 2 (snd (client_Close x c))) @ [Upd (\<lambda>c. fst (client_Close x c))]
      | VInt _ \<Rightarrow> [])"

fun client_call :: "client_api \<Rightarrow> client \<Rightarrow> client op list" where
  "client_call CallConnID c =
     (case client_ConnID_start c of Inl _ \<Rightarrow> [] | Inr es \<Rightarrow> map Do es @ [Select [(ReplyC, \<lambda>_ _. [])]])"
| "client_call CallRead c =
     (case client_Read_start c of Inl _ \<Rightarrow> [] | Inr es \<Rightarrow> map Do es @ [Select [(ReplyreadC, \<lambda>_ _. [])]])"
| "client_call (CallWrite p) c = map Do (snd (client_Write p c))"
| "client_call CallClose c = [Do (Req (Pkt None None cclose)), Select [(OverC, close_rest)]]"

definition built :: "client \<Rightarrow> client" where
  "built c = (case fst (NewClient_wait BuildSignal c) of Inr c' \<Rightarrow> c' | Inl _ \<Rightarrow> c)"

definition new_client_ops :: "effect list \<Rightarrow> client op list" where
  "new_client_ops es =
     map Do es @
       [Select [(LostC, \<lambda>_ c. map Do (snd (NewClient_wait LostSignal c))), (BuildC, \<lambda>_ _. [Upd built])]]"

definition client_machine :: "(client, int list \<times> int list, client_api) machine" where
  "client_machine = \<lparr>m_cap = client_cap, m_handle = \<lambda>(oa, od). client_handle oa od, m_call = client_call\<rparr>"

section \<open>The server\<close>

datatype server_api = CallSRead | CallSWrite int bytes | CallCloseConn int | CallSClose

definition sclose_rest :: "val \<Rightarrow> server \<Rightarrow> server op list" where
  "sclose_rest v s =
     (case v of
        VPkt x \<Rightarrow> map Do (snd (server_Close_finish x s)) @ [Upd (\<lambda>s. fst (server_Close_finish x s))]
      | VInt _ \<Rightarrow> [])"

fun server_call :: "server_api \<Rightarrow> server \<Rightarrow> server op list" where
  "server_call CallSRead s =
     (case server_Read_start s of Inl _ \<Rightarrow> [] | Inr es \<Rightarrow> map Do es @ [Select [(ReplyC, \<lambda>_ _. [])]])"
| "server_call (CallSWrite i p) s = map Do (server_Write_start i p) @ [Select [(WriteansC, \<lambda>_ _. [])]]"
| "server_call (CallCloseConn i) s =
     (case server_CloseConn_start i s of Inl _ \<Rightarrow> [] | Inr es \<Rightarrow> map Do es @ [Select [(CloseansC, \<lambda>_ _. [])]])"
| "server_call CallSClose s =
     Upd (\<lambda>s. fst (server_Close_start s)) # map Do (snd (server_Close_start s)) @ [Select [(OverC, sclose_rest)]]"

definition server_machine :: "(server, orders, server_api) machine" where
  "server_machine = \<lparr>m_cap = server_cap, m_handle = server_handle, m_call = server_call\<rparr>"

lemma machine_simps [simp]:
  "m_cap client_machine = client_cap" "m_handle client_machine = (\<lambda>(oa, od). client_handle oa od)"
  "m_call client_machine = client_call"
  "m_cap server_machine = server_cap" "m_handle server_machine = server_handle" "m_call server_machine = server_call"
  by (simp_all add: client_machine_def server_machine_def)

section \<open>Steps\<close>

lemma perform_cases:
  assumes "perform cap e q = Some q'"
  obtains (send) c v where "effect_send e = Some (c, v)" and "length (q c) < cap c" and "q' = q(c := q c @ [v])"
  | (take) v r where "e = TakeOver" and "q OverC = v # r" and "q' = q(OverC := r)"
  | (other) "effect_send e = None" and "e \<noteq> TakeOver" and "q' = q"
  using assms by (auto simp: perform_def chan_send_def chan_recv_def split: option.splits if_splits list.splits)

lemma chan_send_Some: "chan_send cap c v q = Some q' \<longleftrightarrow> length (q c) < cap c \<and> q' = q(c := q c @ [v])"
  by (auto simp: chan_send_def)

lemma chan_recv_Some: "chan_recv c q = Some (v, q') \<longleftrightarrow> (\<exists>r. q c = v # r \<and> q' = q(c := r))"
  by (auto simp: chan_recv_def split: list.splits)

lemma chan_recv_None: "chan_recv c q = None \<longleftrightarrow> q c = []"
  by (auto simp: chan_recv_def split: list.splits)

text \<open>Every step is of one of these kinds.\<close>

lemma sys_step_cases:
  assumes "sys_step M lab y = Some (ev, y')"
  obtains (turn) rg p r s es where "lab = Handler rg" and "y_h y = HTake" and "y_ch y ReqC = VPkt p # r"
      and "m_handle M rg p (y_st y) = Some (s, es)" and "ev = Turn p es"
      and "y' = y\<lparr>y_st := s, y_ch := (y_ch y)(ReqC := r), y_h := HTurn es\<rparr>"
  | (perf) rg e es q where "lab = Handler rg" and "y_h y = HTurn (e # es)" and "perform (m_cap M) e (y_ch y) = Some q"
      and "ev = Performed e"
      and "y' = y\<lparr>y_ch := q, y_h := HTurn es, y_open := (y_open y \<and> \<not> closes_socket e)\<rparr>"
  | (hsel) rg h r v where "lab = Handler rg" and "ev = Silent" and "y_h y \<noteq> HTake" and "y_h y \<noteq> HDone"
      and "\<not> (\<exists>e es. y_h y = HTurn (e # es))"
      and "h \<in> {HDone, HTake, HSelect}" and "y_ch y ExitC = v # r \<and> y' = y\<lparr>y_h := h, y_ch := (y_ch y)(ExitC := r)\<rparr> \<or> y' = y\<lparr>y_h := h\<rparr>"
  | (panic) rg p r where "lab = Handler rg" and "ev = Silent" and "y_h y = HTake" and "y' = y\<lparr>y_h := HPanic\<rparr>"
      and "y_ch y ReqC = VPkt p # r" and "m_handle M rg p (y_st y) = None"
  | (tick) t where "lab \<in> {TimerTick, TimerExit}" and "ev = Silent" and "y' = y\<lparr>y_t := t\<rparr> \<or>
      (\<exists>v r. y_ch y ExitEpoC = v # r \<and> y' = y\<lparr>y_t := t, y_ch := (y_ch y)(ExitEpoC := r)\<rparr>)"
  | (tpost) "lab = TimerPost" and "ev = Silent" and "length (y_ch y ReqC) < m_cap M ReqC"
      and "y' = y\<lparr>y_ch := (y_ch y)(ReqC := y_ch y ReqC @ [VPkt (Pkt None None timer)]), y_t := TWait\<rparr>"
  | (rread) d r where "lab = Reader d" and "ev = Silent" and "\<And>p. r = RPost p \<Longrightarrow> d = Some p \<and> y_open y"
      and "\<And>p. y_r y \<noteq> RPost p"
      and "y' = y\<lparr>y_r := r\<rparr> \<or> (\<exists>v q. y_ch y QuitC = v # q \<and> y' = y\<lparr>y_r := r, y_ch := (y_ch y)(QuitC := q)\<rparr>)"
  | (rpost) d p where "lab = Reader d" and "ev = Silent" and "y_r y = RPost p" and "length (y_ch y ReqC) < m_cap M ReqC"
      and "y' = y\<lparr>y_ch := (y_ch y)(ReqC := y_ch y ReqC @ [VPkt p]), y_r := RSelect\<rparr>"
  | (call) i c where "lab = Call i c" and "ev = Silent" and "y_app y i = []"
      and "y' = y\<lparr>y_app := (y_app y)(i := m_call M c (y_st y))\<rparr>"
  | (api) i k e ops q where "lab = App i k" and "y_app y i = Do e # ops" and "perform (m_cap M) e (y_ch y) = Some q"
      and "ev = Api e"
      and "y' = y\<lparr>y_ch := q, y_open := (y_open y \<and> \<not> closes_socket e), y_app := (y_app y)(i := ops)\<rparr>"
  | (recv) i k alts ops c f v r where "lab = App i k" and "y_app y i = Select alts # ops" and "k < length alts"
      and "alts ! k = (c, f)" and "y_ch y c = v # r" and "ev = Received c v"
      and "y' = y\<lparr>y_ch := (y_ch y)(c := r), y_app := (y_app y)(i := f v (y_st y) @ ops)\<rparr>"
  | (upd) i k f ops where "lab = App i k" and "ev = Silent" and "y_app y i = Upd f # ops"
      and "y' = y\<lparr>y_st := f (y_st y), y_app := (y_app y)(i := ops)\<rparr>"
proof (cases lab)
  case (Handler rg)
  then have h: "handler_step M rg y = Some (ev, y')" using assms by (simp add: sys_step_def split: if_splits)
  show thesis
  proof (cases "y_h y")
    case HSelect
    show thesis
    proof (cases "y_ch y ExitC")
      case Nil
      then show thesis using h HSelect hsel [OF Handler, of HTake] by (auto simp: handler_step_def chan_recv_def)
    next
      case (Cons v r)
      then show thesis using h HSelect hsel [OF Handler, of HDone v r] by (auto simp: handler_step_def chan_recv_def)
    qed
  next
    case HTake
    then obtain p r where q: "y_ch y ReqC = VPkt p # r"
      using h by (auto simp: handler_step_def chan_recv_def split: list.splits val.splits)
    show thesis
      using h HTake q turn [OF Handler HTake q] panic [OF Handler _ HTake _ q]
      by (cases "m_handle M rg p (y_st y)") (auto simp: handler_step_def chan_recv_def)
  next
    case (HTurn todo)
    then show thesis
      using h hsel [OF Handler, of HSelect] perf [OF Handler] by (cases todo) (auto simp: handler_step_def)
  qed (use h in \<open>simp_all add: handler_step_def\<close>)
next
  case TimerTick
  then show thesis using assms tick [of TPost] by (auto simp: sys_step_def split: if_splits)
next
  case TimerPost
  then show thesis
    using assms tpost by (auto simp: sys_step_def timer_post_def post_def chan_send_def split: if_splits)
next
  case TimerExit
  then show thesis
    using assms tick [of TDone] by (auto simp: sys_step_def timer_exit_def chan_recv_def split: if_splits list.splits)
next
  case (Reader d)
  then have r: "reader_step M d y = Some (ev, y')" using assms by (simp add: sys_step_def split: if_splits)
  show thesis
  proof (cases "y_r y")
    case RSelect
    show thesis
    proof (cases "y_ch y QuitC")
      case Nil
      then show thesis using r RSelect rread [OF Reader, of RRead] by (auto simp: reader_step_def chan_recv_def)
    next
      case (Cons v q)
      then show thesis using r RSelect rread [OF Reader, of RDone] by (auto simp: reader_step_def chan_recv_def)
    qed
  next
    case RRead
    show thesis
    proof (cases d)
      case None
      then show thesis using r RRead rread [OF Reader, of RSelect] by (auto simp: reader_step_def)
    next
      case (Some p)
      then show thesis using r RRead rread [OF Reader, of "RPost p"] by (auto simp: reader_step_def split: if_splits)
    qed
  next
    case (RPost p)
    then show thesis using r rpost [OF Reader _ RPost] by (auto simp: reader_step_def post_def chan_send_def split: if_splits)
  qed (use r in \<open>simp add: reader_step_def\<close>)
next
  case (Call i c)
  then show thesis using assms call by (auto simp: sys_step_def call_step_def split: if_splits)
next
  case (App i k)
  then have a: "app_step M i k y = Some (ev, y')" using assms by (simp add: sys_step_def split: if_splits)
  show thesis
  proof (cases "y_app y i")
    case Nil
    then show thesis using a by (simp add: app_step_def)
  next
    case (Cons o1 ops)
    show thesis
    proof (cases o1)
      case (Do e)
      then show thesis using a Cons api [OF App] by (auto simp: app_step_def)
    next
      case (Select alts)
      then show thesis
        using a Cons recv [OF App]
        by (auto simp: app_step_def chan_recv_def split: if_splits prod.splits list.splits)
    next
      case (Upd f)
      then show thesis using a Cons upd [OF App] by (auto simp: app_step_def)
    qed
  qed
qed

end
