(* ===== verification/LspEndpoints.thy ===== *)
theory LspEndpoints
  imports LspGoroutines LspLink
begin

text \<open>
  A system of goroutines as one end of a link. The links of \<open>LspLink\<close> take the turns of a handler as
  atomic: all effects of a turn happen at once. Here a turn's operations are carried out one by one,
  packets wait in channels, and what the reader of the application gets has come through two of them.
  The interfaces \<open>sending_goroutines\<close> and \<open>receiving_goroutines\<close> say what the code of an endpoint must do
  for its system to be simulated by the link, and prove the simulation once.
\<close>

section \<open>What is under way in a system\<close>

text \<open>The packets that the handler will be given, and the operations left of its turn.\<close>

definition held :: "'s sys \<Rightarrow> Packet set" where
  "held y = {p. VPkt p \<in> set (y_ch y ReqC) \<or> y_r y = RPost p}"

fun todo :: "handler_pc \<Rightarrow> effect list" where
  "todo (HTurn es) = es"
| "todo _ = []"

text \<open>The datagram that an event puts on the network.\<close>

fun sent_now :: "event \<Rightarrow> Message set" where
  "sent_now (Performed e) = set_option (sent_message e)"
| "sent_now (Api e) = set_option (sent_message e)"
| "sent_now _ = {}"

text \<open>
  Every operation left of a call, now and after whatever it receives, satisfies \<open>A\<close> if it is a channel
  or socket operation, receives only from channels in \<open>B\<close>, and changes the struct as \<open>U\<close> says.
\<close>

inductive op_ok :: "(effect \<Rightarrow> bool) \<Rightarrow> (chan \<Rightarrow> bool) \<Rightarrow> (('s \<Rightarrow> 's) \<Rightarrow> bool) \<Rightarrow> 's op \<Rightarrow> bool" for A B U where
  ok_do: "A e \<Longrightarrow> op_ok A B U (Do e)"
| ok_select: "\<forall>c f. (c, f) \<in> set alts \<longrightarrow> B c \<and> (\<forall>v s op. op \<in> set (f v s) \<longrightarrow> op_ok A B U op) \<Longrightarrow>
    op_ok A B U (Select alts)"
| ok_upd: "U f \<Longrightarrow> op_ok A B U (Upd f)"

inductive_simps op_ok_simps [simp]:
  "op_ok A B U (Do e)" "op_ok A B U (Select alts)" "op_ok A B U (Upd f)"

definition ops_ok :: "('s op \<Rightarrow> bool) \<Rightarrow> 's sys \<Rightarrow> bool" where
  "ops_ok P y \<longleftrightarrow> (\<forall>i. \<forall>op \<in> set (y_app y i). P op)"

lemma ops_ok_step:
  assumes "sys_step M lab y = Some (ev, y')" and "ops_ok (op_ok A B U) y"
    and "\<And>i c op s. lab = Call i c \<Longrightarrow> op \<in> set (m_call M c s) \<Longrightarrow> op_ok A B U op"
  shows "ops_ok (op_ok A B U) y'"
  using assms(1)
proof (cases rule: sys_step_cases)
  case (recv i k alts ops c f v r)
  have s: "op_ok A B U (Select alts)" and o: "\<forall>op \<in> set ops. op_ok A B U op"
    using assms(2) recv(2) unfolding ops_ok_def by (metis list.set_intros)+
  have "(c, f) \<in> set alts" using recv(3,4) by (metis nth_mem)
  then have "\<forall>op \<in> set (f v (y_st y)). op_ok A B U op" using s by auto
  then show ?thesis using assms(2) o unfolding ops_ok_def recv(7) by auto
next
  case (call i c)
  then show ?thesis using assms(2) assms(3) [OF call(1)] by (auto simp: ops_ok_def)
next
  case (api i k e ops q)
  then show ?thesis using assms(2) unfolding ops_ok_def by (auto dest: spec [of _ i])
next
  case (upd i k f ops)
  then show ?thesis using assms(2) unfolding ops_ok_def by (auto dest: spec [of _ i])
qed (use assms(2) in \<open>auto simp: ops_ok_def\<close>)

lemma ops_ok_head: "ops_ok P y \<Longrightarrow> y_app y i = op # ops \<Longrightarrow> P op"
  unfolding ops_ok_def by (metis list.set_intros(1))

text \<open>How the packets under way change: only a post adds one.\<close>

lemma perform_ReqC:
  assumes "perform cap e q = Some q'"
  shows "q' ReqC = (case e of Req p \<Rightarrow> q ReqC @ [VPkt p] | _ \<Rightarrow> q ReqC)"
  using assms by (cases rule: perform_cases) (cases e; auto)+

lemma held_step:
  assumes "sys_step M lab y = Some (ev, y')" and "p \<in> held y'"
  shows "p \<in> held y \<or> p = Pkt None None timer \<or> lab = Reader (Some p) \<or> ev = Performed (Req p) \<or> ev = Api (Req p)"
  using assms(1)
proof (cases rule: sys_step_cases)
  case (perf rg e es q)
  then show ?thesis using assms(2) perform_ReqC [OF perf(3)] by (cases e) (auto simp: held_def)
next
  case (api i k e ops q)
  then show ?thesis using assms(2) perform_ReqC [OF api(3)] by (cases e) (auto simp: held_def)
next
  case (rread d r)
  then show ?thesis using assms(2) by (auto simp: held_def)
next
  case (recv i k alts ops c f v r)
  then show ?thesis using assms(2) by (auto simp: held_def split: if_splits)
qed (use assms(2) in \<open>auto simp: held_def\<close>)

text \<open>How the operations of the turn change.\<close>

lemma todo_step:
  assumes "sys_step M lab y = Some (ev, y')"
  shows "(\<exists>p. ev = Turn p (todo (y_h y')) \<and> todo (y_h y) = []) \<or>
    (\<exists>e. ev = Performed e \<and> todo (y_h y) = e # todo (y_h y')) \<or>
    (\<forall>p es e. ev \<noteq> Turn p es \<and> ev \<noteq> Performed e) \<and> todo (y_h y') = todo (y_h y)"
  using assms
proof (cases rule: sys_step_cases)
  case (hsel rg h r v)
  have "todo (y_h y) = []"
  proof (cases "y_h y")
    case (HTurn es)
    then show ?thesis using hsel(5) by (cases es) auto
  qed simp_all
  then show ?thesis using hsel by auto
qed auto

text \<open>How the struct changes.\<close>

lemma state_step:
  assumes "sys_step M lab y = Some (ev, y')"
  obtains (turn) rg p es where "ev = Turn p es" and "m_handle M rg p (y_st y) = Some (y_st y', es)" and "p \<in> held y"
  | (upd) i f ops where "ev = Silent" and "y_app y i = Upd f # ops" and "y_st y' = f (y_st y)"
  | (same) "y_st y' = y_st y" and "\<And>p es. ev \<noteq> Turn p es"
  using assms
proof (cases rule: sys_step_cases)
  case (turn rg p r s es)
  then show thesis using that(1) [of p es rg] by (auto simp: held_def)
next
  case (upd i k f ops)
  then show thesis using that(2) by auto
qed (use that(3) in auto)

lemma api_step:
  assumes "sys_step M lab y = Some (Api e, y')"
  shows "\<exists>i ops. y_app y i = Do e # ops"
  using assms by (cases rule: sys_step_cases) auto

section \<open>A tame system\<close>

text \<open>
  What both interfaces share: the packets that the goroutines of the system itself post (the handler, the
  timer, the calls of the API) satisfy \<open>own\<close>, and the operations of the calls satisfy \<open>api\<close>, which
  excludes datagrams. \<open>calls\<close> are the calls of the API that may be made.
\<close>

locale goroutines =
  fixes M :: "('s, 'o, 'c) machine" and calls :: "'c \<Rightarrow> bool" and own :: "Packet \<Rightarrow> bool"
    and api :: "effect \<Rightarrow> bool" and upd :: "('s \<Rightarrow> 's) \<Rightarrow> bool"
  assumes own_posts: "m_handle M rg p s = Some (s', es) \<Longrightarrow> Req q \<in> set es \<Longrightarrow> own q"
    and own_timer: "own (Pkt None None timer)"
    and own_call: "calls c \<Longrightarrow> op \<in> set (m_call M c s) \<Longrightarrow> op_ok api (\<lambda>c. c \<noteq> ReqC) upd op"
    and api_own: "api (Req q) \<Longrightarrow> own q"
    and api_quiet: "api e \<Longrightarrow> sent_message e = None"
begin

definition tame :: "'s sys \<Rightarrow> bool" where
  "tame y \<longleftrightarrow> (\<forall>q. Req q \<in> set (todo (y_h y)) \<longrightarrow> own q) \<and> ops_ok (op_ok api (\<lambda>c. c \<noteq> ReqC) upd) y"

lemma tame_api:
  assumes "tame y" and "sys_step M lab y = Some (Api e, y')"
  shows "api e"
proof -
  obtain i ops where "y_app y i = Do e # ops" using api_step [OF assms(2)] by blast
  then have "op_ok api (\<lambda>c. c \<noteq> ReqC) upd (Do e)" using assms(1) ops_ok_head unfolding tame_def by blast
  then show ?thesis by simp
qed

lemma tame_upd:
  assumes "tame y" and "y_app y i = Upd f # ops"
  shows "upd f"
proof -
  have "op_ok api (\<lambda>c. c \<noteq> ReqC) upd (Upd f)" using assms ops_ok_head unfolding tame_def by blast
  then show ?thesis by simp
qed

lemma tame_step:
  assumes st: "sys_step M lab y = Some (ev, y')" and t: "tame y" and calls: "\<And>i c. lab = Call i c \<Longrightarrow> calls c"
  shows "tame y'"
proof -
  have "own q" if q: "Req q \<in> set (todo (y_h y'))" for q
    using st
  proof (cases rule: state_step)
    case (turn rg p es)
    then have "todo (y_h y') = es" using todo_step [OF st] by auto
    then show ?thesis using own_posts [OF turn(2)] q by simp
  next
    case (upd i f ops)
    then have "todo (y_h y') = todo (y_h y)" using todo_step [OF st] by auto
    then show ?thesis using t q by (simp add: tame_def)
  next
    case same
    then have "set (todo (y_h y')) \<subseteq> set (todo (y_h y))" using todo_step [OF st] by auto
    then show ?thesis using t q unfolding tame_def by blast
  qed
  moreover have "ops_ok (op_ok api (\<lambda>c. c \<noteq> ReqC) upd) y'"
    by (rule ops_ok_step [OF st]) (use t own_call calls in \<open>auto simp: tame_def\<close>)
  ultimately show ?thesis by (simp add: tame_def)
qed

text \<open>A packet on its way to the handler was there before, is the system's own, or came from the network.\<close>

lemma tame_held:
  assumes st: "sys_step M lab y = Some (ev, y')" and t: "tame y" and p: "p \<in> held y'"
  shows "p \<in> held y \<or> own p \<or> lab = Reader (Some p)"
  using held_step [OF st p]
proof (elim disjE)
  assume "ev = Performed (Req p)"
  then have "Req p \<in> set (todo (y_h y))" using todo_step [OF st] by auto
  then show ?thesis using t by (simp add: tame_def)
next
  assume "ev = Api (Req p)"
  then show ?thesis using tame_api [OF t] st api_own by blast
qed (use own_timer in auto)

text \<open>A datagram that goes out, or is left to send, was left to send before or belongs to the turn that starts.\<close>

lemma tame_sent:
  assumes st: "sys_step M lab y = Some (ev, y')" and t: "tame y"
    and m: "m \<in> sent_now ev \<or> m \<in> set (sent (todo (y_h y')))"
  shows "m \<in> set (sent (todo (y_h y))) \<or> (\<exists>p es. ev = Turn p es \<and> m \<in> set (sent es))"
proof -
  have api: "sent_now ev = {}" if "ev = Api e" for e
    using tame_api [OF t] st that api_quiet by simp
  from todo_step [OF st] show ?thesis
  proof (elim disjE exE conjE)
    fix e
    assume "ev = Performed e" "todo (y_h y) = e # todo (y_h y')"
    then show ?thesis using m by (auto split: option.splits)
  next
    assume e: "\<forall>p es e. ev \<noteq> Turn p es \<and> ev \<noteq> Performed e" "todo (y_h y') = todo (y_h y)"
    then have "sent_now ev = {}" using api by (cases ev) auto
    then show ?thesis using m e(2) by simp
  qed (use m in auto)
qed

end

section \<open>Sending\<close>

text \<open>
  \<open>wr\<close> says which turns accept a payload, \<open>ackn\<close> which packets bring an acknowledgement of this
  connection, \<open>isdata\<close> which datagrams are its data; \<open>ok\<close> excludes packets that are left out.
\<close>

definition sender_event :: "bytes option \<Rightarrow> int option \<Rightarrow> sev" where
  "sender_event b n = (case b of Some p \<Rightarrow> SWrite p | None \<Rightarrow> (case n of Some k \<Rightarrow> SAck k | None \<Rightarrow> SOther))"

definition sender_own :: "(Packet \<Rightarrow> bool) \<Rightarrow> (Packet \<Rightarrow> int option) \<Rightarrow> Packet \<Rightarrow> bool" where
  "sender_own ok ackn p \<longleftrightarrow> ok p \<and> ackn p = None"

definition sender_api :: "(Packet \<Rightarrow> bool) \<Rightarrow> (Packet \<Rightarrow> int option) \<Rightarrow> effect \<Rightarrow> bool" where
  "sender_api ok ackn e \<longleftrightarrow> sent_message e = None \<and> (\<forall>p. e = Req p \<longrightarrow> sender_own ok ackn p)"

definition sender_upd :: "'s sender_step \<Rightarrow> ('s \<Rightarrow> 's) \<Rightarrow> bool" where
  "sender_upd sstep f \<longleftrightarrow> (\<forall>s. sstep s SOther (f s) {})"

fun accepted :: "(Packet \<Rightarrow> effect list \<Rightarrow> bytes option) \<Rightarrow> event \<Rightarrow> bytes list" where
  "accepted wr (Turn p es) = (case wr p es of None \<Rightarrow> [] | Some b \<Rightarrow> [b])"
| "accepted wr _ = []"

locale sending_goroutines =
  goroutines M calls "sender_own ok ackn" "sender_api ok ackn" "sender_upd sstep"
  for M :: "('s, 'o, 'c) machine" and sstep :: "'s sender_step"
    and ok :: "Packet \<Rightarrow> bool" and calls :: "'c \<Rightarrow> bool" and ackn :: "Packet \<Rightarrow> int option" +
  fixes wr :: "Packet \<Rightarrow> effect list \<Rightarrow> bytes option" and isdata :: "Message \<Rightarrow> bool"
  assumes snd_turn: "m_handle M rg p s = Some (s', es) \<Longrightarrow> ok p \<Longrightarrow>
      sstep s (sender_event (wr p es) (ackn p)) s' {m \<in> set (sent es). isdata m}"
begin

definition sends :: "'s sys \<Rightarrow> ('s, 'r) link \<Rightarrow> bytes list \<Rightarrow> Message set \<Rightarrow> bool" where
  "sends y l acc net \<longleftrightarrow>
     l_snd l = y_st y \<and> l_hist l = acc \<and> tame y \<and>
     (\<forall>m. m \<in> net \<or> m \<in> set (sent (todo (y_h y))) \<longrightarrow> isdata m \<longrightarrow> m \<in> l_dnet l) \<and>
     (\<forall>p \<in> held y. ok p \<and> (\<forall>n. ackn p = Some n \<longrightarrow> n \<in> l_anet l))"

lemma sends_mono:
  assumes "sends y l acc net" and "l_snd l' = l_snd l" and "l_hist l' = l_hist l" and "l_dnet l \<subseteq> l_dnet l'"
    and "l_anet l \<subseteq> l_anet l'" and "net' \<subseteq> net"
  shows "sends y l' acc net'"
  using assms(1) unfolding sends_def assms(2,3) using assms(4-6) by blast

text \<open>The simulation: a step of the system is at most one step of the link's sender.\<close>

lemma sends_step:
  assumes st: "sys_step M lab y = Some (ev, y')" and inv: "sends y l acc net"
    and net: "\<And>p. lab = Reader (Some p) \<Longrightarrow> ok p \<and> (\<forall>n. ackn p = Some n \<longrightarrow> n \<in> l_anet l)"
    and calls: "\<And>i c. lab = Call i c \<Longrightarrow> calls c"
  shows "\<exists>l'. (l' = l \<or> link_step sstep rstep l l') \<and> l_rcv l' = l_rcv l \<and> l_anet l' = l_anet l \<and>
    l_out l' = l_out l \<and> l_dnet l \<subseteq> l_dnet l' \<and> sends y' l' (acc @ accepted wr ev) (net \<union> sent_now ev)"
proof -
  have t: "tame y" and l: "l_snd l = y_st y" "l_hist l = acc"
    and dn: "\<And>m. m \<in> net \<or> m \<in> set (sent (todo (y_h y))) \<Longrightarrow> isdata m \<Longrightarrow> m \<in> l_dnet l"
    and hd: "\<And>p. p \<in> held y \<Longrightarrow> ok p \<and> (\<forall>n. ackn p = Some n \<longrightarrow> n \<in> l_anet l)"
    using inv unfolding sends_def by blast+
  have hd': "ok p \<and> (\<forall>n. ackn p = Some n \<longrightarrow> n \<in> l_anet l)" if "p \<in> held y'" for p
    using tame_held [OF st t that] hd net by (auto simp: sender_own_def)
  have dn': "m \<in> l_dnet l \<union> D"
    if "\<And>p es. ev = Turn p es \<Longrightarrow> {m \<in> set (sent es). isdata m} \<subseteq> D"
      "m \<in> net \<union> sent_now ev \<or> m \<in> set (sent (todo (y_h y')))" "isdata m" for m D
    using that tame_sent [OF st t, of m] dn [of m] by blast
  have res: "sends y' l' (acc @ accepted wr ev) (net \<union> sent_now ev)"
    if "l_snd l' = y_st y'" "l_hist l' = acc @ accepted wr ev" "l_anet l' = l_anet l" "l_dnet l' = l_dnet l \<union> D"
      "\<And>p es. ev = Turn p es \<Longrightarrow> {m \<in> set (sent es). isdata m} \<subseteq> D" for l' :: "('s, 'r) link" and D
    unfolding sends_def
    using that hd' dn' [OF that(5)] tame_step [OF st t calls] by simp
  show ?thesis
    using st
  proof (cases rule: state_step)
    case (turn rg p es)
    let ?D = "{m \<in> set (sent es). isdata m}"
    have p: "ok p" "\<And>n. ackn p = Some n \<Longrightarrow> n \<in> l_anet l" using hd [OF turn(3)] by auto
    have s: "sstep (l_snd l) (sender_event (wr p es) (ackn p)) (y_st y') ?D" using snd_turn [OF turn(2) p(1)] l(1) by simp
    show ?thesis
    proof (cases "wr p es")
      case (Some b)
      then have s': "sstep (l_snd l) (SWrite b) (y_st y') ?D" using s by (simp add: sender_event_def)
      let ?l = "l\<lparr>l_snd := y_st y', l_hist := l_hist l @ [b], l_dnet := l_dnet l \<union> ?D\<rparr>"
      have "link_step sstep rstep l ?l" by (rule link_write [where sstep = sstep and rstep = rstep and l = l, OF s'])
      then show ?thesis using res [of ?l ?D] turn(1) Some l by (intro exI [of _ ?l]) auto
    next
      case None
      show ?thesis
      proof (cases "ackn p")
        case (Some n)
        then have s': "sstep (l_snd l) (SAck n) (y_st y') ?D" using s None by (simp add: sender_event_def)
        let ?l = "l\<lparr>l_snd := y_st y', l_dnet := l_dnet l \<union> ?D\<rparr>"
        have "link_step sstep rstep l ?l"
          by (rule link_ack [where sstep = sstep and rstep = rstep and l = l, OF p(2) [OF Some] s'])
        then show ?thesis using res [of ?l ?D] turn(1) None l by (intro exI [of _ ?l]) auto
      next
        case none: None
        then have s': "sstep (l_snd l) SOther (y_st y') ?D" using s None by (simp add: sender_event_def)
        let ?l = "l\<lparr>l_snd := y_st y', l_dnet := l_dnet l \<union> ?D\<rparr>"
        have "link_step sstep rstep l ?l" by (rule link_snd [where sstep = sstep and rstep = rstep and l = l, OF s'])
        then show ?thesis using res [of ?l ?D] turn(1) None l by (intro exI [of _ ?l]) auto
      qed
    qed
  next
    case (upd i f ops)
    have s': "sstep (l_snd l) SOther (y_st y') {}"
      using tame_upd [OF t upd(2)] upd(3) l(1) by (simp add: sender_upd_def)
    let ?l = "l\<lparr>l_snd := y_st y', l_dnet := l_dnet l \<union> {}\<rparr>"
    have "link_step sstep rstep l ?l" by (rule link_snd [where sstep = sstep and rstep = rstep and l = l, OF s'])
    then show ?thesis using res [of ?l "{}"] upd(1) l by (intro exI [of _ ?l]) auto
  next
    case same
    then have "accepted wr ev = []" by (cases ev) auto
    then show ?thesis using res [of l "{}"] same l by (intro exI [of _ l]) auto
  qed
qed

end

section \<open>Receiving\<close>

text \<open>
  \<open>datan\<close> says which packets bring a data message of this connection, \<open>ackm\<close> which datagrams
  acknowledge one, and \<open>rch\<close> is the channel over which payloads go to the application: \<open>reads\<close> is what a
  send puts there, \<open>got\<close> what a receive takes out.
\<close>

definition receiver_event :: "Message option \<Rightarrow> rev" where
  "receiver_event d = (case d of Some m \<Rightarrow> RData m | None \<Rightarrow> ROther)"

definition receiver_own :: "(Packet \<Rightarrow> bool) \<Rightarrow> (Packet \<Rightarrow> Message option) \<Rightarrow> Packet \<Rightarrow> bool" where
  "receiver_own ok datan p \<longleftrightarrow> ok p \<and> datan p = None"

definition receiver_api :: "(Packet \<Rightarrow> bool) \<Rightarrow> (Packet \<Rightarrow> Message option) \<Rightarrow> (effect \<Rightarrow> bytes option) \<Rightarrow> effect \<Rightarrow> bool" where
  "receiver_api ok datan reads e \<longleftrightarrow>
     sent_message e = None \<and> reads e = None \<and> (\<forall>p. e = Req p \<longrightarrow> receiver_own ok datan p)"

definition receiver_upd :: "'r receiver_step \<Rightarrow> ('r \<Rightarrow> 'r) \<Rightarrow> bool" where
  "receiver_upd rstep f \<longleftrightarrow> (\<forall>s. rstep s ROther (f s) {} [])"

fun taken :: "(val \<Rightarrow> bytes option) \<Rightarrow> chan \<Rightarrow> event \<Rightarrow> bytes list" where
  "taken got rch (Received c v) = (if c = rch then (case got v of None \<Rightarrow> [] | Some b \<Rightarrow> [b]) else [])"
| "taken got rch _ = []"

lemma map_filter_append [simp]: "List.map_filter f (xs @ ys) = List.map_filter f xs @ List.map_filter f ys"
  by (simp add: List.map_filter_def)

lemma map_filter_rec [simp]:
  "List.map_filter f [] = []"
  "List.map_filter f (x # xs) = (case f x of None \<Rightarrow> List.map_filter f xs | Some y \<Rightarrow> y # List.map_filter f xs)"
  by (simp_all add: List.map_filter_def split: option.splits)

fun handed :: "(effect \<Rightarrow> bytes option) \<Rightarrow> event \<Rightarrow> bytes list" where
  "handed f (Turn p es) = List.map_filter f es"
| "handed f _ = []"

locale receiving_goroutines =
  goroutines M calls "receiver_own ok datan" "receiver_api ok datan reads" "receiver_upd rstep"
  for M :: "('r, 'o, 'c) machine" and rstep :: "'r receiver_step"
    and ok :: "Packet \<Rightarrow> bool" and calls :: "'c \<Rightarrow> bool" and datan :: "Packet \<Rightarrow> Message option"
    and reads :: "effect \<Rightarrow> bytes option" +
  fixes ackm :: "Message \<Rightarrow> int option" and got :: "val \<Rightarrow> bytes option" and rch :: chan
  assumes rcv_turn: "m_handle M rg p s = Some (s', es) \<Longrightarrow> ok p \<Longrightarrow>
      rstep s (receiver_event (datan p)) s' {n. \<exists>m \<in> set (sent es). ackm m = Some n} (List.map_filter reads es)"
    and rcv_reads: "reads e =
      (case effect_send e of Some (c, v) \<Rightarrow> if c = rch then got v else None | None \<Rightarrow> None)"
    and rcv_chan: "rch = ReplyC \<or> rch = ReplyreadC"
begin

definition receives :: "'r sys \<Rightarrow> ('s, 'r) link \<Rightarrow> bytes list \<Rightarrow> Message set \<Rightarrow> bool" where
  "receives y l out net \<longleftrightarrow>
     l_rcv l = y_st y \<and> tame y \<and>
     l_out l = out @ List.map_filter got (y_ch y rch) @ List.map_filter reads (todo (y_h y)) \<and>
     (\<forall>m. m \<in> net \<or> m \<in> set (sent (todo (y_h y))) \<longrightarrow> (\<forall>n. ackm m = Some n \<longrightarrow> n \<in> l_anet l)) \<and>
     (\<forall>p \<in> held y. ok p \<and> (\<forall>m. datan p = Some m \<longrightarrow> m \<in> l_dnet l))"

lemma receives_mono:
  assumes "receives y l out net" and "l_rcv l' = l_rcv l" and "l_out l' = l_out l" and "l_dnet l \<subseteq> l_dnet l'"
    and "l_anet l \<subseteq> l_anet l'" and "net' \<subseteq> net"
  shows "receives y l' out net'"
  using assms(1) unfolding receives_def assms(2,3) using assms(4-6) by blast

text \<open>The payloads on their way to the application: a turn adds them at one end, a receive takes one at the other.\<close>

lemma stream_step:
  assumes st: "sys_step M lab y = Some (ev, y')" and t: "tame y"
  shows "List.map_filter got (y_ch y rch) @ List.map_filter reads (todo (y_h y)) @ handed reads ev =
    taken got rch ev @ List.map_filter got (y_ch y' rch) @ List.map_filter reads (todo (y_h y'))"
proof -
  have ch: "rch \<noteq> ReqC" "rch \<noteq> OverC" "rch \<noteq> ExitC" "rch \<noteq> ExitEpoC" "rch \<noteq> QuitC" using rcv_chan by auto
  have put: "List.map_filter got (q' rch) = List.map_filter got (q rch) @ List.map_filter reads [e]"
    if "perform cap e q = Some q'" for cap e q q'
    using that
  proof (cases rule: perform_cases)
    case (send c v)
    then show ?thesis using rcv_reads [of e] by (auto split: option.splits)
  next
    case (take v r)
    then show ?thesis using rcv_reads [of e] ch by auto
  next
    case other
    then show ?thesis using rcv_reads [of e] by auto
  qed
  show ?thesis
    using st
  proof (cases rule: sys_step_cases)
    case (perf rg e es q)
    then show ?thesis using put [OF perf(3)] by (auto split: option.splits)
  next
    case (api i k e ops q)
    have "reads e = None" using tame_api [OF t] st api(4) by (simp add: receiver_api_def)
    then show ?thesis using api put [OF api(3)] by simp
  next
    case (hsel rg h r v)
    have "todo (y_h y) = []"
    proof (cases "y_h y")
      case (HTurn es)
      then show ?thesis using hsel(5) by (cases es) auto
    qed simp_all
    moreover have "todo h = []" using hsel(6) by auto
    ultimately show ?thesis using hsel ch by auto
  next
    case (recv i k alts ops c f v r)
    then show ?thesis by (auto split: option.splits)
  qed (use ch in auto)
qed

lemma receives_step:
  assumes st: "sys_step M lab y = Some (ev, y')" and inv: "receives y l out net"
    and net: "\<And>p. lab = Reader (Some p) \<Longrightarrow> ok p \<and> (\<forall>m. datan p = Some m \<longrightarrow> m \<in> l_dnet l)"
    and calls: "\<And>i c. lab = Call i c \<Longrightarrow> calls c"
  shows "\<exists>l'. (l' = l \<or> link_step sstep rstep l l') \<and> l_snd l' = l_snd l \<and> l_hist l' = l_hist l \<and>
    l_dnet l' = l_dnet l \<and> l_anet l \<subseteq> l_anet l' \<and> receives y' l' (out @ taken got rch ev) (net \<union> sent_now ev)"
proof -
  have t: "tame y" and l: "l_rcv l = y_st y"
    "l_out l = out @ List.map_filter got (y_ch y rch) @ List.map_filter reads (todo (y_h y))"
    and an: "\<And>m n. m \<in> net \<or> m \<in> set (sent (todo (y_h y))) \<Longrightarrow> ackm m = Some n \<Longrightarrow> n \<in> l_anet l"
    and hd: "\<And>p. p \<in> held y \<Longrightarrow> ok p \<and> (\<forall>m. datan p = Some m \<longrightarrow> m \<in> l_dnet l)"
    using inv unfolding receives_def by blast+
  have hd': "ok p \<and> (\<forall>m. datan p = Some m \<longrightarrow> m \<in> l_dnet l)" if "p \<in> held y'" for p
    using tame_held [OF st t that] hd net by (auto simp: receiver_own_def)
  have an': "n \<in> l_anet l \<union> As"
    if "\<And>p es. ev = Turn p es \<Longrightarrow> {n. \<exists>m \<in> set (sent es). ackm m = Some n} \<subseteq> As"
      "m \<in> net \<union> sent_now ev \<or> m \<in> set (sent (todo (y_h y')))" "ackm m = Some n" for m n As
    using that tame_sent [OF st t, of m] an [of m n] by blast
  have out: "l_out l @ handed reads ev =
      (out @ taken got rch ev) @ List.map_filter got (y_ch y' rch) @ List.map_filter reads (todo (y_h y'))"
    using stream_step [OF st t] l(2) by simp
  have res: "receives y' l' (out @ taken got rch ev) (net \<union> sent_now ev)"
    if "l_rcv l' = y_st y'" "l_out l' = l_out l @ handed reads ev" "l_dnet l' = l_dnet l" "l_anet l' = l_anet l \<union> As"
      "\<And>p es. ev = Turn p es \<Longrightarrow> {n. \<exists>m \<in> set (sent es). ackm m = Some n} \<subseteq> As" for l' :: "('s, 'r) link" and As
    unfolding receives_def
    using that hd' an' [OF that(5)] tame_step [OF st t calls] out by simp
  show ?thesis
    using st
  proof (cases rule: state_step)
    case (turn rg p es)
    let ?A = "{n. \<exists>m \<in> set (sent es). ackm m = Some n}" and ?o = "List.map_filter reads es"
    have p: "ok p" "\<And>m. datan p = Some m \<Longrightarrow> m \<in> l_dnet l" using hd [OF turn(3)] by auto
    have s: "rstep (l_rcv l) (receiver_event (datan p)) (y_st y') ?A ?o" using rcv_turn [OF turn(2) p(1)] l(1) by simp
    let ?l = "l\<lparr>l_rcv := y_st y', l_anet := l_anet l \<union> ?A, l_out := l_out l @ ?o\<rparr>"
    have "link_step sstep rstep l ?l"
    proof (cases "datan p")
      case (Some m)
      then have s': "rstep (l_rcv l) (RData m) (y_st y') ?A ?o" using s by (simp add: receiver_event_def)
      show ?thesis by (rule link_data [where sstep = sstep and rstep = rstep and l = l, OF p(2) [OF Some] s'])
    next
      case None
      then have s': "rstep (l_rcv l) ROther (y_st y') ?A ?o" using s by (simp add: receiver_event_def)
      show ?thesis by (rule link_rcv [where sstep = sstep and rstep = rstep and l = l, OF s'])
    qed
    then show ?thesis using res [of ?l ?A] turn(1) by (intro exI [of _ ?l]) auto
  next
    case (upd i f ops)
    have s': "rstep (l_rcv l) ROther (y_st y') {} []"
      using tame_upd [OF t upd(2)] upd(3) l(1) by (simp add: receiver_upd_def)
    let ?l = "l\<lparr>l_rcv := y_st y', l_anet := l_anet l \<union> {}, l_out := l_out l @ []\<rparr>"
    have "link_step sstep rstep l ?l" by (rule link_rcv [where sstep = sstep and rstep = rstep and l = l, OF s'])
    then show ?thesis using res [of ?l "{}"] upd(1) by (intro exI [of _ ?l]) auto
  next
    case same
    then have "handed reads ev = []" by (cases ev) auto
    then show ?thesis using res [of l "{}"] same l(1) by (intro exI [of _ l]) auto
  qed
qed

end

end
