(* ===== verification/LspWorld.thy ===== *)
theory LspWorld
  imports LspEndpoints LspStreams "HOL-Library.Sublist"
begin

text \<open>
  A client and a server as systems of goroutines with a network between them. Both systems interpret
  both interfaces of \<open>LspEndpoints\<close>, so that the prefix property of the links holds for what the
  applications see: the payloads of the calls of \<open>Write\<close> and of \<open>Read\<close>, through bounded channels, with
  every interleaving of the goroutines.
\<close>

section \<open>The client\<close>

text \<open>What a packet means to the client: a write, an acknowledgement, a data message.\<close>

definition client_wr :: "Packet \<Rightarrow> bytes option" where
  "client_wr p = (case msg p of None \<Rightarrow> None | Some m \<Rightarrow> if contype p = cwrite then Some (Payload m) else None)"

definition client_ackn :: "Packet \<Rightarrow> int option" where
  "client_ackn p =
     (case msg p of None \<Rightarrow> None
      | Some m \<Rightarrow> if contype p = receive_kind \<and> Type m = MsgAck \<and> SeqNum m > 0 then Some (SeqNum m) else None)"

definition client_datan :: "Packet \<Rightarrow> Message option" where
  "client_datan p =
     (case msg p of None \<Rightarrow> None | Some m \<Rightarrow> if contype p = receive_kind \<and> Type m = MsgData then Some m else None)"

definition ack_number :: "Message \<Rightarrow> int option" where
  "ack_number m = (if Type m = MsgAck \<and> SeqNum m > 0 then Some (SeqNum m) else None)"

text \<open>What \<open>Read\<close> returns for a packet from \<open>replyread\<close>.\<close>

fun client_got :: "val \<Rightarrow> bytes option" where
  "client_got (VPkt p) = (if contype p = 1 then map_option Payload (msg p) else None)"
| "client_got (VInt _) = None"

text \<open>The handler posts only \<open>cread\<close> and \<open>cclose\<close>.\<close>

lemma client_Close_posts: "Req q \<in> set (snd (client_Close x c)) \<Longrightarrow> contype q = cclose"
  by (auto simp: client_Close_def Connect_close_def split: option.splits if_splits)

lemma client_handle_posts:
  assumes "client_handle oa od p c = Some (c', es)" and "Req q \<in> set es"
  shows "contype q = cread \<or> contype q = cclose"
proof -
  have "contype q = cclose" if "Req q \<in> set (snd (client_handleEpoch oa od c))"
    using that client_Close_posts [of q]
    by (auto simp: client_handleEpoch_def client_lost_def Let_def split_beta split: if_splits)
  moreover have "contype q = cread \<or> contype q = cclose" if "Req q \<in> set (snd (client_handleReceive m c))" for m
    using that
    by (auto simp: client_handleReceive_def client_ack_def client_data_def Let_def split_beta split: if_splits MsgType.splits)
  moreover have "False" if "Req q \<in> set (snd (client_handleRead c))"
    using that by (auto simp: client_handleRead_def split: option.splits)
  moreover have "False" if "Req q \<in> set (snd (client_handleWrite b c))" for b
    using that by (auto simp: client_handleWrite_def Let_def split_beta)
  moreover have "False" if "Req q \<in> set (snd (client_handleClose c))"
    using that by (auto simp: client_handleClose_def Let_def split: if_splits)
  ultimately show ?thesis
    using assms by (auto simp: client_handle_def client_handleEstab_def split: if_splits) (metis snd_conv)+
qed

lemma client_Close_rest: "e \<in> set (drop 2 (snd (client_Close x c))) \<Longrightarrow> (\<exists>k. e = CloseSock k) \<or> e \<in> {Quit, ExitEpo, Exit}"
  by (auto simp: client_Close_def Connect_close_def split: option.splits if_splits)

lemma client_Close_quiet: "sent (snd (client_Close x c)) = []" "client_reads (snd (client_Close x c)) = []"
  by (auto simp: client_Close_def Connect_close_def split: option.splits)

lemma client_Close_upd:
  "sender_upd client_sstep (\<lambda>c. fst (client_Close x c))" "receiver_upd client_rstep (\<lambda>c. fst (client_Close x c))"
proof -
  have st: "client_step (CClosed x) c = Some (fst (client_Close x c), snd (client_Close x c))" for c by simp
  show "sender_upd client_sstep (\<lambda>c. fst (client_Close x c))"
    unfolding sender_upd_def client_sstep_def
    using st client_Close_quiet by (metis (no_types) client_sev.simps(3) data_sent_def empty_Collect_eq list.set(1) empty_iff)
  show "receiver_upd client_rstep (\<lambda>c. fst (client_Close x c))"
    unfolding receiver_upd_def client_rstep_def
  proof (intro allI exI conjI)
    fix c
    show "client_step (CClosed x) c = Some (fst (client_Close x c), snd (client_Close x c))" by (rule st)
  qed (simp_all add: client_Close_quiet acks_sent_def)
qed

text \<open>The calls of the API.\<close>

lemma client_call_ok:
  assumes "op \<in> set (client_call c s)"
    and "\<And>q. contype q \<in> {connectid, cread, cwrite, cclose} \<Longrightarrow> A (Req q)"
    and "A Quit" "A ExitEpo" "A Exit" "\<And>k. A (CloseSock k)"
    and "\<And>x. U (\<lambda>c. fst (client_Close x c))"
  shows "op_ok A (\<lambda>c. c \<noteq> ReqC) U op"
proof -
  have rest: "op_ok A (\<lambda>c. c \<noteq> ReqC) U o1" if "o1 \<in> set (close_rest v d)" for o1 v d
    using that assms(3-7) client_Close_rest by (fastforce simp: close_rest_def split: val.splits)
  show ?thesis
    using assms(1,2) rest
    by (cases c) (auto simp: client_ConnID_start_def client_Read_start_def client_Write_def split: if_splits)
qed

interpretation csend: sending_goroutines client_machine client_sstep "\<lambda>_. True" "\<lambda>_. True" client_ackn
    "\<lambda>p es. client_wr p" "\<lambda>m. Type m = MsgData"
proof
  show "sender_own (\<lambda>_. True) client_ackn q"
    if "m_handle client_machine rg p s = Some (s', es)" "Req q \<in> set es" for rg p s s' es q
    using that client_handle_posts [of "fst rg" "snd rg" p s s' es q]
    by (auto simp: sender_own_def client_ackn_def split_beta split: option.splits)
  show "sender_own (\<lambda>_. True) client_ackn (Pkt None None timer)" by (simp add: sender_own_def client_ackn_def)
  show "op_ok (sender_api (\<lambda>_. True) client_ackn) (\<lambda>c. c \<noteq> ReqC) (sender_upd client_sstep) op"
    if "op \<in> set (m_call client_machine c s)" for c op s
    by (rule client_call_ok [of op c s])
      (use that client_Close_upd(1) in \<open>auto simp: sender_api_def sender_own_def client_ackn_def split: option.splits\<close>)
  show "sender_own (\<lambda>_. True) client_ackn q" if "sender_api (\<lambda>_. True) client_ackn (Req q)" for q
    using that by (simp add: sender_api_def)
  show "sent_message e = None" if "sender_api (\<lambda>_. True) client_ackn e" for e
    using that by (simp add: sender_api_def)
  show "client_sstep s (sender_event (client_wr p) (client_ackn p)) s' {m \<in> set (sent es). Type m = MsgData}"
    if "m_handle client_machine rg p s = Some (s', es)" for rg p s s' es
  proof -
    have "client_step (CPacket (fst rg) (snd rg) p) s = Some (s', es)" using that by (simp add: split_beta)
    moreover have "client_sev (CPacket (fst rg) (snd rg) p) = sender_event (client_wr p) (client_ackn p)"
      by (auto simp: sender_event_def client_wr_def client_ackn_def split: option.splits)
    ultimately show ?thesis unfolding client_sstep_def data_sent_def by blast
  qed
qed

interpretation crecv: receiving_goroutines client_machine client_rstep "\<lambda>_. True" "\<lambda>_. True" client_datan
    read_payload ack_number client_got ReplyreadC
proof
  show "receiver_own (\<lambda>_. True) client_datan q"
    if "m_handle client_machine rg p s = Some (s', es)" "Req q \<in> set es" for rg p s s' es q
    using that client_handle_posts [of "fst rg" "snd rg" p s s' es q]
    by (auto simp: receiver_own_def client_datan_def split_beta split: option.splits)
  show "receiver_own (\<lambda>_. True) client_datan (Pkt None None timer)" by (simp add: receiver_own_def client_datan_def)
  show "op_ok (receiver_api (\<lambda>_. True) client_datan read_payload) (\<lambda>c. c \<noteq> ReqC) (receiver_upd client_rstep) op"
    if "op \<in> set (m_call client_machine c s)" for c op s
    by (rule client_call_ok [of op c s])
      (use that client_Close_upd(2) in \<open>auto simp: receiver_api_def receiver_own_def client_datan_def split: option.splits\<close>)
  show "receiver_own (\<lambda>_. True) client_datan q" if "receiver_api (\<lambda>_. True) client_datan read_payload (Req q)" for q
    using that by (simp add: receiver_api_def)
  show "sent_message e = None" if "receiver_api (\<lambda>_. True) client_datan read_payload e" for e
    using that by (simp add: receiver_api_def)
  show "client_rstep s (receiver_event (client_datan p)) s' {n. \<exists>m \<in> set (sent es). ack_number m = Some n}
      (List.map_filter read_payload es)"
    if "m_handle client_machine rg p s = Some (s', es)" for rg p s s' es
  proof -
    have "client_step (CPacket (fst rg) (snd rg) p) s = Some (s', es)" using that by (simp add: split_beta)
    moreover have "client_rev (CPacket (fst rg) (snd rg) p) = receiver_event (client_datan p)"
      by (auto simp: receiver_event_def client_datan_def split: option.splits)
    moreover have "{n. \<exists>m \<in> set (sent es). ack_number m = Some n} = acks_sent es"
      by (auto simp: acks_sent_def ack_number_def)
    ultimately show ?thesis unfolding client_rstep_def client_reads_def by blast
  qed
  show "read_payload e = (case effect_send e of None \<Rightarrow> None | Some (c, v) \<Rightarrow> if c = ReplyreadC then client_got v else None)" for e
    by (cases e) auto
  show "ReplyreadC = ReplyC \<or> ReplyreadC = ReplyreadC" by simp
qed

section \<open>The server\<close>

text \<open>The same for the server and its connection \<open>cid\<close>. A write counts when the handler has accepted it.\<close>

definition server_ok :: "int \<Rightarrow> Packet \<Rightarrow> bool" where
  "server_ok cid p \<longleftrightarrow> \<not> (contype p = closeconn \<and> (case msg p of None \<Rightarrow> False | Some m \<Rightarrow> ConnID m = cid))"

definition server_wr :: "int \<Rightarrow> Packet \<Rightarrow> effect list \<Rightarrow> bytes option" where
  "server_wr cid p es =
     (case msg p of None \<Rightarrow> None
      | Some m \<Rightarrow>
          if ConnID m = cid \<and> contype p = swrite \<and> Writeans (Pkt None None 1) \<in> set es then Some (Payload m) else None)"

definition server_ackn :: "int \<Rightarrow> Packet \<Rightarrow> int option" where
  "server_ackn cid p =
     (case msg p of None \<Rightarrow> None
      | Some m \<Rightarrow>
          if ConnID m = cid \<and> contype p = receive_kind \<and> Type m = MsgAck \<and> SeqNum m > 0 then Some (SeqNum m) else None)"

definition server_datan :: "int \<Rightarrow> Packet \<Rightarrow> Message option" where
  "server_datan cid p =
     (case msg p of None \<Rightarrow> None
      | Some m \<Rightarrow> if contype p = receive_kind \<and> Type m = MsgData \<and> ConnID m = cid then Some m else None)"

definition conn_ack_number :: "int \<Rightarrow> Message \<Rightarrow> int option" where
  "conn_ack_number cid m = (if ConnID m = cid then ack_number m else None)"

fun server_got :: "int \<Rightarrow> val \<Rightarrow> bytes option" where
  "server_got cid (VPkt p) =
     (case msg p of None \<Rightarrow> None | Some m \<Rightarrow> if contype p = 1 \<and> ConnID m = cid then Some (Payload m) else None)"
| "server_got cid (VInt _) = None"

text \<open>The handler posts only \<open>sread\<close> and \<open>sclose\<close>.\<close>

definition own_kind :: "effect \<Rightarrow> bool" where
  "own_kind e \<longleftrightarrow> (\<forall>q. e = Req q \<longrightarrow> contype q = sread \<or> contype q = sclose)"

abbreviation posts_own :: "(server, effect) outcome \<Rightarrow> bool" where
  "posts_own \<equiv> whenever (\<lambda>_. True) own_kind"

lemma own_kind_simps [simp]:
  "own_kind (Req q) \<longleftrightarrow> contype q = sread \<or> contype q = sclose" "own_kind (Ssend m a)" "own_kind (Reply q)"
  "own_kind (Writeans q)" "own_kind (Closeans q)" "own_kind (Over q)"
  by (simp_all add: own_kind_def)

lemma own_kind_ssend [simp]: "e \<in> set (ssend m a) \<Longrightarrow> own_kind e" "e \<in> set (ssend_all ms a) \<Longrightarrow> own_kind e"
  by (auto simp: set_ssend set_ssend_all)

lemma whenever_Cons [simp]:
  "whenever P Q (map_option (\<lambda>(s2, e2). (s2, x # e2)) r) \<longleftrightarrow> (r \<noteq> None \<longrightarrow> Q x) \<and> whenever P Q r"
  by (cases r) auto

lemma posts_own_closecon: "posts_own (server_handleclosecon rg pak s)"
  by (auto simp: server_handleclosecon_def Let_def whenever_def split: option.splits)

lemma posts_own_epoch: "posts_own (server_handleEpoch rg s)"
proof -
  have ban: "posts_own (epoch_ban rg k s)" for k s
    by (auto simp: epoch_ban_def Let_def whenever_def split: option.splits)
  have lost: "posts_own (epoch_lost rg i v s)" for i v s
    using posts_own_closecon by (auto simp: epoch_lost_def Let_def intro!: whenever_andthen)
  have pend: "posts_own (epoch_lost_pending i v s)" for i v s
    by (auto simp: epoch_lost_pending_def whenever_def split: option.splits)
  have alive: "posts_own (epoch_alive rg i v s)" for i v s
    by (auto simp: epoch_alive_def whenever_def split: option.splits)
  have conn: "posts_own (epoch_conn rg i s)" for i s
    using lost pend alive by (auto simp: epoch_conn_def Let_def split: option.splits)
  show ?thesis
    unfolding server_handleEpoch_def
    by (intro whenever_andthen whenever_run_loop) (simp_all add: ban conn)
qed

lemma posts_own_receive: "posts_own (server_handleReceive pak s)"
proof -
  have conn: "posts_own (recv_connect a s)" for a s
    by (auto simp: recv_connect_def Let_def whenever_def split: option.splits)
  have data: "posts_own (recv_data m s)" for m s
    by (auto simp: recv_data_def Let_def whenever_def split_beta split: option.splits)
  have win: "posts_own (recv_ack_window m b s)" for m b s
    by (auto simp: recv_ack_window_def whenever_def split_beta split: option.splits)
  have ban: "posts_own (recv_ack_ban m n s)" for m n s
    by (auto simp: recv_ack_ban_def Let_def)
  have ack: "posts_own (recv_ack m s)" for m s
    using win ban by (auto simp: recv_ack_def Let_def split: option.splits)
  show ?thesis
    using conn data ack
    by (auto simp: server_handleReceive_def Let_def split: option.splits bool.splits MsgType.splits)
qed

lemma server_handle_posts:
  assumes "server_handle rg p s = Some (s', es)" and "Req q \<in> set es"
  shows "contype q = sread \<or> contype q = sclose"
proof -
  have wr: "posts_own (handle_swrite m s)" for m
    by (auto simp: handle_swrite_def server_handleWrite_def Let_def whenever_def split_beta split: option.splits)
  have rd: "posts_own (handle_sread rg s)"
    by (auto simp: handle_sread_def Let_def split: option.splits)
  have cc: "posts_own (handle_closeconn rg m s)" for m
    using posts_own_closecon
    by (auto simp: handle_closeconn_def Let_def intro!: whenever_andthen split: option.splits)
  have mark: "posts_own (close_mark i s)" for i s
    by (auto simp: close_mark_def whenever_def split: option.splits)
  have cl: "posts_own (handle_sclose rg s)"
    unfolding handle_sclose_def
    by (intro whenever_andthen whenever_run_loop) (auto simp: mark split: option.splits)
  have "posts_own (server_handle rg p s)"
    using wr rd cc cl posts_own_epoch posts_own_receive
    by (auto simp: server_handle_def split: option.splits)
  then show ?thesis using assms by (auto simp: own_kind_def)
qed

lemma server_Close_finish_rest:
  "e \<in> set (snd (server_Close_finish x s)) \<Longrightarrow> (\<exists>k. e = CloseSock k) \<or> e \<in> {Quit, ExitEpo, Exit}"
  by (auto simp: server_Close_finish_def Connect_close_def split: option.splits if_splits)

lemma server_upds:
  "sender_upd (server_sstep cid) (\<lambda>s. fst (server_Close_start s))" "receiver_upd (server_rstep cid) (\<lambda>s. fst (server_Close_start s))"
  "sender_upd (server_sstep cid) (\<lambda>s. fst (server_Close_finish x s))" "receiver_upd (server_rstep cid) (\<lambda>s. fst (server_Close_finish x s))"
proof -
  have st: "server_step SCloseStart s = Some (fst (server_Close_start s), snd (server_Close_start s))" for s by simp
  have fi: "server_step (SCloseFinish x) s = Some (fst (server_Close_finish x s), snd (server_Close_finish x s))" for s by simp
  have q: "sent (snd (server_Close_start s)) = []" "server_reads cid (snd (server_Close_start s)) = []"
    "sent (snd (server_Close_finish x s)) = []" "server_reads cid (snd (server_Close_finish x s)) = []" for s
    by (auto simp: server_Close_start_def server_Close_finish_def Connect_close_def split: option.splits)
  show "sender_upd (server_sstep cid) (\<lambda>s. fst (server_Close_start s))"
    unfolding sender_upd_def server_sstep_def
    by (intro allI exI conjI, rule st) (simp_all add: q data_sent_to_def)
  show "receiver_upd (server_rstep cid) (\<lambda>s. fst (server_Close_start s))"
    unfolding receiver_upd_def server_rstep_def
    by (intro allI exI conjI, rule st) (simp_all add: q acks_sent_to_def)
  show "sender_upd (server_sstep cid) (\<lambda>s. fst (server_Close_finish x s))"
    unfolding sender_upd_def server_sstep_def
    by (intro allI exI conjI, rule fi) (simp_all add: q data_sent_to_def)
  show "receiver_upd (server_rstep cid) (\<lambda>s. fst (server_Close_finish x s))"
    unfolding receiver_upd_def server_rstep_def
    by (intro allI exI conjI, rule fi) (simp_all add: q acks_sent_to_def)
qed

text \<open>The calls of the API, but for \<open>CloseConn\<close> on the connection itself.\<close>

lemma server_call_ok:
  assumes "op \<in> set (server_call c s)" and "c \<noteq> CallCloseConn cid"
    and "\<And>q. contype q \<in> {sread, swrite, sclose, closeconn} \<Longrightarrow> server_ok cid q \<Longrightarrow> A (Req q)"
    and "A Quit" "A ExitEpo" "A Exit" "\<And>k. A (CloseSock k)"
    and "U (\<lambda>s. fst (server_Close_start s))" "\<And>x. U (\<lambda>s. fst (server_Close_finish x s))"
  shows "op_ok A (\<lambda>c. c \<noteq> ReqC) U op"
proof -
  have rest: "op_ok A (\<lambda>c. c \<noteq> ReqC) U o1" if "o1 \<in> set (sclose_rest v d)" for o1 v d
    using that assms(4-7,9) server_Close_finish_rest by (fastforce simp: sclose_rest_def split: val.splits)
  show ?thesis
    using assms(1-3,8) rest
    by (cases c) (auto simp: server_Read_start_def server_Write_start_def server_CloseConn_start_def server_ok_def
        server_Close_start_def split: if_splits)
qed

interpretation ssend: sending_goroutines server_machine "server_sstep cid" "server_ok cid"
    "\<lambda>c. c \<noteq> CallCloseConn cid" "server_ackn cid" "server_wr cid" "\<lambda>m. Type m = MsgData \<and> ConnID m = cid" for cid
proof
  show "sender_own (server_ok cid) (server_ackn cid) q"
    if "m_handle server_machine rg p s = Some (s', es)" "Req q \<in> set es" for rg p s s' es q
    using that server_handle_posts [of rg p s s' es q]
    by (auto simp: sender_own_def server_ackn_def server_ok_def split: option.splits)
  show "sender_own (server_ok cid) (server_ackn cid) (Pkt None None timer)"
    by (simp add: sender_own_def server_ackn_def server_ok_def)
  show "op_ok (sender_api (server_ok cid) (server_ackn cid)) (\<lambda>c. c \<noteq> ReqC) (sender_upd (server_sstep cid)) op"
    if "c \<noteq> CallCloseConn cid" "op \<in> set (m_call server_machine c s)" for c op s
    by (rule server_call_ok [of op c s cid])
      (use that server_upds in \<open>auto simp: sender_api_def sender_own_def server_ackn_def split: option.splits\<close>)
  show "sender_own (server_ok cid) (server_ackn cid) q" if "sender_api (server_ok cid) (server_ackn cid) (Req q)" for q
    using that by (simp add: sender_api_def)
  show "sent_message e = None" if "sender_api (server_ok cid) (server_ackn cid) e" for e
    using that by (simp add: sender_api_def)
  show "server_sstep cid s (sender_event (server_wr cid p es) (server_ackn cid p)) s'
      {m \<in> set (sent es). Type m = MsgData \<and> ConnID m = cid}"
    if "m_handle server_machine rg p s = Some (s', es)" "server_ok cid p" for rg p s s' es
  proof -
    have "server_step (SPacket rg p) s = Some (s', es)" using that by simp
    moreover have "\<not> closes_conn cid (SPacket rg p)" using that(2) by (simp add: server_ok_def)
    moreover have "server_sev cid (SPacket rg p) es = sender_event (server_wr cid p es) (server_ackn cid p)"
      by (auto simp: sender_event_def server_wr_def server_ackn_def split: option.splits)
    ultimately show ?thesis unfolding server_sstep_def data_sent_to_def by blast
  qed
qed

interpretation srecv: receiving_goroutines server_machine "server_rstep cid" "server_ok cid"
    "\<lambda>c. c \<noteq> CallCloseConn cid" "server_datan cid" "reply_payload cid" "conn_ack_number cid" "server_got cid" ReplyC for cid
proof
  show "receiver_own (server_ok cid) (server_datan cid) q"
    if "m_handle server_machine rg p s = Some (s', es)" "Req q \<in> set es" for rg p s s' es q
    using that server_handle_posts [of rg p s s' es q]
    by (auto simp: receiver_own_def server_datan_def server_ok_def split: option.splits)
  show "receiver_own (server_ok cid) (server_datan cid) (Pkt None None timer)"
    by (simp add: receiver_own_def server_datan_def server_ok_def)
  show "op_ok (receiver_api (server_ok cid) (server_datan cid) (reply_payload cid)) (\<lambda>c. c \<noteq> ReqC) (receiver_upd (server_rstep cid)) op"
    if "c \<noteq> CallCloseConn cid" "op \<in> set (m_call server_machine c s)" for c op s
    by (rule server_call_ok [of op c s cid])
      (use that server_upds in \<open>auto simp: receiver_api_def receiver_own_def server_datan_def split: option.splits\<close>)
  show "receiver_own (server_ok cid) (server_datan cid) q"
    if "receiver_api (server_ok cid) (server_datan cid) (reply_payload cid) (Req q)" for q
    using that by (simp add: receiver_api_def)
  show "sent_message e = None" if "receiver_api (server_ok cid) (server_datan cid) (reply_payload cid) e" for e
    using that by (simp add: receiver_api_def)
  show "server_rstep cid s (receiver_event (server_datan cid p)) s'
      {n. \<exists>m \<in> set (sent es). conn_ack_number cid m = Some n} (List.map_filter (reply_payload cid) es)"
    if "m_handle server_machine rg p s = Some (s', es)" "server_ok cid p" for rg p s s' es
  proof -
    have "server_step (SPacket rg p) s = Some (s', es)" using that by simp
    moreover have "\<not> closes_conn cid (SPacket rg p)" using that(2) by (simp add: server_ok_def)
    moreover have "server_rev cid (SPacket rg p) = receiver_event (server_datan cid p)"
      by (auto simp: receiver_event_def server_datan_def split: option.splits)
    moreover have "{n. \<exists>m \<in> set (sent es). conn_ack_number cid m = Some n} = acks_sent_to cid es"
      by (auto simp: acks_sent_to_def conn_ack_number_def ack_number_def)
    ultimately show ?thesis unfolding server_rstep_def server_reads_def by blast
  qed
  show "reply_payload cid e = (case effect_send e of None \<Rightarrow> None | Some (c, v) \<Rightarrow> if c = ReplyC then server_got cid v else None)" for e
    by (cases e) auto
  show "ReplyC = ReplyC \<or> ReplyC = ReplyreadC" by simp
qed

section \<open>Both together\<close>

text \<open>
  The two systems; the datagrams that the client has sent, and those that the server has sent for the
  connection; the payloads that calls of the client's \<open>Write\<close> have posted and those its handler has
  taken; the payloads the server's handler has accepted; and what the calls of \<open>Read\<close> have returned at
  the server, for this connection, and at the client.
\<close>

record world =
  w_c :: "client sys"
  w_s :: "server sys"
  w_up :: "Message set"
  w_dn :: "Message set"
  w_cput :: "bytes list"
  w_cacc :: "bytes list"
  w_sacc :: "bytes list"
  w_sgot :: "bytes list"
  w_cgot :: "bytes list"

definition world_start :: "client \<Rightarrow> server \<Rightarrow> world" where
  "world_start c s =
     \<lparr>w_c = sys_start c (\<lambda>_. []), w_s = sys_start s (\<lambda>_. []), w_up = {}, w_dn = {}, w_cput = [], w_cacc = [],
      w_sacc = [], w_sgot = [], w_cgot = []\<rparr>"

fun client_put :: "event \<Rightarrow> bytes list" where
  "client_put (Api (Req p)) = (case client_wr p of None \<Rightarrow> [] | Some b \<Rightarrow> [b])"
| "client_put _ = []"

text \<open>
  What a reader can find on its socket: any datagram of this connection that the other side has sent, any
  number of times; at the server also whatever belongs to other connections, at the client also what is
  neither data nor an acknowledgement of data.
\<close>

definition from_client :: "int \<Rightarrow> world \<Rightarrow> Packet \<Rightarrow> bool" where
  "from_client cid w p \<longleftrightarrow> (\<exists>m a. p = Pkt (Some m) (Some a) receive_kind \<and> (m \<in> w_up w \<or> ConnID m \<noteq> cid))"

definition from_server :: "world \<Rightarrow> Packet \<Rightarrow> bool" where
  "from_server w p \<longleftrightarrow>
     (\<exists>m a. p = Pkt (Some m) (Some a) receive_kind \<and> (m \<in> w_dn w \<or> client_datan p = None \<and> client_ackn p = None))"

inductive world_step :: "int \<Rightarrow> world \<Rightarrow> world \<Rightarrow> bool" for cid where
  world_client: "sys_step client_machine lab (w_c w) = Some (ev, y) \<Longrightarrow>
    (\<And>p. lab = Reader (Some p) \<Longrightarrow> from_server w p) \<Longrightarrow>
    world_step cid w (w\<lparr>w_c := y, w_up := w_up w \<union> sent_now ev, w_cput := w_cput w @ client_put ev,
      w_cacc := w_cacc w @ accepted (\<lambda>p es. client_wr p) ev, w_cgot := w_cgot w @ taken client_got ReplyreadC ev\<rparr>)"
| world_server: "sys_step server_machine lab (w_s w) = Some (ev, y) \<Longrightarrow>
    (\<And>p. lab = Reader (Some p) \<Longrightarrow> from_client cid w p) \<Longrightarrow> (\<And>i. lab \<noteq> Call i (CallCloseConn cid)) \<Longrightarrow>
    world_step cid w (w\<lparr>w_s := y, w_dn := w_dn w \<union> {m \<in> sent_now ev. ConnID m = cid},
      w_sacc := w_sacc w @ accepted (server_wr cid) ev, w_sgot := w_sgot w @ taken (server_got cid) ReplyC ev\<rparr>)"

inductive world_reach :: "int \<Rightarrow> client \<Rightarrow> server \<Rightarrow> world \<Rightarrow> bool" for cid c0 s0 where
  wreach_start: "world_reach cid c0 s0 (world_start c0 s0)"
| wreach_step: "world_reach cid c0 s0 w \<Longrightarrow> world_step cid w w' \<Longrightarrow> world_reach cid c0 s0 w'"

text \<open>A schedule of both systems: \<open>None\<close> when one that is to move cannot, or takes a datagram that nobody sent.\<close>

datatype mover = ClientMoves "(int list \<times> int list, client_api) label" | ServerMoves "(orders, server_api) label"

fun received_ok :: "(Packet \<Rightarrow> bool) \<Rightarrow> ('o, 'c) label \<Rightarrow> bool" where
  "received_ok f (Reader (Some p)) \<longleftrightarrow> f p"
| "received_ok f _ \<longleftrightarrow> True"

fun closes_call :: "int \<Rightarrow> ('o, server_api) label \<Rightarrow> bool" where
  "closes_call cid (Call i (CallCloseConn j)) \<longleftrightarrow> j = cid"
| "closes_call cid _ \<longleftrightarrow> False"

fun world_move :: "int \<Rightarrow> mover \<Rightarrow> world \<Rightarrow> world option" where
  "world_move cid (ClientMoves lab) w =
     (if received_ok (from_server w) lab
      then map_option (\<lambda>(ev, y). w\<lparr>w_c := y, w_up := w_up w \<union> sent_now ev, w_cput := w_cput w @ client_put ev,
          w_cacc := w_cacc w @ accepted (\<lambda>p es. client_wr p) ev, w_cgot := w_cgot w @ taken client_got ReplyreadC ev\<rparr>)
        (sys_step client_machine lab (w_c w))
      else None)"
| "world_move cid (ServerMoves lab) w =
     (if received_ok (from_client cid w) lab \<and> \<not> closes_call cid lab
      then map_option (\<lambda>(ev, y). w\<lparr>w_s := y, w_dn := w_dn w \<union> {m \<in> sent_now ev. ConnID m = cid},
          w_sacc := w_sacc w @ accepted (server_wr cid) ev, w_sgot := w_sgot w @ taken (server_got cid) ReplyC ev\<rparr>)
        (sys_step server_machine lab (w_s w))
      else None)"

fun world_run :: "int \<Rightarrow> mover list \<Rightarrow> world \<Rightarrow> world option" where
  "world_run cid [] w = Some w"
| "world_run cid (l # ls) w = (case world_move cid l w of None \<Rightarrow> None | Some w' \<Rightarrow> world_run cid ls w')"

lemma world_move_step: "world_move cid l w = Some w' \<Longrightarrow> world_step cid w w'"
  by (cases "(cid, l, w)" rule: world_move.cases)
    (auto split: if_splits intro!: world_client world_server)

lemma world_run_reach: "world_run cid ls w = Some w' \<Longrightarrow> world_reach cid c0 s0 w \<Longrightarrow> world_reach cid c0 s0 w'"
proof (induction ls arbitrary: w)
  case (Cons l ls)
  then obtain w1 where w1: "world_move cid l w = Some w1" "world_run cid ls w1 = Some w'"
    by (auto split: option.splits)
  show ?case by (rule Cons.IH [OF w1(2) wreach_step [OF Cons.prems(2) world_move_step [OF w1(1)]]])
qed simp

lemma world_run_append:
  "world_run cid (ls @ ks) w = (case world_run cid ls w of None \<Rightarrow> None | Some w' \<Rightarrow> world_run cid ks w')"
  by (induction ls arbitrary: w) (auto split: option.splits)

section \<open>Writes wait in order\<close>

text \<open>What the calls of \<open>Write\<close> have posted is what the handler has taken and what still waits in \<open>req\<close>.\<close>

fun val_wr :: "val \<Rightarrow> bytes option" where
  "val_wr (VPkt p) = client_wr p"
| "val_wr (VInt _) = None"

definition no_writes :: "client sys \<Rightarrow> bool" where
  "no_writes y \<longleftrightarrow> (\<forall>p. y_r y = RPost p \<longrightarrow> client_wr p = None) \<and> (\<forall>q. Req q \<in> set (todo (y_h y)) \<longrightarrow> client_wr q = None)"

lemma client_turn_writes:
  assumes "client_handle oa od p s = Some (s', es)" and "Req q \<in> set es"
  shows "client_wr q = None"
  using client_handle_posts [OF assms] by (auto simp: client_wr_def split: option.splits)

lemma put_step:
  assumes st: "sys_step client_machine lab y = Some (ev, y')" and inv: "no_writes y" and t: "csend.tame y"
    and net: "\<And>p. lab = Reader (Some p) \<Longrightarrow> client_wr p = None"
  shows "List.map_filter val_wr (y_ch y ReqC) @ client_put ev =
      accepted (\<lambda>p es. client_wr p) ev @ List.map_filter val_wr (y_ch y' ReqC)" (is ?A)
    and "no_writes y'"
proof -
  have timer: "client_wr (Pkt None None timer) = None" by (simp add: client_wr_def)
  have "?A \<and> no_writes y'"
    using st
  proof (cases rule: sys_step_cases)
    case (turn rg p r s es)
    have "client_handle (fst rg) (snd rg) p (y_st y) = Some (s, es)" using turn(4) by (simp add: split_beta)
    then show ?thesis
      using inv client_turn_writes turn by (auto simp: no_writes_def split: option.splits)
  next
    case (perf rg e es q)
    then show ?thesis using inv perform_ReqC [OF perf(3)] by (cases e) (auto simp: no_writes_def)
  next
    case (hsel rg h r v)
    then show ?thesis using inv by (auto simp: no_writes_def)
  next
    case (rread d r)
    then show ?thesis using inv net by (auto simp: no_writes_def)
  next
    case (rpost d p)
    then show ?thesis using inv by (auto simp: no_writes_def)
  next
    case (api i k e ops q)
    then show ?thesis using inv perform_ReqC [OF api(3)] by (cases e) (auto simp: no_writes_def split: option.splits)
  next
    case (recv i k alts ops c f v r)
    have "op_ok (sender_api (\<lambda>_. True) client_ackn) (\<lambda>c. c \<noteq> ReqC) (sender_upd client_sstep) (Select alts)"
      using t recv(2) ops_ok_head unfolding csend.tame_def by blast
    moreover have "(c, f) \<in> set alts" using recv(3,4) by (metis nth_mem)
    ultimately have "c \<noteq> ReqC" by auto
    then show ?thesis using inv recv by (auto simp: no_writes_def)
  qed (use inv timer in \<open>auto simp: no_writes_def\<close>)
  then show ?A and "no_writes y'" by blast+
qed

section \<open>The invariant\<close>

definition world_inv :: "int \<Rightarrow> client \<Rightarrow> server \<Rightarrow> world \<Rightarrow> bool" where
  "world_inv cid c0 s0 w \<longleftrightarrow>
     (\<exists>lu ld. up_reach cid c0 s0 lu \<and> down_reach cid s0 c0 ld \<and>
        csend.sends (w_c w) lu (w_cacc w) (w_up w) \<and> srecv.receives cid (w_s w) lu (w_sgot w) (w_dn w) \<and>
        ssend.sends cid (w_s w) ld (w_sacc w) (w_dn w) \<and> crecv.receives (w_c w) ld (w_cgot w) (w_up w)) \<and>
     (\<forall>m \<in> w_dn w. ConnID m = cid) \<and> no_writes (w_c w) \<and>
     w_cput w = w_cacc w @ List.map_filter val_wr (y_ch (w_c w) ReqC)"

lemma world_inv_start: "world_inv cid c0 s0 (world_start c0 s0)"
  unfolding world_inv_def
proof (intro conjI exI [of _ "link_start c0 s0"] exI [of _ "link_start s0 c0"])
  show "up_reach cid c0 s0 (link_start c0 s0)" by (rule reach_start)
  show "down_reach cid s0 c0 (link_start s0 c0)" by (rule reach_start)
qed (simp_all add: world_start_def sys_start_def link_start_def csend.sends_def srecv.receives_def ssend.sends_def
    crecv.receives_def csend.tame_def srecv.tame_def ssend.tame_def crecv.tame_def held_def ops_ok_def no_writes_def)

lemma world_inv_client:
  assumes inv: "world_inv cid c0 s0 w" and st: "sys_step client_machine lab (w_c w) = Some (ev, y)"
    and net: "\<And>p. lab = Reader (Some p) \<Longrightarrow> from_server w p"
  shows "world_inv cid c0 s0 (w\<lparr>w_c := y, w_up := w_up w \<union> sent_now ev, w_cput := w_cput w @ client_put ev,
      w_cacc := w_cacc w @ accepted (\<lambda>p es. client_wr p) ev, w_cgot := w_cgot w @ taken client_got ReplyreadC ev\<rparr>)"
proof -
  obtain lu ld where l: "up_reach cid c0 s0 lu" "down_reach cid s0 c0 ld"
      "csend.sends (w_c w) lu (w_cacc w) (w_up w)" "srecv.receives cid (w_s w) lu (w_sgot w) (w_dn w)"
      "ssend.sends cid (w_s w) ld (w_sacc w) (w_dn w)" "crecv.receives (w_c w) ld (w_cgot w) (w_up w)"
    and dn: "\<And>m. m \<in> w_dn w \<Longrightarrow> ConnID m = cid" and nw: "no_writes (w_c w)"
    and put: "w_cput w = w_cacc w @ List.map_filter val_wr (y_ch (w_c w) ReqC)"
    using inv unfolding world_inv_def by blast
  have n: "n \<in> l_anet lu" if "lab = Reader (Some p)" "client_ackn p = Some n" for p n
    using net [OF that(1)] that(2) dn l(4)
    by (auto simp: from_server_def client_ackn_def srecv.receives_def conn_ack_number_def ack_number_def split: if_splits)
  have m: "m \<in> l_dnet ld" if "lab = Reader (Some p)" "client_datan p = Some m" for p m
    using net [OF that(1)] that(2) dn l(5)
    by (auto simp: from_server_def client_datan_def ssend.sends_def split: if_splits)
  have wr: "client_wr p = None" if "lab = Reader (Some p)" for p
    using net [OF that] by (auto simp: from_server_def client_wr_def)
  obtain lu' where lu': "lu' = lu \<or> link_step client_sstep (server_rstep cid) lu lu'" "l_rcv lu' = l_rcv lu"
      "l_anet lu' = l_anet lu" "l_out lu' = l_out lu" "l_dnet lu \<subseteq> l_dnet lu'"
      "csend.sends y lu' (w_cacc w @ accepted (\<lambda>p es. client_wr p) ev) (w_up w \<union> sent_now ev)"
    using csend.sends_step [OF st l(3), of "server_rstep cid"] n by blast
  obtain ld' where ld': "ld' = ld \<or> link_step (server_sstep cid) client_rstep ld ld'" "l_snd ld' = l_snd ld"
      "l_hist ld' = l_hist ld" "l_dnet ld' = l_dnet ld" "l_anet ld \<subseteq> l_anet ld'"
      "crecv.receives y ld' (w_cgot w @ taken client_got ReplyreadC ev) (w_up w \<union> sent_now ev)"
    using crecv.receives_step [OF st l(6), of "server_sstep cid"] m by blast
  have r: "up_reach cid c0 s0 lu'" "down_reach cid s0 c0 ld'"
    using lu'(1) l(1) ld'(1) l(2) link_reach.reach_step by metis+
  have t: "csend.tame (w_c w)" using l(3) by (simp add: csend.sends_def)
  note P = put_step [OF st nw t wr]
  show ?thesis
    unfolding world_inv_def
    using r lu'(6) ld'(6) srecv.receives_mono [OF l(4) lu'(2,4,5), of "w_dn w"] lu'(3)
      ssend.sends_mono [OF l(5) ld'(2,3), of "w_dn w"] ld'(4,5) dn P put
    by (intro conjI exI [of _ lu'] exI [of _ ld']) auto
qed

lemma world_inv_server:
  assumes inv: "world_inv cid c0 s0 w" and st: "sys_step server_machine lab (w_s w) = Some (ev, y)"
    and net: "\<And>p. lab = Reader (Some p) \<Longrightarrow> from_client cid w p" and calls: "\<And>i. lab \<noteq> Call i (CallCloseConn cid)"
  shows "world_inv cid c0 s0 (w\<lparr>w_s := y, w_dn := w_dn w \<union> {m \<in> sent_now ev. ConnID m = cid},
      w_sacc := w_sacc w @ accepted (server_wr cid) ev, w_sgot := w_sgot w @ taken (server_got cid) ReplyC ev\<rparr>)"
proof -
  obtain lu ld where l: "up_reach cid c0 s0 lu" "down_reach cid s0 c0 ld"
      "csend.sends (w_c w) lu (w_cacc w) (w_up w)" "srecv.receives cid (w_s w) lu (w_sgot w) (w_dn w)"
      "ssend.sends cid (w_s w) ld (w_sacc w) (w_dn w)" "crecv.receives (w_c w) ld (w_cgot w) (w_up w)"
    and dn: "\<And>m. m \<in> w_dn w \<Longrightarrow> ConnID m = cid" and nw: "no_writes (w_c w)"
    and put: "w_cput w = w_cacc w @ List.map_filter val_wr (y_ch (w_c w) ReqC)"
    using inv unfolding world_inv_def by blast
  let ?dn = "w_dn w \<union> {m \<in> sent_now ev. ConnID m = cid}"
  have n: "server_ok cid p \<and> (\<forall>n. server_ackn cid p = Some n \<longrightarrow> n \<in> l_anet ld)" if "lab = Reader (Some p)" for p
    using net [OF that] l(6)
    by (auto simp: from_client_def server_ok_def server_ackn_def crecv.receives_def ack_number_def split: if_splits)
  have m: "server_ok cid p \<and> (\<forall>m. server_datan cid p = Some m \<longrightarrow> m \<in> l_dnet lu)" if "lab = Reader (Some p)" for p
    using net [OF that] l(3)
    by (auto simp: from_client_def server_ok_def server_datan_def csend.sends_def split: if_splits)
  obtain ld' where ld': "ld' = ld \<or> link_step (server_sstep cid) client_rstep ld ld'" "l_rcv ld' = l_rcv ld"
      "l_anet ld' = l_anet ld" "l_out ld' = l_out ld" "l_dnet ld \<subseteq> l_dnet ld'"
      "ssend.sends cid y ld' (w_sacc w @ accepted (server_wr cid) ev) (w_dn w \<union> sent_now ev)"
    using ssend.sends_step [OF st l(5) n, of client_rstep] calls by blast
  obtain lu' where lu': "lu' = lu \<or> link_step client_sstep (server_rstep cid) lu lu'" "l_snd lu' = l_snd lu"
      "l_hist lu' = l_hist lu" "l_dnet lu' = l_dnet lu" "l_anet lu \<subseteq> l_anet lu'"
      "srecv.receives cid y lu' (w_sgot w @ taken (server_got cid) ReplyC ev) (w_dn w \<union> sent_now ev)"
    using srecv.receives_step [OF st l(4) m, of client_sstep] calls by blast
  have r: "up_reach cid c0 s0 lu'" "down_reach cid s0 c0 ld'"
    using lu'(1) l(1) ld'(1) l(2) link_reach.reach_step by metis+
  have sub: "?dn \<subseteq> w_dn w \<union> sent_now ev" by blast
  show ?thesis
    unfolding world_inv_def
    using r csend.sends_mono [OF l(3) lu'(2,3), of "w_up w"] lu'(4,5)
      srecv.receives_mono [OF lu'(6) refl refl order_refl order_refl sub]
      ssend.sends_mono [OF ld'(6) refl refl order_refl order_refl sub]
      crecv.receives_mono [OF l(6) ld'(2,4,5), of "w_up w"] ld'(3) dn nw put
    by (intro conjI exI [of _ lu'] exI [of _ ld']) auto
qed

lemma world_reach_inv: "world_reach cid c0 s0 w \<Longrightarrow> world_inv cid c0 s0 w"
proof (induction rule: world_reach.induct)
  case wreach_start
  show ?case by (rule world_inv_start)
next
  case (wreach_step w w')
  from wreach_step(2) show ?case
  proof (cases rule: world_step.cases)
    case (world_client lab ev y)
    show ?thesis unfolding world_client(1) by (rule world_inv_client [OF wreach_step.IH world_client(2,3)])
  next
    case (world_server lab ev y)
    show ?thesis unfolding world_server(1) by (rule world_inv_server [OF wreach_step.IH world_server(2,3,4)])
  qed
qed

text \<open>The applications: what \<open>Read\<close> has returned is a prefix of what \<open>Write\<close> has been given.\<close>

lemma prefix_take: "xs = take n ys \<Longrightarrow> prefix xs ys"
  by (simp add: take_is_prefix)

lemma applications:
  assumes w: "world_reach cid c0 s0 w" and c: "client_fresh cid W c0" and s: "server_fresh cid W s0"
  shows "prefix (w_sgot w) (w_cacc w)" and "prefix (w_cacc w) (w_cput w)" and "prefix (w_cgot w) (w_sacc w)"
proof -
  obtain lu ld where l: "up_reach cid c0 s0 lu" "down_reach cid s0 c0 ld"
      "csend.sends (w_c w) lu (w_cacc w) (w_up w)" "srecv.receives cid (w_s w) lu (w_sgot w) (w_dn w)"
      "ssend.sends cid (w_s w) ld (w_sacc w) (w_dn w)" "crecv.receives (w_c w) ld (w_cgot w) (w_up w)"
    and put: "w_cput w = w_cacc w @ List.map_filter val_wr (y_ch (w_c w) ReqC)"
    using world_reach_inv [OF w] unfolding world_inv_def by blast
  have "prefix (l_out lu) (l_hist lu)" "prefix (l_out ld) (l_hist ld)"
    using up_prefix [where d = 0, OF l(1) c] down_prefix [where d = 0, OF l(2) s] c s prefix_take by auto
  then show "prefix (w_sgot w) (w_cacc w)" and "prefix (w_cgot w) (w_sacc w)"
    using l(3-6) unfolding csend.sends_def srecv.receives_def ssend.sends_def crecv.receives_def
    by (metis append_prefixD)+
  show "prefix (w_cacc w) (w_cput w)" using put by simp
qed

end
