(* ===== verification/LspWorldDemo.thy ===== *)
theory LspWorldDemo
  imports LspWorld LspDemo
begin

text \<open>One message through both systems: from a call of \<open>Write\<close> at the client to a call of \<open>Read\<close> at the server.\<close>

lemmas run_defs = sys_step_def handler_step_def timer_post_def timer_exit_def reader_step_def call_step_def app_step_def
  post_def perform_def chan_send_def chan_recv_def

definition demo_orders0 :: "int list \<times> int list" where
  "demo_orders0 = ([], [])"

definition demo_sends :: "mover list" where
  "demo_sends = map ClientMoves
     [Call 0 (CallWrite ''hi''), App 0 0, Handler demo_orders0, Handler demo_orders0, Handler demo_orders0]"

definition demo_receives :: "mover list" where
  "demo_receives = map ServerMoves
     [Reader None, Reader (Some (Pkt (Some (NewData 1 1 ''hi'')) (Some ''cli'') receive_kind)), Reader None,
      Handler demo_orders, Handler demo_orders, Handler demo_orders, Handler demo_orders, Handler demo_orders,
      Handler demo_orders, Handler demo_orders, Handler demo_orders]"

definition demo_takes :: "mover list" where
  "demo_takes = map ServerMoves [Call 0 CallSRead, App 0 0, App 0 0]"

definition demo_world1 :: world where
  "demo_world1 = (world_start demo_client demo_server)\<lparr>
     w_c := (sys_start demo_client1 (\<lambda>_. []))\<lparr>y_h := HTurn []\<rparr>, w_up := {NewData 1 1 ''hi''},
     w_cput := [''hi''], w_cacc := [''hi'']\<rparr>"

lemma demo_turn_c:
  "client_handle [] [] (Pkt (Some (zero_Message\<lparr>Payload := ''hi''\<rparr>)) None cwrite) demo_client =
     Some (demo_client1, [Send (NewData 1 1 ''hi'')])"
  using demo_client1_step by (simp add: demo_write_def)

lemma demo_turn_s:
  "server_handle demo_orders (Pkt (Some (NewData 1 1 ''hi'')) (Some ''cli'') receive_kind) demo_server =
     Some (demo_server1, [Ssend (NewAck 1 1) ''cli'', Req (Pkt None None sread)])"
  "server_handle demo_orders (Pkt None None sread) demo_server1 =
     Some (demo_server2, [Reply (Pkt (Some (NewData 1 1 ''hi'')) None 1)])"
  using demo_server1_step demo_server2_step by (simp_all add: demo_deliver_def demo_read_def)

lemma demo_server2_readclose: "\<not> s_readclose demo_server2"
proof -
  have "\<not> s_readclose demo_server1"
    by (simp add: demo_server1_def demo_deliver_def server_handle_def server_handleReceive_def Let_def
        recv_data_def confirm_def accept_data_def demo_defs ssend_def mhas_def trim.simps)
  then show ?thesis
    by (simp add: demo_server2_def demo_read_def server_handle_def handle_sread_def Let_def split: option.splits)
qed

lemma fun_upd_none [simp]: "(\<lambda>_. [])(c := []) = (\<lambda>_. [])"
  by auto

lemma demo_world1_run: "world_run 1 demo_sends (world_start demo_client demo_server) = Some demo_world1"
  using demo_turn_c
  by (simp add: demo_sends_def demo_world1_def world_start_def sys_start_def run_defs demo_orders0_def client_Write_def
      client_wr_def)

definition demo_world2 :: world where
  "demo_world2 = demo_world1\<lparr>
     w_s := (sys_start demo_server2 (\<lambda>_. []))\<lparr>y_h := HTurn [],
       y_ch := (\<lambda>_. [])(ReplyC := [VPkt (Pkt (Some (NewData 1 1 ''hi'')) None 1)])\<rparr>,
     w_dn := {NewAck 1 1}\<rparr>"

lemma demo_world2_run: "world_run 1 demo_receives demo_world1 = Some demo_world2"
  using demo_turn_s
  by (simp add: demo_receives_def demo_world1_def demo_world2_def world_start_def sys_start_def run_defs
      from_client_def server_wr_def NewData_def NewAck_def) auto

lemma demo_world3_run: "\<exists>w. world_run 1 demo_takes demo_world2 = Some w \<and> w_sgot w = [''hi''] \<and> w_cput w = [''hi'']"
  using demo_server2_readclose
  by (simp add: demo_takes_def demo_world1_def demo_world2_def world_start_def sys_start_def run_defs
      server_Read_start_def NewData_def)

text \<open>The whole run.\<close>

lemma demo_world:
  obtains w where "world_reach 1 demo_client demo_server w" and "w_sgot w = [''hi'']" and "w_cput w = [''hi'']"
proof -
  have "world_reach 1 demo_client demo_server demo_world2"
    using world_run_reach [OF demo_world2_run] world_run_reach [OF demo_world1_run wreach_start] by blast
  then show thesis using demo_world3_run world_run_reach that by blast
qed

end
