(* ===== verification/LspBlocked.thy ===== *)
theory LspBlocked
  imports LspWorldDemo
begin

text \<open>
  Goroutines that block for ever. A handler that waits to send on a full channel moves again only when
  somebody receives from that channel: nobody but the handler itself receives from \<open>req\<close>, and only
  \<open>Read\<close> receives from \<open>replyread\<close>. The runs below lead the client into such states, and into two
  that come from the way \<open>Close\<close> ends the goroutines.
\<close>

section \<open>Waiting on a full channel\<close>

lemma perform_keeps:
  assumes "perform cap e q = Some q'" and "cap c \<le> length (q c)" and "c \<noteq> OverC"
  shows "q' c = q c"
  using assms by (cases rule: perform_cases) auto

lemma stuck_step:
  assumes st: "sys_step M lab y = Some (ev, y')" and h: "y_h y = HTurn (e # es)" and e: "effect_send e = Some (ch, v)"
    and full: "m_cap M ch \<le> length (y_ch y ch)" and ch: "ch \<notin> {OverC, ExitC, ExitEpoC, QuitC}"
    and ops: "ops_ok (op_ok A (\<lambda>c. c \<noteq> ch) U) y"
  shows "y_h y' = y_h y \<and> y_ch y' ch = y_ch y ch"
  using st
proof (cases rule: sys_step_cases)
  case (perf rg e1 es1 q)
  have "e1 = e" using perf(2) h by simp
  with perf(3) show ?thesis using e full by (simp add: perform_def chan_send_def)
next
  case (rread d r)
  then show ?thesis using ch by auto
next
  case (api i k e1 ops1 q)
  then show ?thesis using perform_keeps [OF api(3) full] ch by simp
next
  case (recv i k alts ops1 c f v1 r)
  have "op_ok A (\<lambda>c. c \<noteq> ch) U (Select alts)" using ops recv(2) ops_ok_head by blast
  moreover have "(c, f) \<in> set alts" using recv(3,4) by (metis nth_mem)
  ultimately have "c \<noteq> ch" by auto
  then show ?thesis using recv by simp
qed (use h ch full in auto)

lemma stuck_run:
  assumes "sys_run M labs y = Some y'" and "y_h y = HTurn (e # es)" and "effect_send e = Some (ch, v)"
    and "m_cap M ch \<le> length (y_ch y ch)" and "ch \<notin> {OverC, ExitC, ExitEpoC, QuitC}"
    and "ops_ok (op_ok A (\<lambda>c. c \<noteq> ch) U) y"
    and "\<And>i c op s. Call i c \<in> set labs \<Longrightarrow> op \<in> set (m_call M c s) \<Longrightarrow> op_ok A (\<lambda>c. c \<noteq> ch) U op"
  shows "y_h y' = HTurn (e # es) \<and> y_ch y' ch = y_ch y ch"
  using assms
proof (induction labs arbitrary: y)
  case (Cons lab labs)
  obtain ev y1 where y1: "sys_step M lab y = Some (ev, y1)" "sys_run M labs y1 = Some y'"
    using Cons.prems(1) by (auto split: option.splits)
  have s: "y_h y1 = y_h y \<and> y_ch y1 ch = y_ch y ch" by (rule stuck_step [OF y1(1) Cons.prems(2-6)])
  have o: "ops_ok (op_ok A (\<lambda>c. c \<noteq> ch) U) y1" by (rule ops_ok_step [OF y1(1) Cons.prems(6)]) (use Cons.prems(7) in auto)
  have h: "y_h y1 = HTurn (e # es)" and f: "m_cap M ch \<le> length (y_ch y1 ch)" using s Cons.prems(2,4) by simp_all
  have c: "op_ok A (\<lambda>c. c \<noteq> ch) U op" if "Call i c \<in> set labs" "op \<in> set (m_call M c s)" for i c op s
    using Cons.prems(7) [of i c op s] that by simp
  have "y_h y' = HTurn (e # es) \<and> y_ch y' ch = y_ch y1 ch" by (rule Cons.IH [OF y1(2) h Cons.prems(3) f Cons.prems(5) o c])
  then show ?case using s by simp
qed simp

lemma idle_ops_ok: "y_app y = (\<lambda>_. []) \<Longrightarrow> ops_ok P y"
  by (simp add: ops_ok_def)

text \<open>The calls of the client receive from no channel but the one they wait for.\<close>

lemma client_calls_req: "op \<in> set (client_call c s) \<Longrightarrow> op_ok (\<lambda>_. True) (\<lambda>c. c \<noteq> ReqC) (\<lambda>_. True) op"
  by (rule client_call_ok) simp_all

lemma client_calls_read:
  assumes "op \<in> set (client_call c s)" and "c \<noteq> CallRead"
  shows "op_ok (\<lambda>_. True) (\<lambda>c. c \<noteq> ReplyreadC) (\<lambda>_. True) op"
  using assms
  by (cases c) (auto simp: client_ConnID_start_def client_Write_def close_rest_def split: val.splits if_splits)

section \<open>The reader fills the queue\<close>

definition read_one :: "Packet \<Rightarrow> ('o, 'c) label list" where
  "read_one d = [Reader None, Reader (Some d), Reader None]"

definition read_many :: "nat \<Rightarrow> Packet \<Rightarrow> ('o, 'c) label list" where
  "read_many n d = concat (replicate n (read_one d))"

text \<open>A reader that waits on an open socket, and a program that has not crashed.\<close>

definition reading :: "'s sys \<Rightarrow> bool" where
  "reading y \<longleftrightarrow> y_r y = RSelect \<and> y_open y \<and> y_ch y QuitC = [] \<and> y_h y \<noteq> HPanic"

lemma read_one_run:
  assumes "reading y" and "length (y_ch y ReqC) < m_cap M ReqC"
  shows "sys_run M (read_one d) y = Some (y\<lparr>y_ch := (y_ch y)(ReqC := y_ch y ReqC @ [VPkt d])\<rparr>)"
  using assms by (simp add: read_one_def reading_def run_defs)

lemma read_many_Suc: "read_many (Suc n) d = read_one d @ read_many n d"
  by (simp add: read_many_def)

lemma read_many_run:
  assumes "reading y" and "length (y_ch y ReqC) + n \<le> m_cap M ReqC"
  shows "sys_run M (read_many n d) y = Some (y\<lparr>y_ch := (y_ch y)(ReqC := y_ch y ReqC @ replicate n (VPkt d))\<rparr>)"
  using assms
proof (induction n arbitrary: y)
  case (Suc n)
  let ?y = "y\<lparr>y_ch := (y_ch y)(ReqC := y_ch y ReqC @ [VPkt d])\<rparr>"
  have "sys_run M (read_one d) y = Some ?y" by (rule read_one_run [OF Suc.prems(1)]) (use Suc.prems(2) in simp)
  moreover have "reading ?y" using Suc.prems(1) by (simp add: reading_def)
  then have "sys_run M (read_many n d) ?y = Some (?y\<lparr>y_ch := (y_ch ?y)(ReqC := y_ch ?y ReqC @ replicate n (VPkt d))\<rparr>)"
    by (rule Suc.IH) (use Suc.prems(2) in simp)
  ultimately show ?case by (simp add: sys_run_append read_many_Suc) (simp add: fun_upd_def)
qed (simp add: read_many_def)

section \<open>The client blocks on its own queue\<close>

text \<open>A client that is connected and at work.\<close>

definition at_work :: "client \<Rightarrow> bool" where
  "at_work c \<longleftrightarrow> estab (c_conn c) \<and> \<not> losted (c_conn c) \<and> \<not> c_closepend c \<and> \<not> c_closeack c"

definition next_data :: "int \<Rightarrow> int \<Rightarrow> Packet" where
  "next_data cid n = Pkt (Some (NewData cid n ''m'')) (Some ''srv'') receive_kind"

definition cread_pkt :: Packet where
  "cread_pkt = Pkt None None cread"

lemma client_takes_new:
  assumes "at_work c" and "ack (c_conn c) \<le> n" and "\<not> mhas (ackbuf (c_conn c)) n"
  shows "\<exists>c'. client_handle oa od (next_data cid n) c = Some (c', [Send (NewAck (c_conId c) n), Req cread_pkt])"
  using assms
  by (simp add: client_handle_def client_handleReceive_def client_data_def accept_data_def Let_def at_work_def
      next_data_def NewData_def cread_pkt_def)

definition flood :: "int \<Rightarrow> (int list \<times> int list, client_api) label list" where
  "flood cid =
     [Handler demo_orders0] @ read_many 1000 (next_data cid 1) @ [Handler demo_orders0, Handler demo_orders0] @
       read_one (next_data cid 1)"

lemma flood_run:
  assumes c: "client_fresh cid W c" "at_work c"
  shows "\<exists>y. sys_run client_machine (flood cid) (sys_start c (\<lambda>_. [])) = Some y \<and> y_h y = HTurn [Req cread_pkt] \<and>
    length (y_ch y ReqC) = 1000 \<and> y_app y = (\<lambda>_. [])"
proof -
  let ?d = "next_data cid 1"
  obtain c' where c': "client_handle [] [] ?d c = Some (c', [Send (NewAck (c_conId c) 1), Req cread_pkt])"
    using client_takes_new [OF c(2), of 1 "[]" "[]" cid] c(1) by (auto simp: client_fresh_def)
  let ?y0 = "(sys_start c (\<lambda>_. []))\<lparr>y_h := HTake\<rparr>"
  let ?y1 = "?y0\<lparr>y_ch := (\<lambda>_. [])(ReqC := replicate 1000 (VPkt ?d))\<rparr>"
  let ?y2 = "?y1\<lparr>y_st := c', y_ch := (\<lambda>_. [])(ReqC := replicate 999 (VPkt ?d)), y_h := HTurn [Req cread_pkt]\<rparr>"
  let ?y3 = "?y2\<lparr>y_ch := (\<lambda>_. [])(ReqC := replicate 999 (VPkt ?d) @ [VPkt ?d])\<rparr>"
  have 0: "sys_run client_machine [Handler demo_orders0] (sys_start c (\<lambda>_. [])) = Some ?y0"
    by (simp add: sys_start_def run_defs)
  have 1: "sys_run client_machine (read_many 1000 ?d) ?y0 = Some ?y1"
    using read_many_run [of ?y0 1000 client_machine ?d] by (simp add: reading_def sys_start_def)
  have r: "replicate 1000 (VPkt ?d) = VPkt ?d # replicate 999 (VPkt ?d)"
    using replicate_Suc [of 999 "VPkt ?d"] by simp
  have 2: "sys_run client_machine [Handler demo_orders0, Handler demo_orders0] ?y1 = Some ?y2"
    using c' by (simp add: r sys_start_def run_defs demo_orders0_def)
  have 3: "sys_run client_machine (read_one ?d) ?y2 = Some ?y3"
    using read_one_run [of ?y2 client_machine ?d] by (simp add: reading_def sys_start_def)
  have "sys_run client_machine (flood cid) (sys_start c (\<lambda>_. [])) = Some ?y3"
    unfolding flood_def sys_run_append 0 option.case 1 2 3 ..
  then show ?thesis by (intro exI [of _ ?y3]) (simp add: sys_start_def)
qed

section \<open>Messages that nobody reads\<close>

text \<open>
  A client that has handed \<open>k\<close> messages over to \<open>replyread\<close>, from where nobody has taken one, and waits
  for packets.
\<close>

definition handed_over :: "int \<Rightarrow> client \<Rightarrow> bool" where
  "handed_over k c \<longleftrightarrow> at_work c \<and> c_readct c = k + 1 \<and> readbuf (c_conn c) = fmempty \<and> ack (c_conn c) \<le> k + 1 \<and>
     (\<forall>n. mhas (ackbuf (c_conn c)) n \<longrightarrow> n \<le> k) \<and> 1 \<le> WindowSize (params (c_conn c))"

definition unread :: "nat \<Rightarrow> client sys \<Rightarrow> bool" where
  "unread k y \<longleftrightarrow> y_h y = HTake \<and> y_r y = RSelect \<and> y_open y \<and> y_app y = (\<lambda>_. []) \<and> handed_over (int k) (y_st y) \<and>
     length (y_ch y ReplyreadC) = k \<and> (\<forall>c. c \<noteq> ReplyreadC \<longrightarrow> y_ch y c = [])"

definition hand_over :: "Message \<Rightarrow> effect" where
  "hand_over m = Replyread (Pkt (Some m) None 1)"

lemma one_more:
  assumes "handed_over k c"
  obtains c1 c2 m where
    "client_handle [] [] (next_data cid (k + 1)) c = Some (c1, [Send (NewAck (c_conId c) (k + 1)), Req cread_pkt])"
    and "client_handle [] [] cread_pkt c1 = Some (c2, [hand_over m])" and "handed_over (k + 1) c2"
proof -
  let ?m = "NewData cid (k + 1) ''m''"
  let ?v = "(c_conn c)\<lparr>receive := lastrece (c_conn c)\<rparr>"
  let ?a = "fst (accept_data (c_conId c) ?m ?v)"
  let ?c1 = "c\<lparr>c_readnum := c_readnum c + 1, c_conn := ?a\<rparr>"
  let ?c2 = "?c1\<lparr>c_conn := take_read (k + 1) ?a, c_readct := k + 2\<rparr>"
  have h: "at_work c" "c_readct c = k + 1" "readbuf (c_conn c) = fmempty" "ack (c_conn c) \<le> k + 1"
    "\<And>n. mhas (ackbuf (c_conn c)) n \<Longrightarrow> n \<le> k" "1 \<le> WindowSize (params (c_conn c))"
    using assms by (simp_all add: handed_over_def)
  have new: "\<not> mhas (ackbuf (c_conn c)) (k + 1)" using h(5) [of "k + 1"] by auto
  have rb: "readbuf ?a = fmupd (k + 1) ?m fmempty"
    using h(3) new by (simp add: accept_data_def Let_def NewData_def)
  have 1: "client_handle [] [] (next_data cid (k + 1)) c = Some (?c1, [Send (NewAck (c_conId c) (k + 1)), Req cread_pkt])"
    using h new
    by (simp add: client_handle_def client_handleReceive_def client_data_def Let_def at_work_def next_data_def NewData_def
        cread_pkt_def split_beta) (simp add: accept_data_def Let_def)
  have 2: "client_handle [] [] cread_pkt ?c1 = Some (?c2, [hand_over ?m])"
    using rb h(2) by (simp add: client_handle_def client_handleRead_def cread_pkt_def hand_over_def)
  have ab: "n \<le> k + 1" if "mhas (ackbuf ?a) n" for n
    using accept_data_subset(1) [where cid = "c_conId c" and m = ?m and v = ?v and k = n] that h(5) [of n]
    by (fastforce simp: mhas_def NewData_def)
  have "ack ?a \<le> k + 2" using h(4,6) by (auto simp: accept_data_def Let_def NewData_def)
  moreover have "readbuf (take_read (k + 1) ?a) = fmempty" using rb by (simp add: take_read_def)
  moreover have "at_work ?c2" using h(1) by (simp add: at_work_def accept_data_def Let_def)
  moreover have "params ?a = params (c_conn c)" by (simp add: accept_data_def Let_def)
  ultimately have "handed_over (k + 1) ?c2"
    using ab h(6) by (auto simp: handed_over_def take_read_def)
  then show thesis using that 1 2 by blast
qed

text \<open>The schedule for one message, and its beginning up to the send on \<open>replyread\<close>.\<close>

definition take_data :: "int \<Rightarrow> nat \<Rightarrow> (int list \<times> int list, client_api) label list" where
  "take_data cid k = read_one (next_data cid (int k + 1)) @ replicate 6 (Handler demo_orders0)"

definition deliver_data :: "int \<Rightarrow> nat \<Rightarrow> (int list \<times> int list, client_api) label list" where
  "deliver_data cid k = take_data cid k @ replicate 3 (Handler demo_orders0)"

lemma take_data_run:
  assumes u: "unread k y"
  shows "\<exists>y' m. sys_run client_machine (take_data cid k) y = Some y' \<and> y_h y' = HTurn [hand_over m] \<and>
    y_r y' = RSelect \<and> y_open y' \<and> y_app y' = (\<lambda>_. []) \<and> handed_over (int k + 1) (y_st y') \<and> y_ch y' = y_ch y"
proof -
  have y: "y_h y = HTake" "y_r y = RSelect" "y_open y" "y_app y = (\<lambda>_. [])" "handed_over (int k) (y_st y)"
    "\<And>c. c \<noteq> ReplyreadC \<Longrightarrow> y_ch y c = []"
    using u by (simp_all add: unread_def)
  let ?d = "next_data cid (int k + 1)"
  obtain c1 c2 m where c: "client_handle [] [] ?d (y_st y) = Some (c1, [Send (NewAck (c_conId (y_st y)) (int k + 1)), Req cread_pkt])"
    "client_handle [] [] cread_pkt c1 = Some (c2, [hand_over m])" "handed_over (int k + 1) c2"
    using one_more [OF y(5)] by metis
  let ?y1 = "y\<lparr>y_ch := (y_ch y)(ReqC := [VPkt ?d])\<rparr>"
  have 1: "sys_run client_machine (read_one ?d) y = Some ?y1"
    using read_one_run [of y client_machine ?d] y by (simp add: reading_def)
  have id: "(y_ch y)(ReqC := []) = y_ch y" using y(6) [of ReqC] by (simp add: fun_upd_idem)
  let ?y2 = "y\<lparr>y_st := c2, y_h := HTurn [hand_over m]\<rparr>"
  have 2: "sys_run client_machine (replicate 6 (Handler demo_orders0)) ?y1 = Some ?y2"
    using c(1,2) y(1,6) id by (simp add: eval_nat_numeral run_defs demo_orders0_def)
  have "sys_run client_machine (take_data cid k) y = Some ?y2"
    unfolding take_data_def sys_run_append 1 option.case 2 ..
  then show ?thesis using y c(3) by (intro exI [of _ ?y2] exI [of _ m]) simp
qed

lemma deliver_data_run:
  assumes u: "unread k y" and k: "k < 100"
  shows "\<exists>y'. sys_run client_machine (deliver_data cid k) y = Some y' \<and> unread (Suc k) y'"
proof -
  obtain y1 m where y1: "sys_run client_machine (take_data cid k) y = Some y1" "y_h y1 = HTurn [hand_over m]"
    "y_r y1 = RSelect" "y_open y1" "y_app y1 = (\<lambda>_. [])" "handed_over (int k + 1) (y_st y1)" "y_ch y1 = y_ch y"
    using take_data_run [OF u] by blast
  have ch: "length (y_ch y1 ReplyreadC) = k" "\<And>c. c \<noteq> ReplyreadC \<Longrightarrow> y_ch y1 c = []"
    using u y1(7) by (simp_all add: unread_def)
  let ?y2 = "y1\<lparr>y_ch := (y_ch y1)(ReplyreadC := y_ch y1 ReplyreadC @ [VPkt (Pkt (Some m) None 1)]), y_h := HTake\<rparr>"
  have "sys_run client_machine (replicate 3 (Handler demo_orders0)) y1 = Some ?y2"
    using y1(2) ch k by (simp add: eval_nat_numeral run_defs demo_orders0_def hand_over_def)
  then have "sys_run client_machine (deliver_data cid k) y = Some ?y2"
    unfolding deliver_data_def sys_run_append y1(1) by simp
  moreover have "unread (Suc k) ?y2" using y1(3-6) ch by (simp add: unread_def add.commute)
  ultimately show ?thesis by blast
qed

fun deliver_many :: "int \<Rightarrow> nat \<Rightarrow> (int list \<times> int list, client_api) label list" where
  "deliver_many cid 0 = [Handler demo_orders0]"
| "deliver_many cid (Suc k) = deliver_many cid k @ deliver_data cid k"

lemma deliver_many_run:
  assumes c: "client_fresh cid W c" "at_work c" and k: "k \<le> 100"
  shows "\<exists>y. sys_run client_machine (deliver_many cid k) (sys_start c (\<lambda>_. [])) = Some y \<and> unread k y"
  using k
proof (induction k)
  case 0
  have "handed_over 0 c" using c by (simp add: handed_over_def client_fresh_def)
  then have "unread 0 ((sys_start c (\<lambda>_. []))\<lparr>y_h := HTake\<rparr>)" by (simp add: unread_def sys_start_def)
  moreover have "sys_run client_machine (deliver_many cid 0) (sys_start c (\<lambda>_. [])) =
      Some ((sys_start c (\<lambda>_. []))\<lparr>y_h := HTake\<rparr>)"
    by (simp add: sys_start_def run_defs)
  ultimately show ?case by blast
next
  case (Suc k)
  then obtain y where y: "sys_run client_machine (deliver_many cid k) (sys_start c (\<lambda>_. [])) = Some y" "unread k y" by auto
  obtain y' where "sys_run client_machine (deliver_data cid k) y = Some y'" "unread (Suc k) y'"
    using deliver_data_run [OF y(2)] Suc.prems by auto
  then show ?case by (auto simp: sys_run_append y(1))
qed

text \<open>The message after the hundredth blocks the handler.\<close>

lemma unread_run:
  assumes c: "client_fresh cid W c" "at_work c"
  shows "\<exists>y m. sys_run client_machine (deliver_many cid 100 @ take_data cid 100) (sys_start c (\<lambda>_. [])) = Some y \<and>
    y_h y = HTurn [hand_over m] \<and> length (y_ch y ReplyreadC) = 100 \<and> y_ch y OverC = [] \<and> y_app y = (\<lambda>_. [])"
proof -
  obtain y where y: "sys_run client_machine (deliver_many cid 100) (sys_start c (\<lambda>_. [])) = Some y" "unread 100 y"
    using deliver_many_run [OF c order_refl] by blast
  obtain y' m where "sys_run client_machine (take_data cid 100) y = Some y'" "y_h y' = HTurn [hand_over m]"
    "y_ch y' = y_ch y" "y_app y' = (\<lambda>_. [])"
    using take_data_run [OF y(2)] by blast
  then show ?thesis using y(2) by (auto simp: sys_run_append y(1) unread_def)
qed

section \<open>A call of Close that waits\<close>

definition cclose_pkt :: Packet where
  "cclose_pkt = Pkt None None cclose"

text \<open>Goroutine \<open>i\<close> is in \<open>Close\<close>, before or after its post, and nothing is on \<open>over\<close>.\<close>

definition closing :: "nat \<Rightarrow> client sys \<Rightarrow> bool" where
  "closing i y \<longleftrightarrow> y_ch y OverC = [] \<and>
     (y_app y i = [Do (Req cclose_pkt), Select [(OverC, close_rest)]] \<or> y_app y i = [Select [(OverC, close_rest)]])"

definition no_over :: "effect \<Rightarrow> bool" where
  "no_over e \<longleftrightarrow> (\<forall>p. e \<noteq> Over p)"

abbreviation calls_no_over :: "client op \<Rightarrow> bool" where
  "calls_no_over \<equiv> op_ok no_over (\<lambda>c. c \<noteq> ReqC) (\<lambda>_. True)"

lemma client_calls_no_over: "op \<in> set (client_call c s) \<Longrightarrow> calls_no_over op"
  by (rule client_call_ok) (simp_all add: no_over_def)

lemma perform_no_over: "perform cap e q = Some q' \<Longrightarrow> q OverC = [] \<Longrightarrow> no_over e \<Longrightarrow> q' OverC = []"
  by (erule perform_cases) (cases e; auto simp: no_over_def)+

lemma closing_step:
  assumes st: "sys_step client_machine lab y = Some (ev, y')" and c: "closing i y" and o: "ops_ok calls_no_over y"
    and h: "\<And>e. ev \<noteq> Performed e"
  shows "closing i y' \<and> ops_ok calls_no_over y'"
proof -
  have "ops_ok calls_no_over y'" by (rule ops_ok_step [OF st o]) (use client_calls_no_over in auto)
  moreover have "closing i y'"
    using st
  proof (cases rule: sys_step_cases)
    case (api j k e ops q)
    have "calls_no_over (Do e)" using o api(2) ops_ok_head by blast
    then have "q OverC = []" using perform_no_over [OF api(3)] c by (simp add: closing_def)
    then show ?thesis using c api(2,5) by (auto simp: closing_def)
  next
    case (recv j k alts ops ch f v r)
    then show ?thesis using c by (auto simp: closing_def less_Suc0)
  next
    case (rread d r)
    then show ?thesis using c by (auto simp: closing_def)
  qed (use c h in \<open>auto simp: closing_def\<close>)
  ultimately show ?thesis by simp
qed

text \<open>A handler that does not move: it has returned, or it waits on a channel other than \<open>over\<close> for ever.\<close>

lemma close_never_returns:
  assumes run: "sys_run client_machine labs y = Some y'" and c: "closing i y" and o: "ops_ok calls_no_over y"
    and I: "I y" and step: "\<And>lab y ev y1. lab \<in> set labs \<Longrightarrow> I y \<Longrightarrow> sys_step client_machine lab y = Some (ev, y1) \<Longrightarrow>
      I y1 \<and> (\<forall>e. ev \<noteq> Performed e)"
  shows "y_app y' i \<noteq> []"
proof -
  have "closing i y'"
    using assms
  proof (induction labs arbitrary: y)
    case (Cons lab labs)
    obtain ev y1 where y1: "sys_step client_machine lab y = Some (ev, y1)" "sys_run client_machine labs y1 = Some y'"
      using Cons.prems(1) by (auto split: option.splits)
    have s: "I y1 \<and> (\<forall>e. ev \<noteq> Performed e)" by (rule Cons.prems(5) [OF _ Cons.prems(4) y1(1)]) simp
    have k: "closing i y1 \<and> ops_ok calls_no_over y1" by (rule closing_step [OF y1(1) Cons.prems(2,3)]) (use s in blast)
    have later: "I y2 \<and> (\<forall>e. ev' \<noteq> Performed e)"
      if "lab' \<in> set labs" "I y'" "sys_step client_machine lab' y' = Some (ev', y2)" for lab' y' ev' y2
      by (rule Cons.prems(5) [OF _ that(2,3)]) (simp add: that(1))
    show ?case by (rule Cons.IH [OF y1(2) k [THEN conjunct1] k [THEN conjunct2] s [THEN conjunct1] later])
  qed simp
  then show ?thesis by (auto simp: closing_def)
qed

lemma close_call_closing:
  assumes "sys_step client_machine (Call i CallClose) y = Some (ev, y1)" and "y_ch y OverC = []" and "ops_ok calls_no_over y"
  shows "closing i y1 \<and> ops_ok calls_no_over y1 \<and> y_h y1 = y_h y \<and> y_ch y1 = y_ch y"
proof -
  have "calls_no_over op" if "op \<in> set (client_call c s)" for c op s by (rule client_calls_no_over [OF that])
  then have "ops_ok calls_no_over y1" by (intro ops_ok_step [OF assms(1,3)]) (simp only: machine_simps)
  moreover have "y1 = y\<lparr>y_app := (y_app y)(i := client_call CallClose (y_st y))\<rparr>"
    using assms(1) by (simp add: sys_step_def call_step_def split: if_splits)
  ultimately show ?thesis
    using assms(2) by (intro conjI) (simp_all add: closing_def cclose_pkt_def)
qed

lemma done_step: "sys_step M lab y = Some (ev, y1) \<Longrightarrow> y_h y = HDone \<Longrightarrow> y_h y1 = HDone \<and> (\<forall>e. ev \<noteq> Performed e)"
  by (erule sys_step_cases) auto

lemma stuck_no_perform:
  assumes "sys_step M lab y = Some (ev, y1)" and "y_h y = HTurn (e # es)" and "effect_send e = Some (ch, v)"
    and "m_cap M ch \<le> length (y_ch y ch)"
  shows "ev \<noteq> Performed e1"
  using assms by (cases rule: sys_step_cases) (auto simp: perform_def chan_send_def)

text \<open>
  The two ways in which \<open>Close\<close> waits for ever. In the first the handler waits on \<open>replyread\<close> and the
  invariant is that \<open>stuck_run\<close> applies; in the second the handler has returned.
\<close>

definition never_read :: "Message \<Rightarrow> client sys \<Rightarrow> bool" where
  "never_read m y \<longleftrightarrow> y_h y = HTurn [hand_over m] \<and> length (y_ch y ReplyreadC) = 100 \<and>
     ops_ok (op_ok (\<lambda>_. True) (\<lambda>c. c \<noteq> ReplyreadC) (\<lambda>_. True)) y"

lemma hand_over_send: "effect_send (hand_over m) = Some (ReplyreadC, VPkt (Pkt (Some m) None 1))"
  by (simp add: hand_over_def)

lemma never_read_step:
  assumes st: "sys_step client_machine lab y = Some (ev, y')" and n: "never_read m y" and lab: "\<And>i. lab \<noteq> Call i CallRead"
  shows "never_read m y' \<and> (\<forall>e. ev \<noteq> Performed e)"
proof -
  have y: "y_h y = HTurn [hand_over m]" "m_cap client_machine ReplyreadC \<le> length (y_ch y ReplyreadC)"
    "ops_ok (op_ok (\<lambda>_. True) (\<lambda>c. c \<noteq> ReplyreadC) (\<lambda>_. True)) y"
    using n by (simp_all add: never_read_def)
  have "op_ok (\<lambda>_. True) (\<lambda>c. c \<noteq> ReplyreadC) (\<lambda>_. True) op" if "lab = Call i c" "op \<in> set (m_call client_machine c s)" for i c op s
    using client_calls_read [of op c s] that lab by auto
  then have "ops_ok (op_ok (\<lambda>_. True) (\<lambda>c. c \<noteq> ReplyreadC) (\<lambda>_. True)) y'" by (rule ops_ok_step [OF st y(3)])
  moreover have "y_h y' = y_h y \<and> y_ch y' ReplyreadC = y_ch y ReplyreadC"
    by (rule stuck_step [OF st y(1) hand_over_send y(2) _ y(3)]) simp
  moreover have "ev \<noteq> Performed e" for e by (rule stuck_no_perform [OF st y(1) hand_over_send y(2)])
  ultimately show ?thesis using n by (simp add: never_read_def)
qed

lemma unread_close_waits:
  assumes y: "y_h y = HTurn [hand_over m]" "length (y_ch y ReplyreadC) = 100" "y_ch y OverC = []" "y_app y = (\<lambda>_. [])"
    and labs: "\<forall>i. Call i CallRead \<notin> set labs" and run: "sys_run client_machine (Call 0 CallClose # labs) y = Some y'"
  shows "y_h y' = HTurn [hand_over m] \<and> y_app y' 0 \<noteq> []"
proof -
  obtain ev y1 where y1: "sys_step client_machine (Call 0 CallClose) y = Some (ev, y1)" "sys_run client_machine labs y1 = Some y'"
    using run by (auto split: option.splits)
  have n: "never_read m y" using y idle_ops_ok [OF y(4)] by (simp add: never_read_def)
  have n1: "never_read m y1" using never_read_step [OF y1(1) n] by simp
  have c: "closing 0 y1 \<and> ops_ok calls_no_over y1 \<and> y_h y1 = y_h y \<and> y_ch y1 = y_ch y"
    by (rule close_call_closing [OF y1(1) y(3) idle_ops_ok [OF y(4)]])
  have step: "never_read m z' \<and> (\<forall>e. ev \<noteq> Performed e)"
    if "lab \<in> set labs" "never_read m z" "sys_step client_machine lab z = Some (ev, z')" for lab z ev z'
    using never_read_step [OF that(3,2)] labs that(1) by auto
  have h: "y_h y1 = HTurn [hand_over m]" "m_cap client_machine ReplyreadC \<le> length (y_ch y1 ReplyreadC)"
    "ops_ok (op_ok (\<lambda>_. True) (\<lambda>c. c \<noteq> ReplyreadC) (\<lambda>_. True)) y1"
    using n1 by (simp_all add: never_read_def)
  have calls: "op_ok (\<lambda>_. True) (\<lambda>c. c \<noteq> ReplyreadC) (\<lambda>_. True) op"
    if "Call i c \<in> set labs" "op \<in> set (m_call client_machine c s)" for i c op s
    using client_calls_read [of op c s] that labs by auto
  have "y_h y' = HTurn [hand_over m] \<and> y_ch y' ReplyreadC = y_ch y1 ReplyreadC"
    by (rule stuck_run [OF y1(2) h(1) hand_over_send h(2) _ h(3) calls]) simp
  moreover have "y_app y' 0 \<noteq> []"
    by (rule close_never_returns [where I = "never_read m", OF y1(2) c [THEN conjunct1] c [THEN conjunct2, THEN conjunct1] n1 step])
  ultimately show ?thesis by simp
qed

lemma done_close_waits:
  assumes y: "y_h y = HDone" "y_ch y OverC = []" "y_app y = (\<lambda>_. [])"
    and run: "sys_run client_machine (Call i CallClose # labs) y = Some y'"
  shows "y_app y' i \<noteq> []"
proof -
  obtain ev y1 where y1: "sys_step client_machine (Call i CallClose) y = Some (ev, y1)" "sys_run client_machine labs y1 = Some y'"
    using run by (auto split: option.splits)
  have c: "closing i y1 \<and> ops_ok calls_no_over y1 \<and> y_h y1 = y_h y \<and> y_ch y1 = y_ch y"
    by (rule close_call_closing [OF y1(1) y(2) idle_ops_ok [OF y(3)]])
  have h: "y_h y1 = HDone" using c y(1) by simp
  show ?thesis
    by (rule close_never_returns [where I = "\<lambda>y. y_h y = HDone", OF y1(2) c [THEN conjunct1] c [THEN conjunct2, THEN conjunct1] h])
      (rule done_step)
qed

section \<open>The loss of the server ends the handler\<close>

text \<open>A client without messages under way that has heard nothing for \<open>j\<close> epochs and waits for packets.\<close>

definition waiting :: "int \<Rightarrow> client sys \<Rightarrow> bool" where
  "waiting j y \<longleftrightarrow> y_h y = HTake \<and> y_t y = TWait \<and> y_r y = RSelect \<and> y_open y \<and> y_app y = (\<lambda>_. []) \<and> y_ch y = (\<lambda>_. []) \<and>
     at_work (y_st y) \<and> c_conId (y_st y) \<noteq> 0 \<and> conn (c_conn (y_st y)) \<noteq> None \<and>
     databuf (c_conn (y_st y)) = fmempty \<and> ackbuf (c_conn (y_st y)) = fmempty \<and>
     receive (c_conn (y_st y)) - lastrece (c_conn (y_st y)) = j"

definition epoch_labels :: "nat \<Rightarrow> (int list \<times> int list, client_api) label list" where
  "epoch_labels n = [TimerTick, TimerPost] @ replicate n (Handler demo_orders0)"

lemma quiet_epoch:
  assumes w: "waiting j y" and L: "j + 1 < EpochLimit (params (c_conn (y_st y)))"
  shows "\<exists>y'. sys_run client_machine (epoch_labels 4) y = Some y' \<and> waiting (j + 1) y' \<and>
    params (c_conn (y_st y')) = params (c_conn (y_st y))"
proof -
  let ?c = "y_st y"
  let ?c' = "?c\<lparr>c_conn := (c_conn ?c)\<lparr>receive := receive (c_conn ?c) + 1\<rparr>\<rparr>"
  have y: "y_h y = HTake" "y_t y = TWait" "y_ch y = (\<lambda>_. [])" "c_conId ?c \<noteq> 0"
    "databuf (c_conn ?c) = fmempty" "ackbuf (c_conn ?c) = fmempty"
    "receive (c_conn ?c) + 1 - lastrece (c_conn ?c) < EpochLimit (params (c_conn ?c))"
    using w L by (auto simp: waiting_def)
  have t: "client_handle [] [] (Pkt None None 3) ?c = Some (?c', [Send (NewAck (c_conId ?c) 0)])"
    using y(4-7) by (simp add: client_handle_def client_handleEpoch_def Let_def)
  let ?y = "y\<lparr>y_st := ?c'\<rparr>"
  have "sys_run client_machine (epoch_labels 4) y = Some ?y"
    using y(1-3) t by (simp add: epoch_labels_def eval_nat_numeral run_defs demo_orders0_def)
  moreover have "waiting (j + 1) ?y" using w by (auto simp: waiting_def at_work_def)
  ultimately show ?thesis by (intro exI [of _ ?y]) simp
qed

lemma last_epoch:
  assumes w: "waiting j y" and L: "EpochLimit (params (c_conn (y_st y))) \<le> j + 1"
  shows "\<exists>y'. sys_run client_machine (epoch_labels 12) y = Some y' \<and> y_h y' = HDone \<and> y_ch y' OverC = [] \<and>
    y_app y' = (\<lambda>_. []) \<and> losted (c_conn (y_st y'))"
proof -
  let ?c = "y_st y"
  let ?c' = "?c\<lparr>c_conn := (c_conn ?c)\<lparr>receive := receive (c_conn ?c) + 1, losted := True, estab := False\<rparr>\<rparr>"
  obtain k where k: "conn (c_conn ?c) = Some k" using w by (auto simp: waiting_def)
  have y: "y_h y = HTake" "y_t y = TWait" "y_ch y = (\<lambda>_. [])" "c_conId ?c \<noteq> 0" "\<not> c_closepend ?c"
    "databuf (c_conn ?c) = fmempty" "ackbuf (c_conn ?c) = fmempty" "y_app y = (\<lambda>_. [])"
    "EpochLimit (params (c_conn ?c)) \<le> receive (c_conn ?c) + 1 - lastrece (c_conn ?c)"
    using w L by (auto simp: waiting_def at_work_def)
  have t: "client_handle [] [] (Pkt None None 3) ?c = Some (?c',
      [Send (NewAck (c_conId ?c) 0), Replyread (Pkt None None (- 2)), Over (Pkt None None 5), Req (Pkt None None 7), TakeOver,
       CloseSock k, Quit, ExitEpo, Exit])"
    using y(4-7,9) k
    by (simp add: client_handle_def client_handleEpoch_def client_lost_def client_Close_def Connect_close_def Let_def)
  show ?thesis
    using y(1-3,8) t by (simp add: epoch_labels_def eval_nat_numeral run_defs demo_orders0_def)
qed

fun epochs :: "nat \<Rightarrow> (int list \<times> int list, client_api) label list" where
  "epochs 0 = []"
| "epochs (Suc n) = epochs n @ epoch_labels 4"

lemma epochs_run:
  assumes w: "waiting 0 y" and n: "int n < EpochLimit (params (c_conn (y_st y)))"
  shows "\<exists>y'. sys_run client_machine (epochs n) y = Some y' \<and> waiting (int n) y' \<and>
    params (c_conn (y_st y')) = params (c_conn (y_st y))"
  using n
proof (induction n)
  case 0
  then show ?case using w by simp
next
  case (Suc n)
  then obtain y1 where y1: "sys_run client_machine (epochs n) y = Some y1" "waiting (int n) y1"
    "params (c_conn (y_st y1)) = params (c_conn (y_st y))" by auto
  have "int n + 1 < EpochLimit (params (c_conn (y_st y1)))" using Suc.prems y1(3) by simp
  from quiet_epoch [OF y1(2) this] show ?case using y1(1,3) by (auto simp: sys_run_append add.commute)
qed

definition silence :: "nat \<Rightarrow> (int list \<times> int list, client_api) label list" where
  "silence n = [Handler demo_orders0] @ epochs n @ epoch_labels 12"

lemma silence_run:
  assumes c: "client_fresh cid W c" "at_work c" "conn (c_conn c) \<noteq> None" "receive (c_conn c) = lastrece (c_conn c)"
    and L: "EpochLimit (params (c_conn c)) = int (Suc n)"
  shows "\<exists>y. sys_run client_machine (silence n) (sys_start c (\<lambda>_. [])) = Some y \<and> y_h y = HDone \<and> y_ch y OverC = [] \<and>
    y_app y = (\<lambda>_. []) \<and> losted (c_conn (y_st y))"
proof -
  let ?y = "(sys_start c (\<lambda>_. []))\<lparr>y_h := HTake\<rparr>"
  have 0: "sys_run client_machine [Handler demo_orders0] (sys_start c (\<lambda>_. [])) = Some ?y"
    by (simp add: sys_start_def run_defs)
  have "waiting 0 ?y" using c by (auto simp: waiting_def sys_start_def client_fresh_def)
  moreover have "int n < EpochLimit (params (c_conn (y_st ?y)))" using L by (simp add: sys_start_def)
  ultimately obtain y1 where y1: "sys_run client_machine (epochs n) ?y = Some y1" "waiting (int n) y1"
    "params (c_conn (y_st y1)) = params (c_conn c)"
    using epochs_run [of ?y n] by (auto simp: sys_start_def)
  have "EpochLimit (params (c_conn (y_st y1))) \<le> int n + 1" using y1(3) L by simp
  from last_epoch [OF y1(2) this] show ?thesis
    unfolding silence_def sys_run_append 0 option.case y1(1) by simp
qed

section \<open>Close leaves the handler behind\<close>

definition keepalive :: "int \<Rightarrow> Packet" where
  "keepalive cid = Pkt (Some (NewAck cid 0)) (Some ''srv'') receive_kind"

definition clean_close :: "int \<Rightarrow> (int list \<times> int list, client_api) label list" where
  "clean_close cid =
     [Handler demo_orders0, Call 0 CallClose, App 0 0] @ replicate 3 (Handler demo_orders0) @
     read_one (keepalive cid) @ replicate 8 (Handler demo_orders0) @ replicate 6 (App 0 0) @ [TimerExit, Reader None]"

text \<open>The handler is the only goroutine left, and waits for a packet.\<close>

definition left_behind :: "client sys \<Rightarrow> bool" where
  "left_behind y \<longleftrightarrow> y_h y = HTake \<and> y_ch y ReqC = [] \<and> y_t y = TDone \<and> y_r y = RDone \<and> y_app y = (\<lambda>_. [])"

lemma left_behind_stuck: "left_behind y \<Longrightarrow> (\<And>i c. lab \<noteq> Call i c) \<Longrightarrow> sys_step M lab y = None"
  by (cases lab) (auto simp: left_behind_def run_defs)

lemma clean_close_run:
  assumes c: "client_fresh cid W c" "at_work c" "conn (c_conn c) \<noteq> None"
  shows "\<exists>y. sys_run client_machine (clean_close cid) (sys_start c (\<lambda>_. [])) = Some y \<and> left_behind y"
proof -
  obtain k where k: "conn (c_conn c) = Some k" using c(3) by auto
  let ?c1 = "c\<lparr>c_closepend := True\<rparr>" and ?c2 = "c\<lparr>c_closepend := True, c_closeack := True\<rparr>"
  have w: "estab (c_conn c)" "\<not> losted (c_conn c)" "\<not> c_closepend c" "\<not> c_closeack c"
    "databuf (c_conn c) = fmempty" "writebuf (c_conn c) = fmempty"
    using c(1,2) by (auto simp: at_work_def client_fresh_def)
  have 1: "client_handle [] [] (Pkt None None 7) c = Some (?c1, [])"
    using w by (simp add: client_handle_def client_handleClose_def Let_def)
  have 2: "client_handle [] [] (keepalive cid) ?c1 = Some (?c2, [Req (Pkt None None 7)])"
    using w by (simp add: client_handle_def client_handleReceive_def keepalive_def NewAck_def)
  have 3: "client_handle [] [] (Pkt None None 7) ?c2 = Some (?c2, [Over (Pkt None None 5)])"
    using w by (simp add: client_handle_def client_handleClose_def Let_def)
  have r: "close_rest (VPkt (Pkt None None 5)) ?c2 =
      map Do [CloseSock k, Quit, ExitEpo, Exit] @ [Upd (\<lambda>c. fst (client_Close (Pkt None None 5) c))]"
    by (simp add: close_rest_def client_Close_def Connect_close_def k)
  show ?thesis
    using 1 2 3 r
    by (simp add: clean_close_def read_one_def eval_nat_numeral sys_start_def run_defs demo_orders0_def left_behind_def)
qed

end
