(* ===== verification/LspWorldClose.thy ===== *)
theory LspWorldClose
  imports LspBlocked LspClientSafe
begin

text \<open>
  \<open>Close\<close> of the client in the world of goroutines: when the call gets its answer and the connection is
  not lost, everything that was written has arrived at the server. The application is assumed to be
  orderly, as the API demands: it does not call \<open>Write\<close> or \<open>Close\<close> after a call of \<open>Close\<close>, and has no
  \<open>Write\<close> under way then.
\<close>

section \<open>One turn of the client\<close>

text \<open>Loss and \<open>closeack\<close> stay, and only \<open>cclose\<close> sets \<open>closepend\<close>.\<close>

definition keeps_flags :: "client \<Rightarrow> client \<Rightarrow> bool" where
  "keeps_flags c c' \<longleftrightarrow> (losted (c_conn c) \<longrightarrow> losted (c_conn c')) \<and> (c_closeack c \<longrightarrow> c_closeack c') \<and>
     c_closepend c' = c_closepend c"

text \<open>Nothing that a turn does has to do with \<open>Close\<close>, unless the server is lost.\<close>

definition calm :: "client \<Rightarrow> client \<times> effect list \<Rightarrow> bool" where
  "calm c r \<longleftrightarrow> losted (c_conn (fst r)) \<or>
     (c_closeack (fst r) = c_closeack c \<and> (\<forall>q. Over q \<notin> set (snd r) \<and> (Req q \<in> set (snd r) \<longrightarrow> contype q \<noteq> cclose)))"

lemma client_Close_flags: "keeps_flags c (fst (client_Close x c))"
  by (simp add: keeps_flags_def client_frames)

lemma client_lost_flags: "keeps_flags c (fst (client_lost c))" "calm c (client_lost c)"
  by (simp_all add: keeps_flags_def calm_def client_frames) (simp add: client_lost_def Let_def split_beta client_frames)

lemma client_handleEpoch_flags: "keeps_flags c (fst (client_handleEpoch oa od c))" "calm c (client_handleEpoch oa od c)"
  using client_lost_flags [of "c\<lparr>c_conn := (c_conn c)\<lparr>receive := receive (c_conn c) + 1\<rparr>\<rparr>"]
  by (auto simp: client_handleEpoch_def Let_def split_beta keeps_flags_def calm_def)

lemma client_ack_flags: "keeps_flags c (fst (client_ack m c))" "calm c (client_ack m c)"
  by (auto simp: client_ack_def Let_def split_beta keeps_flags_def calm_def)

lemma client_data_flags: "keeps_flags c (fst (client_data m c))" "calm c (client_data m c)"
  by (auto simp: client_data_def Let_def split_beta keeps_flags_def calm_def)

lemma keeps_flags_count: "keeps_flags (c\<lparr>c_readnum := k\<rparr>) c' \<longleftrightarrow> keeps_flags c c'"
  "calm (c\<lparr>c_readnum := k\<rparr>) r \<longleftrightarrow> calm c r"
  by (simp_all add: keeps_flags_def calm_def)

lemma client_handleReceive_flags:
  "keeps_flags c (fst (client_handleReceive m c))" "\<not> c_closepend c \<Longrightarrow> calm c (client_handleReceive m c)"
  using client_ack_flags [of "c\<lparr>c_readnum := c_readnum c + 1\<rparr>" m] client_data_flags [of "c\<lparr>c_readnum := c_readnum c + 1\<rparr>" m]
  unfolding keeps_flags_count
  by (auto simp: client_handleReceive_def Let_def split: MsgType.split) (auto simp: keeps_flags_def calm_def)

lemma client_handle_flags:
  assumes h: "client_handle oa od p c = Some (c', es)" and p: "contype p \<noteq> cclose"
  shows "keeps_flags c c'" and "\<not> c_closepend c \<Longrightarrow> calm c (c', es)"
proof -
  have w: "keeps_flags c (fst (client_handleWrite b c))" "calm c (client_handleWrite b c)" for b
    by (auto simp: client_handleWrite_def Let_def split_beta keeps_flags_def calm_def)
  have r: "keeps_flags c (fst (client_handleRead c))" "calm c (client_handleRead c)"
    by (auto simp: client_handleRead_def keeps_flags_def calm_def split: option.split)
  have e: "keeps_flags c (fst (client_handleEstab c))" "calm c (client_handleEstab c)"
    by (simp_all add: client_handleEstab_def keeps_flags_def calm_def)
  have same: "keeps_flags c c" "calm c (c, [])" "calm c (c, [Reply q])" for q by (simp_all add: keeps_flags_def calm_def)
  show "keeps_flags c c'" and "\<not> c_closepend c \<Longrightarrow> calm c (c', es)"
    using h p w r e same client_handleEpoch_flags [of c oa od] client_handleReceive_flags
    by (auto simp: client_handle_def split: if_splits) (metis fst_conv)+
qed

text \<open>The packet for \<open>over\<close> goes out with \<open>closeack\<close>, or after a loss.\<close>

lemma client_handle_Over:
  assumes h: "client_handle oa od p c = Some (c', es)" and o: "Over x \<in> set es"
  shows "losted (c_conn c') \<or> c_closeack c'"
proof (cases "contype p = cclose")
  case True
  then have "client_handleClose c = (c', es)" using h by (simp add: client_handle_def)
  then show ?thesis using o by (auto simp: client_handleClose_def Let_def split: if_splits)
next
  case False
  have "Over x \<notin> set (snd (client_handleReceive m c))" for m
    by (auto simp: client_handleReceive_def client_ack_def client_data_def Let_def split_beta split: MsgType.split)
  moreover have "Over x \<notin> set (snd (client_handleWrite m c))" for m
    by (auto simp: client_handleWrite_def Let_def split_beta)
  moreover have "Over x \<notin> set (snd (client_handleRead c))"
    by (auto simp: client_handleRead_def split: option.split)
  moreover have "Over x \<in> set (snd (client_handleEpoch oa od c)) \<Longrightarrow> losted (c_conn (fst (client_handleEpoch oa od c)))"
    by (rule client_handleEpoch_Over)
  ultimately show ?thesis using h o False
    by (auto simp: client_handle_def client_handleEstab_def split: if_splits) (metis snd_conv)+
qed

lemma client_handle_closing:
  assumes "client_handle oa od p c = Some (c', es)"
  shows "losted (c_conn c) \<Longrightarrow> losted (c_conn c')" and "c_closeack c \<Longrightarrow> c_closeack c'"
  using client_handle_flags(1) [OF assms] assms
  by (cases "contype p = cclose"; auto simp: keeps_flags_def client_handle_def client_handleClose_def Let_def split: if_splits)+

section \<open>Writes come before the packet of Close\<close>

fun kind_of :: "val \<Rightarrow> int option" where
  "kind_of (VPkt p) = Some (contype p)"
| "kind_of (VInt _) = None"

abbreviation has_kind :: "int \<Rightarrow> val list \<Rightarrow> bool" where
  "has_kind k vs \<equiv> Some k \<in> kind_of ` set vs"

fun writes_first :: "val list \<Rightarrow> bool" where
  "writes_first [] \<longleftrightarrow> True"
| "writes_first (v # vs) \<longleftrightarrow> (kind_of v = Some cclose \<longrightarrow> \<not> has_kind cwrite vs) \<and> writes_first vs"

lemma writes_first_snoc:
  "writes_first (vs @ [v]) \<longleftrightarrow> writes_first vs \<and> (kind_of v = Some cwrite \<longrightarrow> \<not> has_kind cclose vs)"
  by (induction vs) auto

lemma writes_first_none: "\<not> has_kind cclose vs \<Longrightarrow> writes_first vs"
  by (induction vs) auto

lemma no_kind_no_writes: "\<not> has_kind cwrite vs \<Longrightarrow> List.map_filter val_wr vs = []"
proof (induction vs)
  case (Cons v vs)
  then show ?case by (cases v) (auto simp: client_wr_def split: option.splits)
qed simp

lemma perform_OverC: "perform cap e q = Some q' \<Longrightarrow> q' OverC \<noteq> [] \<Longrightarrow> q OverC \<noteq> [] \<or> (\<exists>p. e = Over p)"
  by (erule perform_cases) (cases e; auto)+

section \<open>Before and after the call of Close\<close>

text \<open>What the calls that are under way may do, before and after.\<close>

definition no_close :: "effect \<Rightarrow> bool" where
  "no_close e \<longleftrightarrow> (\<forall>p. e \<noteq> Over p \<and> (e = Req p \<longrightarrow> contype p \<noteq> cclose))"

definition no_write :: "effect \<Rightarrow> bool" where
  "no_write e \<longleftrightarrow> (\<forall>p. e \<noteq> Over p \<and> (e = Req p \<longrightarrow> contype p \<noteq> cwrite))"

definition close_upd :: "(client \<Rightarrow> client) \<Rightarrow> bool" where
  "close_upd f \<longleftrightarrow> (\<exists>x. f = (\<lambda>c. fst (client_Close x c)))"

definition posts_ok :: "client sys \<Rightarrow> bool" where
  "posts_ok y \<longleftrightarrow> (\<forall>p. y_r y = RPost p \<longrightarrow> contype p = receive_kind) \<and> (\<forall>q. Req q \<in> set (todo (y_h y)) \<longrightarrow> contype q \<noteq> cwrite)"

definition before_close :: "client sys \<Rightarrow> bool" where
  "before_close y \<longleftrightarrow> posts_ok y \<and> ops_ok (op_ok no_close (\<lambda>c. c \<noteq> ReqC) (\<lambda>_. False)) y \<and>
     (losted (c_conn (y_st y)) \<or>
       \<not> c_closepend (y_st y) \<and> \<not> c_closeack (y_st y) \<and> y_ch y OverC = [] \<and> \<not> has_kind cclose (y_ch y ReqC) \<and>
       (\<forall>e \<in> set (todo (y_h y)). no_close e))"

definition after_close :: "client sys \<Rightarrow> bool" where
  "after_close y \<longleftrightarrow> posts_ok y \<and> ops_ok (op_ok no_write (\<lambda>c. c \<noteq> ReqC) close_upd) y \<and>
     (losted (c_conn (y_st y)) \<or>
       close_inv (y_st y) \<and> (c_closepend (y_st y) \<longrightarrow> \<not> has_kind cwrite (y_ch y ReqC)) \<and> writes_first (y_ch y ReqC) \<and>
       (y_ch y OverC \<noteq> [] \<or> (\<exists>q. Over q \<in> set (todo (y_h y))) \<longrightarrow> c_closeack (y_st y)))"

lemma posts_ok_step:
  assumes st: "sys_step client_machine lab y = Some (ev, y')" and p: "posts_ok y"
    and net: "\<And>d. lab = Reader (Some d) \<Longrightarrow> contype d = receive_kind"
  shows "posts_ok y'"
proof -
  have r: "contype d = receive_kind" if "y_r y' = RPost d" for d
    using st p net that by (cases rule: sys_step_cases) (auto simp: posts_ok_def)
  have "contype q \<noteq> cwrite" if q: "Req q \<in> set (todo (y_h y'))" for q
    using todo_step [OF st]
  proof (elim disjE exE conjE)
    fix d assume t: "ev = Turn d (todo (y_h y'))"
    then obtain rg where "m_handle client_machine rg d (y_st y) = Some (y_st y', todo (y_h y'))"
      using t by (cases rule: sys_step_cases [OF st]) auto
    then show ?thesis using client_handle_posts [of "fst rg" "snd rg" d "y_st y" "y_st y'" "todo (y_h y')" q] q by (auto simp: split_beta)
  next
    fix e assume "todo (y_h y) = e # todo (y_h y')"
    then show ?thesis using p q by (auto simp: posts_ok_def)
  next
    assume "todo (y_h y') = todo (y_h y)"
    then show ?thesis using p q by (auto simp: posts_ok_def)
  qed
  then show ?thesis using r by (simp add: posts_ok_def)
qed

lemma client_calls_no_close: "op \<in> set (client_call c s) \<Longrightarrow> c \<noteq> CallClose \<Longrightarrow> op_ok no_close (\<lambda>c. c \<noteq> ReqC) (\<lambda>_. False) op"
  by (cases c) (auto simp: client_ConnID_start_def client_Read_start_def client_Write_def no_close_def split: if_splits)

lemma client_calls_no_write:
  assumes "op \<in> set (client_call c s)" and "\<And>b. c \<noteq> CallWrite b"
  shows "op_ok no_write (\<lambda>c. c \<noteq> ReqC) close_upd op"
proof -
  have "op_ok no_write (\<lambda>c. c \<noteq> ReqC) close_upd o1" if "o1 \<in> set (close_rest v d)" for o1 v d
    using that client_Close_rest by (fastforce simp: close_rest_def close_upd_def no_write_def split: val.splits)
  then show ?thesis using assms
    by (cases c) (auto simp: client_ConnID_start_def client_Read_start_def no_write_def split: if_splits)
qed

lemma before_close_step:
  assumes st: "sys_step client_machine lab y = Some (ev, y')" and b: "before_close y"
    and net: "\<And>d. lab = Reader (Some d) \<Longrightarrow> contype d = receive_kind" and calls: "\<And>i. lab \<noteq> Call i CallClose"
  shows "before_close y'"
proof -
  have ops: "ops_ok (op_ok no_close (\<lambda>c. c \<noteq> ReqC) (\<lambda>_. False)) y" and p: "posts_ok y"
    using b by (simp_all add: before_close_def)
  have ops': "ops_ok (op_ok no_close (\<lambda>c. c \<noteq> ReqC) (\<lambda>_. False)) y'"
    by (rule ops_ok_step [OF st ops]) (use client_calls_no_close calls in \<open>metis machine_simps(3)\<close>)
  have p': "posts_ok y'" by (rule posts_ok_step [OF st p net])
  have "losted (c_conn (y_st y')) \<or> \<not> c_closepend (y_st y') \<and> \<not> c_closeack (y_st y') \<and> y_ch y' OverC = [] \<and>
      \<not> has_kind cclose (y_ch y' ReqC) \<and> (\<forall>e \<in> set (todo (y_h y')). no_close e)"
    (is "?L' \<or> ?R'")
  proof (cases "losted (c_conn (y_st y))")
    case True
    from st have "losted (c_conn (y_st y'))"
    proof (cases rule: state_step)
      case (turn rg d es)
      then show ?thesis using client_handle_closing(1) [of "fst rg" "snd rg" d "y_st y"] True by (auto simp: split_beta)
    next
      case (upd i f fs)
      then show ?thesis using ops_ok_head [OF ops upd(2)] by simp
    qed (use True in simp)
    then show ?thesis ..
  next
    case False
    then have c: "\<not> c_closepend (y_st y)" "\<not> c_closeack (y_st y)" "y_ch y OverC = []" "\<not> has_kind cclose (y_ch y ReqC)"
      "\<And>e. e \<in> set (todo (y_h y)) \<Longrightarrow> no_close e"
      using b unfolding before_close_def by blast+
    show ?thesis
      using st
    proof (cases rule: sys_step_cases)
      case (turn rg d r s es)
      have h: "client_handle (fst rg) (snd rg) d (y_st y) = Some (s, es)" using turn(4) by (simp add: split_beta)
      have "contype d \<noteq> cclose" "\<not> has_kind cclose r" using c(4) turn(3) by auto
      then show ?thesis
        using client_handle_flags [OF h] c(1-3) turn(6) by (auto simp: keeps_flags_def calm_def no_close_def)
    next
      case (perf rg e es q)
      have "no_close e" using c(5) perf(2) by simp
      then show ?thesis
        using c perf perform_ReqC [OF perf(3)] perform_OverC [OF perf(3)] by (cases e) (auto simp: no_close_def)
    next
      case (api i k e fs q)
      have "no_close e" using ops_ok_head [OF ops api(2)] by simp
      then show ?thesis
        using c api perform_ReqC [OF api(3)] perform_OverC [OF api(3)] by (cases e) (auto simp: no_close_def)
    next
      case (rpost d p1)
      have "contype p1 = receive_kind" using p rpost(3) by (simp add: posts_ok_def)
      then show ?thesis using c rpost by auto
    next
      case (recv i k alts fs ch f v r)
      then show ?thesis using c by auto
    next
      case (upd i k f fs)
      then show ?thesis using ops_ok_head [OF ops upd(3)] by simp
    next
      case (rread d r)
      then show ?thesis using c by auto
    qed (use c in auto)
  qed
  then show ?thesis using ops' p' by (simp add: before_close_def)
qed

lemma op_ok_conj:
  "op_ok A B U op \<Longrightarrow> op_ok A' B' U' op \<Longrightarrow> op_ok (\<lambda>e. A e \<and> A' e) (\<lambda>c. B c \<and> B' c) (\<lambda>f. U f \<and> U' f) op"
  by (induction rule: op_ok.induct) auto

lemma op_ok_mono:
  "op_ok A B U op \<Longrightarrow> (\<And>e. A e \<Longrightarrow> A' e) \<Longrightarrow> (\<And>c. B c \<Longrightarrow> B' c) \<Longrightarrow> (\<And>f. U f \<Longrightarrow> U' f) \<Longrightarrow> op_ok A' B' U' op"
  by (induction rule: op_ok.induct) auto

text \<open>No call that is under way will post a write any more.\<close>

definition writes_done :: "client sys \<Rightarrow> bool" where
  "writes_done y \<longleftrightarrow> ops_ok (op_ok no_write (\<lambda>_. True) (\<lambda>_. True)) y"

lemma close_call_after:
  assumes st: "sys_step client_machine (Call i CallClose) y = Some (ev, y')" and b: "before_close y" and w: "writes_done y"
  shows "after_close y'"
proof -
  have y': "y' = y\<lparr>y_app := (y_app y)(i := client_call CallClose (y_st y))\<rparr>"
    using st by (simp add: sys_step_def call_step_def split: if_splits)
  have "op_ok no_write (\<lambda>c. c \<noteq> ReqC) close_upd op" if "op \<in> set (y_app y j)" for op j
  proof -
    have "op_ok no_close (\<lambda>c. c \<noteq> ReqC) (\<lambda>_. False) op" "op_ok no_write (\<lambda>_. True) (\<lambda>_. True) op"
      using b w that unfolding before_close_def writes_done_def ops_ok_def by blast+
    from op_ok_conj [OF this] show ?thesis by (rule op_ok_mono) auto
  qed
  then have o: "ops_ok (op_ok no_write (\<lambda>c. c \<noteq> ReqC) close_upd) y" by (simp add: ops_ok_def)
  have "ops_ok (op_ok no_write (\<lambda>c. c \<noteq> ReqC) close_upd) y'"
    by (rule ops_ok_step [OF st o]) (use client_calls_no_write in \<open>metis machine_simps(3) client_api.distinct(11) label.inject(3)\<close>)
  then show ?thesis
    using b writes_first_none by (auto simp: before_close_def after_close_def y' posts_ok_def close_inv_def no_close_def)
qed

lemma after_close_step:
  assumes st: "sys_step client_machine lab y = Some (ev, y')" and a: "after_close y"
    and net: "\<And>d. lab = Reader (Some d) \<Longrightarrow> contype d = receive_kind" and calls: "\<And>i b. lab \<noteq> Call i (CallWrite b)"
  shows "after_close y'"
proof -
  have ops: "ops_ok (op_ok no_write (\<lambda>c. c \<noteq> ReqC) close_upd) y" and p: "posts_ok y"
    using a by (simp_all add: after_close_def)
  have ops': "ops_ok (op_ok no_write (\<lambda>c. c \<noteq> ReqC) close_upd) y'"
    by (rule ops_ok_step [OF st ops]) (use client_calls_no_write calls in \<open>metis machine_simps(3)\<close>)
  have p': "posts_ok y'" by (rule posts_ok_step [OF st p net])
  let ?inv = "\<lambda>y. close_inv (y_st y) \<and> (c_closepend (y_st y) \<longrightarrow> \<not> has_kind cwrite (y_ch y ReqC)) \<and> writes_first (y_ch y ReqC) \<and>
      (y_ch y OverC \<noteq> [] \<or> (\<exists>q. Over q \<in> set (todo (y_h y))) \<longrightarrow> c_closeack (y_st y))"
  have "losted (c_conn (y_st y')) \<or> ?inv y'"
  proof (cases "losted (c_conn (y_st y))")
    case True
    from st have "losted (c_conn (y_st y'))"
    proof (cases rule: state_step)
      case (turn rg d es)
      then show ?thesis using client_handle_closing(1) [of "fst rg" "snd rg" d "y_st y"] True by (auto simp: split_beta)
    next
      case (upd i f fs)
      then show ?thesis using ops_ok_head [OF ops upd(2)] True by (auto simp: close_upd_def client_frames)
    qed (use True in simp)
    then show ?thesis ..
  next
    case False
    then have c: "close_inv (y_st y)" "c_closepend (y_st y) \<Longrightarrow> \<not> has_kind cwrite (y_ch y ReqC)" "writes_first (y_ch y ReqC)"
      "y_ch y OverC \<noteq> [] \<Longrightarrow> c_closeack (y_st y)" "\<And>q. Over q \<in> set (todo (y_h y)) \<Longrightarrow> c_closeack (y_st y)"
      using a unfolding after_close_def by blast+
    show ?thesis
      using st
    proof (cases rule: sys_step_cases)
      case (turn rg d r s es)
      have h: "client_handle (fst rg) (snd rg) d (y_st y) = Some (s, es)" using turn(4) by (simp add: split_beta)
      have k: "contype d = cwrite \<Longrightarrow> \<not> c_closepend (y_st y)" using c(2) turn(3) by auto
      then have "cmove_ok (y_st y) (CPacket (fst rg) (snd rg) d)" using h by (auto simp: client_handle_def)
      then have i: "close_inv s" by (rule client_step_close_inv [OF c(1)]) (simp add: h)
      have w: "writes_first r" "contype d = cclose \<Longrightarrow> \<not> has_kind cwrite r" using c(3) turn(3) by auto
      have "\<not> has_kind cwrite r" if "c_closepend s"
        using that w(2) c(2) turn(3) client_handle_flags(1) [OF h] by (cases "contype d = cclose") (auto simp: keeps_flags_def)
      then show ?thesis
        using i w(1) c(4) turn(6) client_handle_closing(2) [OF h] client_handle_Over [OF h] by auto
    next
      case (perf rg e es q)
      have "e = Req x \<Longrightarrow> contype x \<noteq> cwrite" for x using p perf(2) by (simp add: posts_ok_def)
      then show ?thesis
        using c perf perform_ReqC [OF perf(3)] perform_OverC [OF perf(3)] by (cases e) (auto simp: writes_first_snoc)
    next
      case (api i k e fs q)
      have "no_write e" using ops_ok_head [OF ops api(2)] by simp
      then show ?thesis
        using c api perform_ReqC [OF api(3)] perform_OverC [OF api(3)]
        by (cases e) (auto simp: no_write_def writes_first_snoc)
    next
      case (rpost d p1)
      have "contype p1 = receive_kind" using p rpost(3) by (simp add: posts_ok_def)
      then show ?thesis using c rpost by (auto simp: writes_first_snoc)
    next
      case (recv i k alts fs ch f v r)
      have "op_ok no_write (\<lambda>c. c \<noteq> ReqC) close_upd (Select alts)" by (rule ops_ok_head [OF ops recv(2)])
      moreover have "(ch, f) \<in> set alts" using recv(3,4) by (metis nth_mem)
      ultimately have "ch \<noteq> ReqC" by auto
      then show ?thesis using c recv by (auto split: if_splits)
    next
      case (upd i k f fs)
      have "close_upd f" using ops_ok_head [OF ops upd(3)] by simp
      then obtain x where f: "f = (\<lambda>c. fst (client_Close x c))" by (auto simp: close_upd_def)
      then show ?thesis
        using c upd(4) client_Close_close_inv 
        by (auto simp: client_frames)
    next
      case (rread d r)
      then show ?thesis using c by auto
    qed (use c in \<open>auto simp: writes_first_snoc\<close>)
  qed
  then show ?thesis using ops' p' by (simp add: after_close_def)
qed

section \<open>Orderly sessions\<close>

text \<open>
  The applications make any calls but \<open>Close\<close> of the client at first; then comes one call of \<open>Close\<close>,
  when no call of \<open>Write\<close> has still to post; and after it no call of \<open>Write\<close> or \<open>Close\<close>. The flag says
  whether that call has been made.
\<close>

fun allowed :: "bool \<Rightarrow> mover \<Rightarrow> bool" where
  "allowed closed (ClientMoves (Call i CallClose)) \<longleftrightarrow> False"
| "allowed closed (ClientMoves (Call i (CallWrite p))) \<longleftrightarrow> \<not> closed"
| "allowed closed mv \<longleftrightarrow> True"

inductive orderly :: "int \<Rightarrow> client \<Rightarrow> server \<Rightarrow> bool \<Rightarrow> world \<Rightarrow> bool" for cid c0 s0 where
  orderly_start: "orderly cid c0 s0 False (world_start c0 s0)"
| orderly_move: "orderly cid c0 s0 b w \<Longrightarrow> allowed b mv \<Longrightarrow> world_move cid mv w = Some w' \<Longrightarrow> orderly cid c0 s0 b w'"
| orderly_close: "orderly cid c0 s0 False w \<Longrightarrow> writes_done (w_c w) \<Longrightarrow>
    world_move cid (ClientMoves (Call i CallClose)) w = Some w' \<Longrightarrow> orderly cid c0 s0 True w'"

lemma orderly_reach: "orderly cid c0 s0 b w \<Longrightarrow> world_reach cid c0 s0 w"
proof (induction rule: orderly.induct)
  case (orderly_move b w mv w')
  then show ?case using wreach_step world_move_step by metis
next
  case (orderly_close w i w')
  then show ?case using wreach_step world_move_step by metis
qed (rule wreach_start)

lemma client_move_step:
  assumes "world_move cid (ClientMoves lab) w = Some w'"
  obtains ev where "sys_step client_machine lab (w_c w) = Some (ev, w_c w')"
    and "\<And>d. lab = Reader (Some d) \<Longrightarrow> contype d = receive_kind"
proof -
  have ok: "received_ok (from_server w) lab" using assms by (simp split: if_splits)
  have k: "contype d = receive_kind" if "lab = Reader (Some d)" for d
    using ok that by (auto simp: from_server_def)
  obtain ev y where "sys_step client_machine lab (w_c w) = Some (ev, y)" "w_c w' = y"
    using assms by (auto split: if_splits)
  then show thesis using that [OF _ k] by blast
qed

lemma orderly_inv:
  assumes "orderly cid c0 s0 b w" and "at_work c0"
  shows "if b then after_close (w_c w) else before_close (w_c w)"
  using assms
proof (induction rule: orderly.induct)
  case orderly_start
  then show ?case by (simp add: before_close_def posts_ok_def ops_ok_def world_start_def sys_start_def at_work_def)
next
  case (orderly_move b w mv w')
  show ?case
  proof (cases mv)
    case (ClientMoves lab)
    obtain ev where st: "sys_step client_machine lab (w_c w) = Some (ev, w_c w')"
      "\<And>d. lab = Reader (Some d) \<Longrightarrow> contype d = receive_kind"
      using client_move_step orderly_move.hyps(3) ClientMoves by metis
    have ok: "lab \<noteq> Call i CallClose" "b \<Longrightarrow> lab \<noteq> Call i (CallWrite p)" for i p
      using orderly_move.hyps(2) ClientMoves by auto
    show ?thesis
      using orderly_move.IH [OF orderly_move.prems] before_close_step [OF st(1) _ st(2) ok(1)] after_close_step [OF st(1) _ st(2) ok(2)]
      by (cases b) simp_all
  next
    case (ServerMoves lab)
    then have "w_c w' = w_c w" using orderly_move.hyps(3) by (auto split: if_splits)
    then show ?thesis using orderly_move by simp
  qed
next
  case (orderly_close w i w')
  obtain ev where st: "sys_step client_machine (Call i CallClose) (w_c w) = Some (ev, w_c w')"
    using client_move_step [OF orderly_close.hyps(3)] by metis
  show ?case using close_call_after [OF st _ orderly_close.hyps(2)] orderly_close.IH [OF orderly_close.prems] by simp
qed

text \<open>What the server's handler has handed over to \<open>Read\<close>: returned, in \<open>reply\<close>, or about to be sent there.\<close>

definition handed_to_read :: "int \<Rightarrow> world \<Rightarrow> bytes list" where
  "handed_to_read cid w =
     w_sgot w @ List.map_filter (server_got cid) (y_ch (w_s w) ReplyC) @
       List.map_filter (reply_payload cid) (todo (y_h (w_s w)))"

lemma orderly_delivered:
  assumes o: "orderly cid c0 s0 True w" and c: "client_fresh cid W c0" "at_work c0" and s: "server_fresh cid W s0"
    and over: "y_ch (w_c w) OverC \<noteq> []" and up: "\<not> losted (c_conn (y_st (w_c w)))"
    and v: "fmlookup (s_conn (y_st (w_s w))) cid = Some v"
  shows "prefix (handed_to_read cid w) (w_cput w)"
    and "int (length (handed_to_read cid w)) < n \<Longrightarrow> n \<le> int (length (w_cput w)) \<Longrightarrow>
      fmlookup (readbuf v) n = Some (wmsg cid (w_cput w) n)"
proof -
  have a: "close_inv (y_st (w_c w))" "c_closeack (y_st (w_c w))" "c_closepend (y_st (w_c w)) \<Longrightarrow> \<not> has_kind cwrite (y_ch (w_c w) ReqC)"
    using orderly_inv [OF o c(2)] over up unfolding after_close_def by auto
  have e: "databuf (c_conn (y_st (w_c w))) = fmempty" "writebuf (c_conn (y_st (w_c w))) = fmempty"
    "\<not> has_kind cwrite (y_ch (w_c w) ReqC)"
    using a up by (auto simp: close_inv_def close_ready_def)
  obtain lu where l: "up_reach cid c0 s0 lu" "csend.sends (w_c w) lu (w_cacc w) (w_up w)"
      "srecv.receives cid (w_s w) lu (w_sgot w) (w_dn w)"
    and put: "w_cput w = w_cacc w @ List.map_filter val_wr (y_ch (w_c w) ReqC)"
    using world_reach_inv [OF orderly_reach [OF o]] unfolding world_inv_def by blast
  have h: "l_hist lu = w_cput w" "l_snd lu = y_st (w_c w)"
    using l(2) put no_kind_no_writes [OF e(3)] by (simp_all add: csend.sends_def)
  have r: "l_out lu = handed_to_read cid w" "l_rcv lu = y_st (w_s w)"
    using l(3) by (simp_all add: srecv.receives_def handed_to_read_def)
  have "\<exists>n. handed_to_read cid w = take n (w_cput w)" using up_prefix [where d = 0, OF l(1) c(1)] s h(1) r(1) by simp
  then show "prefix (handed_to_read cid w) (w_cput w)" using prefix_take by blast
  show "fmlookup (readbuf v) n = Some (wmsg cid (w_cput w) n)"
    if "int (length (handed_to_read cid w)) < n" "n \<le> int (length (w_cput w))"
    using up_arrived [where d = 0, OF l(1) c(1), of n v] s v e(1,2) h r that by (simp add: mhas_def)
qed

section \<open>A session that ends\<close>

text \<open>
  The run of \<open>LspWorldDemo\<close> goes on: the client gets its acknowledgement, its application calls \<open>Close\<close>,
  the next datagram sets \<open>closeack\<close>, and the answer is on \<open>over\<close>.
\<close>

lemma orderly_run:
  "world_run cid ls w = Some w' \<Longrightarrow> \<forall>mv \<in> set ls. allowed b mv \<Longrightarrow> orderly cid c0 s0 b w \<Longrightarrow> orderly cid c0 s0 b w'"
proof (induction ls arbitrary: w)
  case (Cons mv ls)
  then obtain w1 where w1: "world_move cid mv w = Some w1" "world_run cid ls w1 = Some w'"
    by (auto split: option.splits)
  show ?case by (rule Cons.IH [OF w1(2)]) (use Cons.prems orderly_move [OF _ _ w1(1)] in auto)
qed simp

definition demo_acked :: "mover list" where
  "demo_acked = map ClientMoves
     ([Handler demo_orders0, Handler demo_orders0] @ read_one (Pkt (Some (NewAck 1 1)) (Some ''srv'') receive_kind) @
      replicate 3 (Handler demo_orders0))"

definition demo_ends :: "mover list" where
  "demo_ends = map ClientMoves
     ([App 0 0] @ replicate 3 (Handler demo_orders0) @ read_one (keepalive 1) @ replicate 6 (Handler demo_orders0))"

definition demo_world3 :: world where
  "demo_world3 = demo_world2\<lparr>w_c := (sys_start demo_client2 (\<lambda>_. []))\<lparr>y_h := HTake\<rparr>\<rparr>"

definition demo_world4 :: world where
  "demo_world4 = demo_world2\<lparr>w_c := (sys_start (demo_client2\<lparr>c_closepend := True, c_closeack := True\<rparr>)
       ((\<lambda>_. [])(0 := [Select [(OverC, close_rest)]])))\<lparr>y_h := HTurn [], y_ch := (\<lambda>_. [])(OverC := [VPkt (Pkt None None 5)])\<rparr>\<rparr>"

lemma demo_client2_facts:
  "estab (c_conn demo_client2)" "\<not> losted (c_conn demo_client2)" "\<not> c_closepend demo_client2" "\<not> c_closeack demo_client2"
  by (simp_all add: demo_client2_def demo_ack_def client_handle_def client_handleReceive_def Let_def
      client_ack_def ack_in_window_def ack_slide_def slide.simps refill.simps demo_client1_eq demo_defs)

lemma demo_acked_run: "world_run 1 demo_acked demo_world2 = Some demo_world3"
proof -
  have "client_handle [] [] (Pkt (Some (NewAck 1 1)) (Some ''srv'') receive_kind) demo_client1 = Some (demo_client2, [])"
    using demo_client2_step by (simp add: demo_ack_def client_handle_def)
  then show ?thesis
    by (simp add: demo_acked_def demo_world3_def demo_world2_def demo_world1_def world_start_def sys_start_def read_one_def
        run_defs eval_nat_numeral from_server_def demo_orders0_def client_wr_def)
qed

lemma demo_ends_run:
  "\<exists>w. world_move 1 (ClientMoves (Call 0 CallClose)) demo_world3 = Some w \<and> world_run 1 demo_ends w = Some demo_world4"
proof -
  let ?c1 = "demo_client2\<lparr>c_closepend := True\<rparr>" and ?c2 = "demo_client2\<lparr>c_closepend := True, c_closeack := True\<rparr>"
  have 1: "client_handle [] [] (Pkt None None 7) demo_client2 = Some (?c1, [])"
    using demo_client2_facts by (simp add: client_handle_def client_handleClose_def Let_def)
  have 2: "client_handle [] [] (keepalive 1) ?c1 = Some (?c2, [Req (Pkt None None 7)])"
    using demo_client2_empty by (simp add: client_handle_def client_handleReceive_def keepalive_def NewAck_def)
  have 3: "client_handle [] [] (Pkt None None 7) ?c2 = Some (?c2, [Over (Pkt None None 5)])"
    using demo_client2_facts by (simp add: client_handle_def client_handleClose_def Let_def)
  have k: "from_server w (keepalive 1)" for w
    by (simp add: from_server_def keepalive_def client_datan_def client_ackn_def NewAck_def)
  have n: "contype (keepalive 1) = receive_kind" by (simp add: keepalive_def)
  show ?thesis
    using 1 2 3
    by (simp add: demo_ends_def demo_world3_def demo_world4_def demo_world2_def demo_world1_def world_start_def sys_start_def
        read_one_def run_defs eval_nat_numeral demo_orders0_def client_wr_def k n split: option.splits)
qed

lemma demo_world4_orderly: "orderly 1 demo_client demo_server True demo_world4"
proof -
  have "orderly 1 demo_client demo_server False demo_world1"
    by (rule orderly_run [OF demo_world1_run _ orderly_start]) (simp add: demo_sends_def)
  then have "orderly 1 demo_client demo_server False demo_world2"
    by (rule orderly_run [OF demo_world2_run, rotated]) (simp add: demo_receives_def)
  then have w3: "orderly 1 demo_client demo_server False demo_world3"
    by (rule orderly_run [OF demo_acked_run, rotated]) (simp add: demo_acked_def read_one_def)
  obtain w where w: "world_move 1 (ClientMoves (Call 0 CallClose)) demo_world3 = Some w" "world_run 1 demo_ends w = Some demo_world4"
    using demo_ends_run by blast
  have "writes_done (w_c demo_world3)" by (simp add: writes_done_def ops_ok_def demo_world3_def sys_start_def)
  from orderly_close [OF w3 this w(1)] show ?thesis
    by (rule orderly_run [OF w(2), rotated]) (simp add: demo_ends_def read_one_def)
qed

end
