(* ===== verification/LspNewClient.thy ===== *)
theory LspNewClient
  imports LspWorldDemo LspMore
begin

text \<open>
  \<open>NewClient\<close> among the goroutines. It posts its packet and waits for a signal on \<open>lost\<close> or \<open>build\<close>.
  The handler signals \<open>build\<close> for an acknowledgement number 0, and nothing signals \<open>lost\<close>: without such
  an acknowledgement \<open>NewClient\<close> waits on, however many epochs pass.
\<close>

section \<open>The answer that NewClient waits for\<close>

definition accepts :: "Packet \<Rightarrow> bool" where
  "accepts p \<longleftrightarrow> contype p = receive_kind \<and> (\<exists>m. msg p = Some m \<and> Type m = MsgAck \<and> SeqNum m = 0)"

lemma client_handle_Build:
  assumes h: "client_handle oa od p c = Some (c', es)" and b: "Build \<in> set es"
  shows "accepts p"
proof -
  have "Build \<notin> set (snd (client_Close x c1))" for x c1
    by (auto simp: client_Close_def Connect_close_def split: option.splits)
  then have "Build \<notin> set (snd (client_handleEpoch oa od c))"
    by (auto simp: client_handleEpoch_def client_lost_def Let_def split_beta)
  moreover have "Build \<in> set (snd (client_handleReceive m c)) \<Longrightarrow> Type m = MsgAck \<and> SeqNum m = 0" for m
    by (auto simp: client_handleReceive_def client_ack_def client_data_def Let_def split_beta split: if_splits MsgType.splits)
  moreover have "Build \<notin> set (snd (client_handleRead c))"
    by (auto simp: client_handleRead_def split: option.split)
  moreover have "Build \<notin> set (snd (client_handleWrite d c))" for d
    by (auto simp: client_handleWrite_def Let_def split_beta)
  moreover have "Build \<notin> set (snd (client_handleClose c))"
    by (auto simp: client_handleClose_def Let_def)
  ultimately show ?thesis
    using h b by (auto simp: client_handle_def client_handleEstab_def accepts_def split: if_splits) (metis snd_conv)+
qed

lemma client_handle_Lost: "client_handle oa od p c = Some (c', es) \<Longrightarrow> Lost \<notin> set es"
  using client_step_Lost [of "CPacket oa od p" c c' es] by simp

section \<open>Waiting\<close>

definition signal_wait :: "client op" where
  "signal_wait = Select [(LostC, \<lambda>_ c. map Do (snd (NewClient_wait LostSignal c))), (BuildC, \<lambda>_ _. [Upd built])]"

definition connect_pkt :: Packet where
  "connect_pkt = Pkt (Some zero_Message) None cconnects"

definition starting :: "client sys \<Rightarrow> bool" where
  "starting y \<longleftrightarrow> (y_app y 0 = [Do (Req connect_pkt), signal_wait] \<or> y_app y 0 = [signal_wait]) \<and> (\<forall>i. i \<noteq> 0 \<longrightarrow> y_app y i = []) \<and>
     y_ch y BuildC = [] \<and> y_ch y LostC = [] \<and> Build \<notin> set (todo (y_h y)) \<and> Lost \<notin> set (todo (y_h y)) \<and>
     (\<forall>p \<in> held y. \<not> accepts p) \<and> (\<forall>q. Req q \<in> set (todo (y_h y)) \<longrightarrow> \<not> accepts q)"

lemma starting_start:
  assumes "NewClient_start resolved dialled parm = Some (c, es)"
  shows "starting (sys_start c ((\<lambda>_. [])(0 := new_client_ops es)))"
proof -
  have "es = [Req connect_pkt]"
    using assms by (auto simp: NewClient_start_def Let_def connect_pkt_def split: option.splits)
  then show ?thesis by (simp add: starting_def sys_start_def new_client_ops_def signal_wait_def held_def)
qed

lemma perform_signals:
  assumes "perform cap e q = Some q'" and "e \<noteq> Build" and "e \<noteq> Lost"
  shows "q' BuildC = q BuildC \<and> q' LostC = q LostC"
  using assms by (cases rule: perform_cases) (cases e; auto)+

lemma starting_step:
  assumes st: "sys_step client_machine lab y = Some (ev, y')" and s: "starting y"
    and net: "\<And>p. lab = Reader (Some p) \<Longrightarrow> \<not> accepts p" and calls: "\<And>i a. lab \<noteq> Call i a"
  shows "starting y'"
proof -
  have app: "y_app y i \<noteq> [] \<Longrightarrow> i = 0" for i using s unfolding starting_def by blast
  have f: "y_ch y BuildC = []" "y_ch y LostC = []" "Build \<notin> set (todo (y_h y))" "Lost \<notin> set (todo (y_h y))"
    "\<And>p. p \<in> held y \<Longrightarrow> \<not> accepts p" "\<And>q. Req q \<in> set (todo (y_h y)) \<Longrightarrow> \<not> accepts q"
    using s unfolding starting_def by blast+
  have own: "\<not> accepts connect_pkt" "\<not> accepts (Pkt None None timer)" by (simp_all add: accepts_def connect_pkt_def)
  have h: "\<not> accepts p" if "p \<in> held y'" for p
    using held_step [OF st that]
  proof (elim disjE)
    assume "ev = Performed (Req p)"
    then have "Req p \<in> set (todo (y_h y))" using todo_step [OF st] by auto
    then show ?thesis by (rule f(6))
  next
    assume "ev = Api (Req p)"
    then obtain i fs where i: "y_app y i = Do (Req p) # fs" using api_step st by blast
    then have "i = 0" by (intro app) simp
    then have "p = connect_pkt" using s i by (auto simp: starting_def signal_wait_def)
    then show ?thesis using own by simp
  qed (use f(5) own net in auto)
  show ?thesis
    using st
  proof (cases rule: sys_step_cases)
    case (turn rg p r c es)
    have t: "client_handle (fst rg) (snd rg) p (y_st y) = Some (c, es)" using turn(4) by (simp add: split_beta)
    have "\<not> accepts p" by (rule f(5)) (simp add: held_def turn(3))
    moreover have "\<not> accepts q" if "Req q \<in> set es" for q
      using client_handle_posts [OF t that] by (auto simp: accepts_def)
    ultimately show ?thesis
      using s h turn(6) client_handle_Build [OF t] client_handle_Lost [OF t] by (auto simp: starting_def)
  next
    case (perf rg e es q)
    have "e \<noteq> Build" "e \<noteq> Lost" using f(3,4) perf(2) by auto
    then show ?thesis using s h perf perform_signals [OF perf(3)] by (auto simp: starting_def)
  next
    case (hsel rg g r v)
    then have "todo g = []" by auto
    then show ?thesis using s h hsel by (auto simp: starting_def)
  next
    case (call i c)
    then show ?thesis using calls by simp
  next
    case (api i k e fs q)
    have i: "i = 0" by (rule app [of i]) (simp add: api(2))
    then have e: "e = Req connect_pkt" "fs = [signal_wait]" using s api(2) by (auto simp: starting_def signal_wait_def)
    then show ?thesis using s h api i perform_signals [OF api(3)] by (auto simp: starting_def)
  next
    case (recv i k alts fs ch g v r)
    have i: "i = 0" by (rule app [of i]) (simp add: recv(2))
    then have "alts = [(LostC, \<lambda>_ c. map Do (snd (NewClient_wait LostSignal c))), (BuildC, \<lambda>_ _. [Upd built])]"
      using s recv(2) by (auto simp: starting_def signal_wait_def)
    then have "ch = LostC \<or> ch = BuildC" using recv(3,4) by (auto simp: less_Suc_eq)
    then show ?thesis using f(1,2) recv(5) by auto
  next
    case (upd i k g fs)
    have i: "i = 0" by (rule app [of i]) (simp add: upd(3))
    then show ?thesis using s upd(3) by (auto simp: starting_def signal_wait_def)
  qed (use s h in \<open>auto simp: starting_def\<close>)
qed

lemma starting_run:
  assumes "sys_run client_machine labs y = Some y'" and "starting y"
    and "\<And>p. Reader (Some p) \<in> set labs \<Longrightarrow> \<not> accepts p" and "\<And>i a. Call i a \<notin> set labs"
  shows "starting y'"
  using assms
proof (induction labs arbitrary: y)
  case (Cons lab labs)
  obtain ev y1 where y1: "sys_step client_machine lab y = Some (ev, y1)" "sys_run client_machine labs y1 = Some y'"
    using Cons.prems(1) by (auto split: option.splits)
  have "starting y1" by (rule starting_step [OF y1(1) Cons.prems(2)]) (use Cons.prems(3,4) in auto)
  then show ?case by (rule Cons.IH [OF y1(2)]) (use Cons.prems(3,4) in auto)
qed simp

section \<open>Epochs without an answer\<close>

text \<open>A run of \<open>n\<close> epochs in which \<open>Connect\<close> is sent and nothing comes back.\<close>

definition connect_epoch :: "(int list \<times> int list, client_api) label list" where
  "connect_epoch = [TimerTick, TimerPost] @ replicate 4 (Handler demo_orders0)"

definition try_connect :: "nat \<Rightarrow> (int list \<times> int list, client_api) label list" where
  "try_connect n = [App 0 0] @ replicate 5 (Handler demo_orders0) @ concat (replicate n connect_epoch)"

definition idle_start :: "client \<Rightarrow> client sys" where
  "idle_start c = (sys_start c ((\<lambda>_. [])(0 := [signal_wait])))\<lparr>y_h := HTake\<rparr>"

lemma connect_epoch_run:
  assumes "c_conId c = 0"
  shows "sys_run client_machine connect_epoch (idle_start c) =
    Some (idle_start (c\<lparr>c_conn := (c_conn c)\<lparr>lastrece := receive (c_conn c)\<rparr>\<rparr>))"
  using assms
  by (simp add: connect_epoch_def idle_start_def sys_start_def run_defs eval_nat_numeral demo_orders0_def client_handle_def
      client_handleEpoch_def)

lemma connect_epochs_run:
  "c_conId c = 0 \<Longrightarrow> \<exists>c'. sys_run client_machine (concat (replicate n connect_epoch)) (idle_start c) = Some (idle_start c') \<and> c_conId c' = 0"
proof (induction n arbitrary: c)
  case (Suc n)
  obtain c' where "sys_run client_machine (concat (replicate n connect_epoch))
      (idle_start (c\<lparr>c_conn := (c_conn c)\<lparr>lastrece := receive (c_conn c)\<rparr>\<rparr>)) = Some (idle_start c')" "c_conId c' = 0"
    using Suc.IH [of "c\<lparr>c_conn := (c_conn c)\<lparr>lastrece := receive (c_conn c)\<rparr>\<rparr>"] Suc.prems by auto
  then show ?case by (auto simp: sys_run_append connect_epoch_run [OF Suc.prems])
qed auto

lemma try_connect_run:
  assumes "NewClient_start resolved dialled parm = Some (c, es)"
  shows "\<exists>y. sys_run client_machine (try_connect n) (sys_start c ((\<lambda>_. [])(0 := new_client_ops es))) = Some y"
proof -
  have es: "es = [Req connect_pkt]" "c_conId c = 0"
    using assms by (auto simp: NewClient_start_def Let_def connect_pkt_def new_client_def split: option.splits)
  have "sys_run client_machine ([App 0 0] @ replicate 5 (Handler demo_orders0)) (sys_start c ((\<lambda>_. [])(0 := new_client_ops es))) =
      Some (idle_start c)"
    by (simp add: es(1) new_client_ops_def signal_wait_def idle_start_def sys_start_def run_defs eval_nat_numeral demo_orders0_def
        client_handle_def client_handleEstab_def connect_pkt_def)
  then show ?thesis
    using connect_epochs_run [OF es(2), of n] unfolding try_connect_def append_assoc [symmetric] sys_run_append
    by auto
qed

end
