(* ===== verification/LspServerSystem.thy ===== *)
theory LspServerSystem
  imports LspWorldDemo LspServerSafe
begin

text \<open>
  A server as \<open>NewServer\<close> starts it, with its goroutines and any calls of the API, on a network that
  delivers what it likes. Every turn of its handler is a move of \<open>LspServerSafe\<close>, so the struct stays
  within the reachable states of that theory and the handler never runs into a nil pointer.
\<close>

section \<open>Packets under way\<close>

text \<open>The parts of a packet that its kind needs are there.\<close>

definition complete :: "Packet \<Rightarrow> bool" where
  "complete p \<longleftrightarrow> (contype p \<in> {closeconn, swrite, receive_kind} \<longrightarrow> msg p \<noteq> None) \<and> (contype p = receive_kind \<longrightarrow> paddr p \<noteq> None)"

definition complete_api :: "effect \<Rightarrow> bool" where
  "complete_api e \<longleftrightarrow> (\<forall>q. e = Req q \<longrightarrow> complete q)"

definition close_move :: "(server \<Rightarrow> server) \<Rightarrow> bool" where
  "close_move f \<longleftrightarrow> f = (\<lambda>s. fst (server_Close_start s)) \<or> (\<exists>x. f = (\<lambda>s. fst (server_Close_finish x s)))"

abbreviation server_op :: "server op \<Rightarrow> bool" where
  "server_op \<equiv> op_ok complete_api (\<lambda>c. c \<noteq> ReqC) close_move"

lemma server_calls_complete:
  assumes "op \<in> set (server_call c s)"
  shows "server_op op"
proof -
  have "server_op o1" if "o1 \<in> set (sclose_rest v t)" for o1 v t
    using that server_Close_finish_rest by (fastforce simp: sclose_rest_def complete_api_def close_move_def split: val.splits)
  then show ?thesis
    using assms
    by (cases c) (auto simp: server_Read_start_def server_Write_start_def server_CloseConn_start_def server_Close_start_def
        complete_api_def complete_def close_move_def split: if_splits)
qed

section \<open>The system\<close>

text \<open>The application writes only to established connections: so it is when the handler takes the packet.\<close>

definition write_known :: "server sys \<Rightarrow> bool" where
  "write_known y \<longleftrightarrow> (\<forall>p r m. y_ch y ReqC = VPkt p # r \<longrightarrow> contype p = swrite \<longrightarrow> msg p = Some m \<longrightarrow>
     \<not> mhas (s_pendconn (y_st y)) (ConnID m))"

inductive server_system :: "Params \<Rightarrow> server sys \<Rightarrow> bool" for parm where
  system_start: "NewServer (Some a) (Some k) parm = Some s \<Longrightarrow> server_system parm (sys_start s (\<lambda>_. []))"
| system_step: "server_system parm y \<Longrightarrow> write_known y \<Longrightarrow> sys_step server_machine lab y = Some (ev, y') \<Longrightarrow>
    (\<And>p. lab = Reader (Some p) \<Longrightarrow> \<exists>m a. p = Pkt (Some m) (Some a) receive_kind) \<Longrightarrow> server_system parm y'"

definition server_system_inv :: "Params \<Rightarrow> server sys \<Rightarrow> bool" where
  "server_system_inv parm y \<longleftrightarrow> server_reach parm (y_st y) \<and> y_h y \<noteq> HPanic \<and> ops_ok server_op y \<and>
     (\<forall>p \<in> held y. complete p) \<and> (\<forall>q. Req q \<in> set (todo (y_h y)) \<longrightarrow> complete q)"

lemma server_system_held:
  assumes st: "sys_step server_machine lab y = Some (ev, y')" and inv: "server_system_inv parm y"
    and net: "\<And>p. lab = Reader (Some p) \<Longrightarrow> \<exists>m a. p = Pkt (Some m) (Some a) receive_kind" and p: "p \<in> held y'"
  shows "complete p"
  using held_step [OF st p]
proof (elim disjE)
  assume "ev = Performed (Req p)"
  then have "Req p \<in> set (todo (y_h y))" using todo_step [OF st] by auto
  then show ?thesis using inv by (simp add: server_system_inv_def)
next
  assume "ev = Api (Req p)"
  then obtain i ops where "y_app y i = Do (Req p) # ops" using api_step st by blast
  then have "server_op (Do (Req p))" using inv ops_ok_head unfolding server_system_inv_def by blast
  then show ?thesis by (simp add: complete_api_def)
next
  assume "lab = Reader (Some p)"
  then show ?thesis using net by (auto simp: complete_def)
qed (use inv in \<open>auto simp: server_system_inv_def complete_def\<close>)

lemma server_turn:
  assumes inv: "server_system_inv parm y" and q: "y_ch y ReqC = VPkt p # r" and w: "write_known y"
  shows "\<exists>s es. server_handle rg p (y_st y) = Some (s, es) \<and> server_reach parm s"
proof -
  have "complete p" using inv q by (auto simp: server_system_inv_def held_def)
  then have ok: "move_ok (y_st y) (SPacket rg p)"
    using w q by (auto simp: complete_def write_known_def split: option.splits)
  have "srv_wf (y_st y)" using inv server_reach_wf by (auto simp: server_system_inv_def)
  then obtain s es where "server_step (SPacket rg p) (y_st y) = Some (s, es)"
    using server_step_safe [OF _ ok] by (auto elim!: safelyE)
  moreover have "server_reach parm (y_st y)" using inv by (simp add: server_system_inv_def)
  ultimately show ?thesis using reach_move [OF _ ok] by auto
qed

lemma server_system_step:
  assumes st: "sys_step server_machine lab y = Some (ev, y')" and inv: "server_system_inv parm y" and w: "write_known y"
    and net: "\<And>p. lab = Reader (Some p) \<Longrightarrow> \<exists>m a. p = Pkt (Some m) (Some a) receive_kind"
  shows "server_system_inv parm y'"
proof -
  have ops: "ops_ok server_op y" and r: "server_reach parm (y_st y)" and np: "y_h y \<noteq> HPanic"
    using inv by (simp_all add: server_system_inv_def)
  have ops': "ops_ok server_op y'"
    by (rule ops_ok_step [OF st ops]) (use server_calls_complete in \<open>metis machine_simps(6)\<close>)
  have held': "\<forall>p \<in> held y'. complete p" using server_system_held [OF st inv net] by blast
  have r': "server_reach parm (y_st y')"
    using st
  proof (cases rule: sys_step_cases)
    case (turn rg p t s es)
    then show ?thesis using server_turn [OF inv turn(3) w, of rg] by auto
  next
    case (upd i k f fs)
    have "close_move f" using ops_ok_head [OF ops upd(3)] by simp
    then obtain mv where "server_step mv (y_st y) = Some (f (y_st y), snd (the (server_step mv (y_st y))))" "move_ok (y_st y) mv"
      by (metis close_move_def move_ok.simps(2,3) option.sel prod.collapse server_step.simps(2,3))
    then show ?thesis using reach_move [OF r] upd(4) by auto
  qed (use r in auto)
  have np': "y_h y' \<noteq> HPanic"
    using st
  proof (cases rule: sys_step_cases)
    case (panic rg p t)
    then show ?thesis using server_turn [OF inv panic(5) w, of rg] by simp
  qed (use np in auto)
  have "complete q" if q: "Req q \<in> set (todo (y_h y'))" for q
    using todo_step [OF st]
  proof (elim disjE exE conjE)
    fix p assume t: "ev = Turn p (todo (y_h y'))"
    then obtain rg where "m_handle server_machine rg p (y_st y) = Some (y_st y', todo (y_h y'))"
      by (cases rule: sys_step_cases [OF st]) auto
    then show ?thesis using server_handle_posts [of rg p "y_st y" "y_st y'" "todo (y_h y')" q] q by (auto simp: complete_def)
  next
    fix e assume "todo (y_h y) = e # todo (y_h y')"
    then show ?thesis using inv q by (auto simp: server_system_inv_def)
  next
    assume "todo (y_h y') = todo (y_h y)"
    then show ?thesis using inv q by (auto simp: server_system_inv_def)
  qed
  then show ?thesis using r' np' ops' held' by (simp add: server_system_inv_def)
qed

lemma server_system_safe: "server_system parm y \<Longrightarrow> server_system_inv parm y"
proof (induction rule: server_system.induct)
  case (system_start a k s)
  have "server_reach parm s" by (rule reach_new [OF system_start])
  then show ?case by (simp add: server_system_inv_def sys_start_def ops_ok_def held_def)
next
  case (system_step y lab ev y')
  show ?case by (rule server_system_step [OF system_step(3) system_step.IH system_step(2,4)])
qed

section \<open>A short run\<close>

text \<open>The server starts, its reader takes a \<open>Connect\<close>, and the handler has just accepted it.\<close>

definition demo_listening :: server where
  "demo_listening = the (NewServer (Some \<lparr>naddr = '':9999''\<rparr>) (Some \<lparr>nconn = 0\<rparr>) NewParams)"

lemma demo_accepting_run:
  "\<exists>y. server_system NewParams y \<and> y_h y = HTurn [Ssend (NewAck 1 0) ''cli''] \<and> fmlookup (s_addmap (y_st y)) ''cli'' = Some 1"
proof -
  let ?p = "Pkt (Some NewConnect) (Some ''cli'') receive_kind"
  have new: "NewServer (Some \<lparr>naddr = '':9999''\<rparr>) (Some \<lparr>nconn = 0\<rparr>) NewParams = Some demo_listening"
    by (simp add: demo_listening_def NewServer_def server_listen_def Let_def)
  have f: "s_addmap demo_listening = fmempty" "s_connCt demo_listening = 1" "s_closepend demo_listening = fmempty"
    by (simp_all add: demo_listening_def NewServer_def server_listen_def Let_def new_server_def)
  obtain s where s: "server_handle demo_orders ?p demo_listening = Some (s, [Ssend (NewAck 1 0) ''cli''])"
    "fmlookup (s_addmap s) ''cli'' = Some 1"
    by (simp add: server_handle_def server_handleReceive_def recv_connect_def ssend_def Let_def NewConnect_def mget_def f)
  let ?y0 = "sys_start demo_listening (\<lambda>_. [])"
  let ?y1 = "?y0\<lparr>y_r := RRead\<rparr>" and ?y2 = "?y0\<lparr>y_r := RPost ?p\<rparr>"
  let ?y3 = "?y0\<lparr>y_ch := (\<lambda>_. [])(ReqC := [VPkt ?p])\<rparr>" and ?y4 = "?y0\<lparr>y_ch := (\<lambda>_. [])(ReqC := [VPkt ?p]), y_h := HTake\<rparr>"
  let ?y5 = "?y0\<lparr>y_st := s, y_h := HTurn [Ssend (NewAck 1 0) ''cli'']\<rparr>"
  have w: "write_known y" if "y \<in> {?y0, ?y1, ?y2, ?y3, ?y4}" for y
    using that by (auto simp: write_known_def sys_start_def)
  have y0: "server_system NewParams ?y0" by (rule system_start [OF new])
  have y1: "server_system NewParams ?y1"
    by (rule system_step [where lab = "Reader None" and ev = Silent, OF y0 w]) (simp_all add: run_defs sys_start_def)
  have y2: "server_system NewParams ?y2"
    by (rule system_step [where lab = "Reader (Some ?p)" and ev = Silent, OF y1 w]) (simp_all add: run_defs sys_start_def)
  have y3: "server_system NewParams ?y3"
    by (rule system_step [where lab = "Reader None" and ev = Silent, OF y2 w]) (simp_all add: run_defs sys_start_def)
  have y4: "server_system NewParams ?y4"
    by (rule system_step [where lab = "Handler demo_orders" and ev = Silent, OF y3 w]) (simp_all add: run_defs sys_start_def)
  have "server_system NewParams ?y5"
    by (rule system_step [where lab = "Handler demo_orders" and ev = "Turn ?p [Ssend (NewAck 1 0) ''cli'']", OF y4 w])
      (use s in \<open>simp_all add: run_defs sys_start_def\<close>)
  then show ?thesis using s(2) by (intro exI [of _ ?y5]) simp
qed

end
