(* ===== verification/LspGoClaims.thy ===== *)
theory LspGoClaims
  imports LspWorldClose LspNewClient LspServerSystem
begin

text \<open>
  The properties of clients and servers as systems of goroutines with bounded channels: what the
  applications see through the API, and the states in which goroutines wait for ever.
\<close>

lemma demo_client_at_work: "at_work demo_client" "conn (c_conn demo_client) \<noteq> None"
  "receive (c_conn demo_client) = lastrece (c_conn demo_client)" "EpochLimit (params (c_conn demo_client)) = int (Suc 4)"
  by (simp_all add: at_work_def demo_defs NewConnection_def NewParams_def DefaultEpochLimit_def)

section \<open>Delivery between the applications\<close>



text \<open>
  C2. When \<open>Close\<close> of the client gets its answer and the connection is not lost, everything that was
  written has arrived: what the server has handed over to \<open>Read\<close> is a prefix of what \<open>Write\<close> was given,
  and all the rest lies ready in the connection's \<open>readbuf\<close>. The application is orderly: it calls
  \<open>Close\<close> once, with no \<open>Write\<close> still to post, and neither of them afterwards.
\<close>

theorem close_after_delivery:
  assumes "client_fresh cid W c0" and "at_work c0" and "server_fresh cid W s0" and "orderly cid c0 s0 True w"
    and "sys_step client_machine (App i k) (w_c w) = Some (Received OverC x, y)" and "\<not> losted (c_conn (y_st (w_c w)))"
    and "fmlookup (s_conn (y_st (w_s w))) cid = Some v"
  shows "prefix (handed_to_read cid w) (w_cput w) \<and>
    (\<forall>n. int (length (handed_to_read cid w)) < n \<longrightarrow> n \<le> int (length (w_cput w)) \<longrightarrow>
       fmlookup (readbuf v) n = Some (NewData cid n (w_cput w ! nat (n - 1))))"
proof -
  have "y_ch (w_c w) OverC \<noteq> []" using assms(5) by (cases rule: sys_step_cases) auto
  from orderly_delivered [OF assms(4,1,2,3) this assms(6,7)] show ?thesis by (simp add: wmsg_def)
qed

theorem close_after_delivery_witness:
  "prefix (handed_to_read 1 demo_world4) [''hi''] \<and> handed_to_read 1 demo_world4 = [''hi'']"
proof -
  obtain y where y: "sys_step client_machine (App 0 0) (w_c demo_world4) = Some (Received OverC (VPkt (Pkt None None 5)), y)"
    by (simp add: demo_world4_def sys_start_def run_defs)
  have f: "y_st (w_s demo_world4) = demo_server2" "w_cput demo_world4 = [''hi'']" "\<not> losted (c_conn (y_st (w_c demo_world4)))"
    "handed_to_read 1 demo_world4 = [''hi'']"
    using demo_client2_facts
    by (simp_all add: demo_world4_def demo_world2_def demo_world1_def world_start_def sys_start_def handed_to_read_def NewData_def)
  obtain v where "fmlookup (s_conn demo_server2) 1 = Some v" using demo_server2_conn by (auto simp: mhas_def)
  then show ?thesis
    using close_after_delivery [OF demo_client_fresh demo_client_at_work(1) demo_server_fresh demo_world4_orderly y] f by simp
qed

section \<open>The server keeps running\<close>

text \<open>
  C13. The goroutines of a server never run into a nil pointer: from \<open>NewServer\<close> on, whatever datagrams
  arrive, whoever calls the API and however the goroutines are scheduled, the handler has not
  panicked and the struct is in a state that its turns can reach, as long as the packets of \<open>Write\<close>
  that the handler takes are for established connections.
\<close>

theorem server_goroutines_safe:
  assumes "server_system parm y"
  shows "y_h y \<noteq> HPanic \<and> server_reach parm (y_st y)"
  using server_system_safe [OF assms] by (simp add: server_system_inv_def)

theorem server_goroutines_safe_witness:
  "\<exists>y. server_system NewParams y \<and> y_h y = HTurn [Ssend (NewAck 1 0) ''cli''] \<and> server_reach NewParams (y_st y)"
  using demo_accepting_run server_goroutines_safe by blast

section \<open>Goroutines that wait for ever\<close>

text \<open>
  C15. The handler of a client can block on its own queue. It posts packets to \<open>req\<close>, from which only
  it receives: a schedule in which the reader fills the 1000 places of \<open>req\<close> with datagrams while the
  handler takes one data message leaves the handler at its own send, and no continuation whatever,
  with any calls of the API, gets it beyond that.
\<close>

theorem client_blocks_on_its_queue:
  assumes "client_fresh cid W c" and "at_work c"
  shows "\<exists>labs y. sys_run client_machine labs (sys_start c (\<lambda>_. [])) = Some y \<and>
    (\<forall>labs' y'. sys_run client_machine labs' y = Some y' \<longrightarrow>
       y_h y' = HTurn [Req cread_pkt] \<and> length (y_ch y' ReqC) = 1000)"
proof -
  obtain y where y: "sys_run client_machine (flood cid) (sys_start c (\<lambda>_. [])) = Some y"
    "y_h y = HTurn [Req cread_pkt]" "length (y_ch y ReqC) = 1000" "y_app y = (\<lambda>_. [])"
    using flood_run [OF assms] by blast
  have "y_h y' = HTurn [Req cread_pkt] \<and> length (y_ch y' ReqC) = 1000"
    if "sys_run client_machine labs' y = Some y'" for labs' y'
    using stuck_run [where A = "\<lambda>_. True" and U = "\<lambda>_. True", OF that y(2), of ReqC] y(3) idle_ops_ok [OF y(4)] client_calls_req
    by simp
  then show ?thesis using y(1) by blast
qed

theorem client_blocks_on_its_queue_witness:
  "\<exists>labs y. sys_run client_machine labs (sys_start demo_client (\<lambda>_. [])) = Some y \<and> y_h y = HTurn [Req cread_pkt]"
proof -
  obtain labs y where "sys_run client_machine labs (sys_start demo_client (\<lambda>_. [])) = Some y"
    "\<forall>labs' y'. sys_run client_machine labs' y = Some y' \<longrightarrow> y_h y' = HTurn [Req cread_pkt] \<and> length (y_ch y' ReqC) = 1000"
    using client_blocks_on_its_queue [OF demo_client_fresh demo_client_at_work(1)] by blast
  moreover have "sys_run client_machine [] y = Some y" by simp
  ultimately show ?thesis by blast
qed

text \<open>
  C16. Messages that the application does not read block the client: after 100 of them \<open>replyread\<close> is
  full, the handler waits to send the next, and whatever else happens, as long as nobody calls \<open>Read\<close>
  a call of \<open>Close\<close> does not return.
\<close>

theorem unread_messages_block_close:
  assumes "client_fresh cid W c" and "at_work c"
  shows "\<exists>labs y m. sys_run client_machine labs (sys_start c (\<lambda>_. [])) = Some y \<and>
    length (y_ch y ReplyreadC) = 100 \<and> y_h y = HTurn [hand_over m] \<and> y_app y = (\<lambda>_. []) \<and>
    (\<forall>labs' y'. (\<forall>i. Call i CallRead \<notin> set labs') \<longrightarrow>
       sys_run client_machine (Call 0 CallClose # labs') y = Some y' \<longrightarrow> y_h y' = HTurn [hand_over m] \<and> y_app y' 0 \<noteq> [])"
proof -
  obtain labs y m where y: "sys_run client_machine labs (sys_start c (\<lambda>_. [])) = Some y" "y_h y = HTurn [hand_over m]"
    "length (y_ch y ReplyreadC) = 100" "y_ch y OverC = []" "y_app y = (\<lambda>_. [])"
    using unread_run [OF assms] by blast
  have "y_h y' = HTurn [hand_over m] \<and> y_app y' 0 \<noteq> []"
    if r: "\<forall>i. Call i CallRead \<notin> set labs'" "sys_run client_machine (Call 0 CallClose # labs') y = Some y'" for labs' y'
    using unread_close_waits [OF y(2-5) r] .
  then show ?thesis using y by blast
qed

theorem unread_messages_block_close_witness:
  "\<exists>labs y. sys_run client_machine labs (sys_start demo_client (\<lambda>_. [])) = Some y \<and> length (y_ch y ReplyreadC) = 100 \<and>
    y_app (y\<lparr>y_app := (y_app y)(0 := client_call CallClose (y_st y))\<rparr>) 0 \<noteq> []"
proof -
  obtain labs y m where y: "sys_run client_machine labs (sys_start demo_client (\<lambda>_. [])) = Some y"
    "length (y_ch y ReplyreadC) = 100" "y_h y = HTurn [hand_over m]" "y_app y = (\<lambda>_. [])"
    "\<forall>labs' y'. (\<forall>i. Call i CallRead \<notin> set labs') \<longrightarrow>
       sys_run client_machine (Call 0 CallClose # labs') y = Some y' \<longrightarrow> y_h y' = HTurn [hand_over m] \<and> y_app y' 0 \<noteq> []"
    using unread_messages_block_close [OF demo_client_fresh demo_client_at_work(1)] by metis
  have "sys_run client_machine [Call 0 CallClose] y = Some (y\<lparr>y_app := (y_app y)(0 := client_call CallClose (y_st y))\<rparr>)"
    using y(3,4) by (simp add: sys_step_def call_step_def)
  then show ?thesis using y(1,2) y(5) [rule_format, of "[]"] by auto
qed

text \<open>
  C37. Without an answer \<open>NewClient\<close> waits for ever: in every run of the goroutines that it starts, however
  many epochs pass and whatever is received except an acknowledgement number 0, the call has not
  returned and nothing is on \<open>lost\<close>.
\<close>

theorem newclient_waits_forever:
  assumes "NewClient_start resolved dialled parm = Some (c, es)"
    and "sys_run client_machine labs (sys_start c ((\<lambda>_. [])(0 := new_client_ops es))) = Some y"
    and "\<And>p. Reader (Some p) \<in> set labs \<Longrightarrow> \<not> accepts p" and "\<And>i a. Call i a \<notin> set labs"
  shows "y_app y 0 \<noteq> [] \<and> y_ch y LostC = []"
proof -
  have "starting y" by (rule starting_run [OF assms(2) starting_start [OF assms(1)] assms(3,4)])
  then show ?thesis by (auto simp: starting_def)
qed

theorem newclient_waits_forever_witness:
  "\<exists>c es y. NewClient_start (Some \<lparr>naddr = ''srv''\<rparr>) (Some \<lparr>nconn = 0\<rparr>) NewParams = Some (c, es) \<and>
    sys_run client_machine (try_connect 100) (sys_start c ((\<lambda>_. [])(0 := new_client_ops es))) = Some y \<and> y_app y 0 \<noteq> []"
proof -
  obtain c es where c: "NewClient_start (Some \<lparr>naddr = ''srv''\<rparr>) (Some \<lparr>nconn = 0\<rparr>) NewParams = Some (c, es)"
    by (simp add: NewClient_start_def dial_def Let_def)
  obtain y where y: "sys_run client_machine (try_connect 100) (sys_start c ((\<lambda>_. [])(0 := new_client_ops es))) = Some y"
    using try_connect_run [OF c] by blast
  have "Reader (Some p) \<notin> set (try_connect 100)" "Call i a \<notin> set (try_connect 100)" for p i a
    by (auto simp: try_connect_def connect_epoch_def)
  then have "y_app y 0 \<noteq> [] \<and> y_ch y LostC = []" by (intro newclient_waits_forever [OF c y]) blast+
  then show ?thesis using c y by blast
qed



text \<open>
  C24. \<open>Close\<close> can return and leave the handler behind: the handler may have found no exit signal and
  wait for a packet when \<open>Close\<close> sends the signal; timer and reader have ended, nothing else will
  post a packet, and no goroutine can move without another call of the API.
\<close>

theorem close_leaves_handler:
  assumes "client_fresh cid W c" and "at_work c" and "conn (c_conn c) \<noteq> None"
  shows "\<exists>labs y. sys_run client_machine labs (sys_start c (\<lambda>_. [])) = Some y \<and> Call 0 CallClose \<in> set labs \<and>
    y_app y = (\<lambda>_. []) \<and> y_h y = HTake \<and>
    (\<forall>lab. (\<forall>i a. lab \<noteq> Call i a) \<longrightarrow> sys_step client_machine lab y = None)"
proof -
  obtain y where y: "sys_run client_machine (clean_close cid) (sys_start c (\<lambda>_. [])) = Some y" "left_behind y"
    using clean_close_run [OF assms] by blast
  have "Call 0 CallClose \<in> set (clean_close cid)" by (simp add: clean_close_def)
  moreover have "\<forall>lab. (\<forall>i a. lab \<noteq> Call i a) \<longrightarrow> sys_step client_machine lab y = None"
    using left_behind_stuck [OF y(2)] by blast
  ultimately show ?thesis using y unfolding left_behind_def by blast
qed

theorem close_leaves_handler_witness:
  "\<exists>labs y. sys_run client_machine labs (sys_start demo_client (\<lambda>_. [])) = Some y \<and> Call 0 CallClose \<in> set labs \<and>
    y_app y = (\<lambda>_. []) \<and> y_h y = HTake"
  using close_leaves_handler [OF demo_client_fresh demo_client_at_work(1,2)] by blast

end
