(* ===== verification/BitMessage.thy ===== *)
theory BitMessage
  imports GoPrelude
begin

text \<open>
  The messages of the mining system (\<open>bitcoin/message.go\<close>) and the hash function
  (\<open>bitcoin/hash.go\<close>). The hash is SHA-256 of the message, a space and the nonce in decimal, cut to
  its first eight bytes; \<open>crypto/sha256\<close> and the big-endian read of \<open>encoding/binary\<close> are defined
  here as the standard has them. Hashes and nonces are 64-bit words.
\<close>

unbundle bit_operations_syntax

type_synonym uint64 = "64 word"

section \<open>Messages\<close>

datatype BMsgType = Join | Request | Result | BMsgTypeOther int

record BMessage =
  BType :: BMsgType
  Data :: string
  Lower :: uint64
  Upper :: uint64
  HashOf :: uint64
  Nonce :: uint64

definition BMsg :: "BMsgType \<Rightarrow> string \<Rightarrow> uint64 \<Rightarrow> uint64 \<Rightarrow> uint64 \<Rightarrow> uint64 \<Rightarrow> BMessage" where
  "BMsg t d l u h n = \<lparr>BType = t, Data = d, Lower = l, Upper = u, HashOf = h, Nonce = n\<rparr>"

definition NewRequest :: "string \<Rightarrow> uint64 \<Rightarrow> uint64 \<Rightarrow> BMessage" where
  "NewRequest dat lower upper = BMsg Request dat lower upper 0 0"

definition NewResult :: "uint64 \<Rightarrow> uint64 \<Rightarrow> BMessage" where
  "NewResult hash nonce = BMsg Result [] 0 0 hash nonce"

definition NewJoin :: BMessage where
  "NewJoin = BMsg Join [] 0 0 0 0"

definition show_word :: "uint64 \<Rightarrow> string" where
  "show_word w = show_nat (unat w)"

definition BMessage_String :: "BMessage \<Rightarrow> string" where
  "BMessage_String m =
     (case BType m of
        Request \<Rightarrow> ''[Request '' @ Data m @ '' '' @ show_word (Lower m) @ '' '' @ show_word (Upper m) @ '']''
      | Result \<Rightarrow> ''[Result '' @ show_word (HashOf m) @ '' '' @ show_word (Nonce m) @ '']''
      | Join \<Rightarrow> ''[Join]''
      | BMsgTypeOther _ \<Rightarrow> [])"

lemma BMsg_simps [simp]:
  "BType (BMsg t d l u h n) = t" "Data (BMsg t d l u h n) = d" "Lower (BMsg t d l u h n) = l"
  "Upper (BMsg t d l u h n) = u" "HashOf (BMsg t d l u h n) = h" "Nonce (BMsg t d l u h n) = n"
  by (simp_all add: BMsg_def)

lemma NewRequest_simps [simp]:
  "BType (NewRequest d l u) = Request" "Data (NewRequest d l u) = d"
  "Lower (NewRequest d l u) = l" "Upper (NewRequest d l u) = u"
  by (simp_all add: NewRequest_def)

lemma NewResult_simps [simp]:
  "BType (NewResult h n) = Result" "HashOf (NewResult h n) = h" "Nonce (NewResult h n) = n"
  by (simp_all add: NewResult_def)

section \<open>SHA-256\<close>

type_synonym uint32 = "32 word"

text \<open>
  The constants of the standard are not copied but computed: the first 32 bits of the fractional
  parts of the square roots and cube roots of the first primes. \<open>root_bits k n b r\<close> finds the largest
  number whose \<open>k\<close>th power is at most \<open>n\<close>, bit by bit from bit \<open>b\<close> down; 36 bits are enough here, as
  the cube root of 311 and the square root of 19 are below 16.
\<close>

fun root_bits :: "nat \<Rightarrow> nat \<Rightarrow> nat \<Rightarrow> nat \<Rightarrow> nat" where
  "root_bits k n 0 r = r"
| "root_bits k n (Suc b) r = root_bits k n b (if (r + 2 ^ b) ^ k \<le> n then r + 2 ^ b else r)"

definition root_fraction :: "nat \<Rightarrow> nat \<Rightarrow> uint32" where
  "root_fraction k p = word_of_nat (root_bits k (p * 2 ^ (32 * k)) 36 0)"

definition small_primes :: "nat list" where
  "small_primes = filter (\<lambda>p. list_all (\<lambda>d. p mod d \<noteq> 0) [2..<p]) [2..<312]"

definition sha_K :: "uint32 list" where
  "sha_K = map (root_fraction 3) small_primes"

type_synonym digest = "uint32 \<times> uint32 \<times> uint32 \<times> uint32 \<times> uint32 \<times> uint32 \<times> uint32 \<times> uint32"

definition sha_H0 :: digest where
  "sha_H0 =
     (root_fraction 2 2, root_fraction 2 3, root_fraction 2 5, root_fraction 2 7,
      root_fraction 2 11, root_fraction 2 13, root_fraction 2 17, root_fraction 2 19)"

text \<open>The bit-by-bit root is the integer part of the root.\<close>

lemma root_bits_result:
  assumes "r ^ k \<le> n" and "n < (r + 2 ^ b) ^ k"
  shows "root_bits k n b r ^ k \<le> n \<and> n < (root_bits k n b r + 1) ^ k"
  using assms
proof (induction k n b r rule: root_bits.induct)
  case (2 k n b r)
  show ?case
  proof (cases "(r + 2 ^ b) ^ k \<le> n")
    case True
    then show ?thesis using 2 by (simp add: mult_2 add.assoc)
  next
    case False
    then show ?thesis using 2 by simp
  qed
qed simp

definition rotr32 :: "nat \<Rightarrow> uint32 \<Rightarrow> uint32" where
  "rotr32 k x = drop_bit k x OR push_bit (32 - k) x"

definition sha_s0 :: "uint32 \<Rightarrow> uint32" where
  "sha_s0 x = rotr32 7 x XOR rotr32 18 x XOR drop_bit 3 x"

definition sha_s1 :: "uint32 \<Rightarrow> uint32" where
  "sha_s1 x = rotr32 17 x XOR rotr32 19 x XOR drop_bit 10 x"

text \<open>The padding: a one bit, zeros, and the length in bits as eight bytes, big-endian.\<close>

fun be_bytes :: "nat \<Rightarrow> nat \<Rightarrow> nat list" where
  "be_bytes 0 n = []"
| "be_bytes (Suc k) n = be_bytes k (n div 256) @ [n mod 256]"

definition sha_pad :: "nat list \<Rightarrow> nat list" where
  "sha_pad bs = bs @ [128] @ replicate ((119 - length bs mod 64) mod 64) 0 @ be_bytes 8 (8 * length bs)"

fun be_words :: "nat list \<Rightarrow> uint32 list" where
  "be_words (a # b # c # d # r) = word_of_nat (((a * 256 + b) * 256 + c) * 256 + d) # be_words r"
| "be_words _ = []"

text \<open>The schedule, newest word first, and one round.\<close>

fun sha_schedule :: "nat \<Rightarrow> uint32 list \<Rightarrow> uint32 list" where
  "sha_schedule 0 ws = ws"
| "sha_schedule (Suc k) ws =
     sha_schedule k ((sha_s1 (ws ! 1) + ws ! 6 + sha_s0 (ws ! 14) + ws ! 15) # ws)"

definition sha_round :: "digest \<Rightarrow> uint32 \<times> uint32 \<Rightarrow> digest" where
  "sha_round d kw =
     (case d of (a, b, c, d, e, f, g, h) \<Rightarrow>
       let t1 = h + (rotr32 6 e XOR rotr32 11 e XOR rotr32 25 e) + ((e AND f) XOR (NOT e AND g)) +
                fst kw + snd kw;
           t2 = (rotr32 2 a XOR rotr32 13 a XOR rotr32 22 a) + ((a AND b) XOR (a AND c) XOR (b AND c))
       in (t1 + t2, a, b, c, d + t1, e, f, g))"

definition sha_block :: "uint32 list \<Rightarrow> digest \<Rightarrow> digest" where
  "sha_block ws d =
     (let r = foldl sha_round d (zip sha_K (rev (sha_schedule 48 (rev ws)))) in
      case d of (a, b, c, d, e, f, g, h) \<Rightarrow>
      case r of (a', b', c', d', e', f', g', h') \<Rightarrow>
        (a + a', b + b', c + c', d + d', e + e', f + f', g + g', h + h'))"

fun sha_blocks :: "nat \<Rightarrow> uint32 list \<Rightarrow> digest \<Rightarrow> digest" where
  "sha_blocks 0 ws d = d"
| "sha_blocks (Suc k) ws d = sha_blocks k (drop 16 ws) (sha_block (take 16 ws) d)"

definition sha256 :: "string \<Rightarrow> digest" where
  "sha256 s =
     (let bs = sha_pad (map of_char s) in sha_blocks (length bs div 64) (be_words bs) sha_H0)"

text \<open>\<open>binary.BigEndian.Uint64\<close> of the digest reads its first two words.\<close>

definition Hash :: "string \<Rightarrow> uint64 \<Rightarrow> uint64" where
  "Hash m nonce =
     (case sha256 (m @ '' '' @ show_word nonce) of
        (a, b, _) \<Rightarrow> push_bit 32 (ucast a) OR ucast b)"

text \<open>The padded text consists of whole blocks of 64 bytes, so no byte is dropped.\<close>

lemma length_be_bytes [simp]: "length (be_bytes k n) = k"
  by (induction k arbitrary: n) simp_all

lemma sha_pad_whole: "64 dvd length (sha_pad bs)"
proof -
  define r where "r = length bs mod 64"
  have r: "r < 64" and l: "length bs = 64 * (length bs div 64) + r" by (simp_all add: r_def)
  have p: "length (sha_pad bs) = length bs + 9 + (119 - r) mod 64" by (simp add: sha_pad_def r_def)
  show ?thesis
  proof (cases "r \<le> 55")
    case True
    then have "(119 - r) mod 64 = 55 - r" by (simp add: mod_if)
    then have "length (sha_pad bs) = 64 * (length bs div 64 + 1)" using p l True by simp
    then show ?thesis by simp
  next
    case False
    then have "(119 - r) mod 64 = 119 - r" using r by simp
    then have "length (sha_pad bs) = 64 * (length bs div 64 + 2)" using p l r by simp
    then show ?thesis by simp
  qed
qed

lemma length_sha_schedule: "length (sha_schedule k ws) = k + length ws"
  by (induction k ws rule: sha_schedule.induct) simp_all

text \<open>
  The constants of the hash are what the standard says: the first 32 bits of the fractional part
  of a root, for every number whose root is below \<open>2 ^ 4\<close>.
\<close>

lemma sha_constants_are_roots:
  assumes "0 < k" and "p < 2 ^ (4 * k)"
  shows "\<exists>r. r ^ k \<le> p * 2 ^ (32 * k) \<and> p * 2 ^ (32 * k) < (r + 1) ^ k \<and> root_fraction k p = word_of_nat r"
proof -
  have low: "0 ^ k \<le> p * 2 ^ (32 * k)" using assms(1) by (simp add: power_0_left)
  have "p * 2 ^ (32 * k) < 2 ^ (4 * k) * 2 ^ (32 * k)" using assms(2) by simp
  also have "\<dots> = 2 ^ (36 * k)" by (simp flip: power_add)
  also have "\<dots> = (0 + 2 ^ 36) ^ k" by (simp only: power_mult add_0)
  finally have top: "p * 2 ^ (32 * k) < (0 + 2 ^ 36) ^ k" .
  show ?thesis using root_bits_result [OF low top] unfolding root_fraction_def by blast
qed

end
