(* ===== verification/BitMiner.thy ===== *)
theory BitMiner
  imports BitMessage
begin

text \<open>
  The miner (\<open>bitcoin/miner/miner.go\<close>) and the answers it computes. An answer is a hash with its
  nonce; answers are ordered by the hash and then by the nonce, and both the miner's search and the
  way the server combines results take minima in that order. The search loop counts in 64-bit
  words: over a range that ends at the largest word it never ends, which is the value \<open>None\<close>.
\<close>

section \<open>Answers\<close>

datatype answer = Answer (ans_hash: uint64) (ans_nonce: uint64)

instantiation answer :: linorder
begin

definition less_eq_answer :: "answer \<Rightarrow> answer \<Rightarrow> bool" where
  "a \<le> b \<longleftrightarrow> ans_hash a < ans_hash b \<or> ans_hash a = ans_hash b \<and> ans_nonce a \<le> ans_nonce b"

definition less_answer :: "answer \<Rightarrow> answer \<Rightarrow> bool" where
  "a < b \<longleftrightarrow> ans_hash a < ans_hash b \<or> ans_hash a = ans_hash b \<and> ans_nonce a < ans_nonce b"

instance
  by standard (auto simp: less_eq_answer_def less_answer_def answer.expand intro: answer.expand)

end

text \<open>The comparison that the miner makes per nonce and the server per result.\<close>

definition better :: "uint64 \<Rightarrow> uint64 \<Rightarrow> answer \<Rightarrow> answer" where
  "better hash nonce a =
     (if hash < ans_hash a then Answer hash nonce
      else if hash = ans_hash a then (if nonce < ans_nonce a then Answer (ans_hash a) nonce else a)
      else a)"

lemma better_min: "better hash nonce a = min (Answer hash nonce) a"
  by (cases a) (auto simp: better_def min_def less_eq_answer_def)

section \<open>The search\<close>

definition max_word :: uint64 where
  "max_word = - 1"

lemma le_max_word [simp]: "(i :: uint64) \<le> max_word"
  by (simp add: max_word_def)

lemma less_max_word: "(i :: uint64) < max_word \<longleftrightarrow> i \<noteq> max_word"
  using le_max_word order.not_eq_order_implies_strict by blast

partial_function (option) mine_loop :: "(uint64 \<Rightarrow> uint64) \<Rightarrow> uint64 \<Rightarrow> uint64 \<Rightarrow> answer \<Rightarrow> answer option" where
  "mine_loop H r i a = (if i \<le> r then mine_loop H r (i + 1) (better (H i) i a) else Some a)"

definition mine :: "(uint64 \<Rightarrow> uint64) \<Rightarrow> uint64 \<Rightarrow> uint64 \<Rightarrow> answer option" where
  "mine H l r = mine_loop H r l (Answer max_word max_word)"

text \<open>What the search is for: the least answer of a range, and the start value when it is empty.\<close>

definition range_answers :: "(uint64 \<Rightarrow> uint64) \<Rightarrow> uint64 \<Rightarrow> uint64 \<Rightarrow> answer set" where
  "range_answers H l r = (\<lambda>i. Answer (H i) i) ` {l..r}"

definition least_answer :: "answer set \<Rightarrow> answer \<Rightarrow> bool" where
  "least_answer S a \<longleftrightarrow> a \<in> S \<and> (\<forall>b \<in> S. a \<le> b)"

lemma least_answer_unique: "least_answer S a \<Longrightarrow> least_answer S b \<Longrightarrow> a = b"
  by (meson least_answer_def order.antisym)

lemma word_plus_one: "(i :: uint64) < r \<Longrightarrow> unat (i + 1) = unat i + 1"
proof -
  assume "i < r"
  then have "unat i < unat r" by (simp add: word_less_nat_alt)
  moreover have "unat r < 2 ^ 64" using unsigned_less [of r] by simp
  ultimately have "unat i + 1 < 2 ^ 64" by simp
  then show ?thesis by (simp add: unat_word_ariths(1))
qed

lemma range_split:
  assumes "(i :: uint64) \<le> r" and "r < max_word"
  shows "{i..r} = insert i {i + 1..r}"
proof -
  have i: "unat (i + 1) = unat i + 1"
    by (rule word_plus_one [of i max_word]) (use assms in auto)
  have iff: "i \<le> j \<and> j \<le> r \<longleftrightarrow> j = i \<or> i + 1 \<le> j \<and> j \<le> r" for j
    using assms(1) i by (auto simp: word_le_nat_alt word_unat_eq_iff)
  show ?thesis unfolding set_eq_iff using iff by simp
qed

lemma range_answers_split:
  "i \<le> r \<Longrightarrow> r < max_word \<Longrightarrow> range_answers H i r = insert (Answer (H i) i) (range_answers H (i + 1) r)"
  by (simp add: range_answers_def range_split)

text \<open>Over a range that does not end at the largest word the loop ends with the minimum.\<close>

lemma mine_loop_result:
  assumes "r < max_word"
  shows "\<exists>b. mine_loop H r i a = Some b \<and> least_answer (insert a (range_answers H i r)) b"
proof (induction "unat r + 1 - unat i" arbitrary: i a rule: less_induct)
  case less
  show ?case
  proof (cases "i \<le> r")
    case False
    then have "range_answers H i r = {}" by (auto simp: range_answers_def)
    then show ?thesis using False by (simp add: mine_loop.simps [of H r i] least_answer_def)
  next
    case True
    have i: "unat (i + 1) = unat i + 1"
      by (rule word_plus_one [of i max_word]) (use True assms in auto)
    have "unat i \<le> unat r" using True by (simp add: word_le_nat_alt)
    then have "unat r + 1 - unat (i + 1) < unat r + 1 - unat i" unfolding i by linarith
    from less.hyps [OF this] obtain b where b: "mine_loop H r (i + 1) (better (H i) i a) = Some b"
      "least_answer (insert (better (H i) i a) (range_answers H (i + 1) r)) b"
      by blast
    have "least_answer (insert a (range_answers H i r)) b"
      using b(2) unfolding range_answers_split [OF True assms] least_answer_def better_min
      by (auto simp: min_def split: if_splits)
    then show ?thesis using b(1) True by (simp add: mine_loop.simps [of H r i])
  qed
qed

lemma mine_result:
  assumes "l \<le> r" and "r < max_word"
  shows "\<exists>b. mine H l r = Some b \<and> least_answer (range_answers H l r) b"
proof -
  obtain b where b: "mine H l r = Some b"
    "least_answer (insert (Answer max_word max_word) (range_answers H l r)) b"
    using mine_loop_result [OF assms(2), of H l] unfolding mine_def by blast
  have le: "c \<le> Answer max_word max_word" for c by (auto simp: less_eq_answer_def less_max_word)
  have "Answer (H l) l \<in> range_answers H l r" using assms(1) by (simp add: range_answers_def)
  moreover have "Answer (H l) l \<noteq> Answer max_word max_word" using assms by auto
  ultimately have "b \<noteq> Answer max_word max_word"
    using b(2) le [of "Answer (H l) l"] unfolding least_answer_def by (metis insertI2 order.antisym)
  then show ?thesis using b by (auto simp: least_answer_def)
qed

lemma mine_empty: "\<not> l \<le> r \<Longrightarrow> mine H l r = Some (Answer max_word max_word)"
  by (simp add: mine_def mine_loop.simps [of H r l])

text \<open>Over a range that ends at the largest word the loop does not end.\<close>

lemma mine_loop_ends: "mine_loop H r i a = Some b \<Longrightarrow> r \<noteq> max_word"
proof (erule mine_loop.raw_induct [where P = "\<lambda>H r i a b. r \<noteq> max_word", rotated])
  fix f and H :: "uint64 \<Rightarrow> uint64" and r i :: uint64 and a b :: answer
  assume "\<And>H r i a b. f H r i a = Some b \<Longrightarrow> r \<noteq> max_word"
    and "(if i \<le> r then f H r (i + 1) (better (H i) i a) else Some a) = Some b"
  then show "r \<noteq> max_word" by (cases "i \<le> r") auto
qed

lemma mine_diverges: "mine H l max_word = None"
proof (cases "mine H l max_word")
  case (Some a)
  then show ?thesis using mine_loop_ends [of H max_word l] by (simp add: mine_def)
qed

section \<open>The program\<close>

text \<open>
  \<open>main\<close> after \<open>NewClient\<close>: \<open>miner_start\<close> writes the \<open>Join\<close> message; one turn of the loop takes what
  \<open>Read\<close> returned (\<open>None\<close> an error, otherwise the unmarshalled message) and whether \<open>Write\<close> will
  succeed. The boolean result says whether the program goes on; \<open>None\<close> is a turn that never ends.
\<close>

datatype miner_effect = MWrite BMessage | MClose | MExit | MPrintln string

definition miner_start :: "bool \<Rightarrow> miner_effect list \<times> bool" where
  "miner_start wok = (if wok then ([MWrite NewJoin], True) else ([MWrite NewJoin, MClose, MExit], False))"

definition miner_turn :: "(string \<Rightarrow> uint64 \<Rightarrow> uint64) \<Rightarrow> BMessage option \<Rightarrow> bool \<Rightarrow> (miner_effect list \<times> bool) option" where
  "miner_turn hash v wok =
     (case v of
        None \<Rightarrow> Some ([MExit], False)
      | Some m \<Rightarrow>
          (case mine (hash (Data m)) (Lower m) (Upper m) of
             None \<Rightarrow> None
           | Some a \<Rightarrow>
               let res = NewResult (ans_hash a) (ans_nonce a)
               in if wok then Some ([MWrite res], True) else Some ([MWrite res, MClose, MExit], False)))"

fun miner_loop :: "(string \<Rightarrow> uint64 \<Rightarrow> uint64) \<Rightarrow> (BMessage option \<times> bool) list \<Rightarrow> miner_effect list option" where
  "miner_loop hash [] = Some []"
| "miner_loop hash ((v, wok) # ins) =
     (case miner_turn hash v wok of
        None \<Rightarrow> None
      | Some (es, False) \<Rightarrow> Some es
      | Some (es, True) \<Rightarrow> map_option (\<lambda>fs. es @ fs) (miner_loop hash ins))"

text \<open>
  The whole program: the arguments, whether the log file opens and whether \<open>NewClient\<close> connects.
\<close>

definition miner_main :: "string list \<Rightarrow> bool \<Rightarrow> bool \<Rightarrow> bool \<Rightarrow> (BMessage option \<times> bool) list \<Rightarrow> miner_effect list option" where
  "miner_main args logok connected wok ins =
     (if length args \<noteq> 2 then Some [MPrintln ''Usage: ./miner <hostport>'']
      else if \<not> logok then Some []
      else if \<not> connected then Some []
      else
        case miner_start wok of
          (es, False) \<Rightarrow> Some es
        | (es, True) \<Rightarrow> map_option (\<lambda>fs. es @ fs) (miner_loop Hash ins))"

text \<open>The answer of an honest miner to a request.\<close>

definition honest_result :: "(uint64 \<Rightarrow> uint64) \<Rightarrow> uint64 \<Rightarrow> uint64 \<Rightarrow> uint64 \<Rightarrow> uint64 \<Rightarrow> bool" where
  "honest_result H l r h n \<longleftrightarrow> least_answer (range_answers H l r) (Answer h n)"

lemma honest_result_range:
  assumes "honest_result H l r h n"
  shows "l \<le> n" and "n \<le> r" and "h = H n"
  using assms by (auto simp: honest_result_def least_answer_def range_answers_def)

lemma miner_turn_honest:
  assumes "Lower m \<le> Upper m" and "Upper m < max_word"
  shows "\<exists>h n. miner_turn hash (Some m) True = Some ([MWrite (NewResult h n)], True) \<and>
    honest_result (hash (Data m)) (Lower m) (Upper m) h n"
proof -
  obtain a where "mine (hash (Data m)) (Lower m) (Upper m) = Some a"
    "least_answer (range_answers (hash (Data m)) (Lower m) (Upper m)) a"
    using mine_result [OF assms] by blast
  then show ?thesis
    by (intro exI [of _ "ans_hash a"] exI [of _ "ans_nonce a"])
      (simp add: miner_turn_def Let_def honest_result_def)
qed

lemma miner_turn_empty:
  "\<not> Lower m \<le> Upper m \<Longrightarrow> miner_turn hash (Some m) True = Some ([MWrite (NewResult max_word max_word)], True)"
  by (simp add: miner_turn_def mine_empty)

end
