(* ===== verification/BitScheduler.thy ===== *)
theory BitScheduler
  imports BitMiner
begin

text \<open>
  The scheduler of the mining server (\<open>bitcoin/server/server.go\<close>): the state of the \<open>Scheduler\<close>
  struct, its methods, and one turn of the loop of \<open>main\<close>. A result \<open>None\<close> is a panic: a nil job, or
  a division by the number of miners when there is none.

  \<open>miner\<close> maps the connection of a miner to the range it works on, \<open>None\<close> for an idle one (a nil
  pointer in Go). The buffered channel \<open>waitans\<close> holds at most one signal, which the next turn of
  the loop takes, so a boolean stands for it.
\<close>

section \<open>State\<close>

record scheduler =
  pendclients :: "(int, int) fmap"
  waitans :: bool
  miner :: "(int, BMessage option) fmap"
  pendminer :: "(int, int) fmap"
  running :: bool
  pendjobs :: "(int, BMessage) fmap"
  pendrange :: "(int, BMessage) fmap"
  blockct :: int
  reqct :: int
  curclient :: int
  currid :: int
  receivect :: int
  ans1 :: uint64
  ans2 :: uint64
  jobgiveup :: bool
  minerfail :: int

definition NewScheduler :: scheduler where
  "NewScheduler =
     \<lparr>pendclients = fmempty, waitans = False, miner = fmempty, pendminer = fmempty, running = False,
      pendjobs = fmempty, pendrange = fmempty, blockct = 0, reqct = 1, curclient = 1, currid = 1,
      receivect = 0, ans1 = 0, ans2 = 0, jobgiveup = False, minerfail = 0\<rparr>"

text \<open>
  What Go and the network leave open in one turn: the order in which a \<open>range\<close> loop visits the keys
  of a map (\<open>ch_order\<close>, and \<open>ch_inner j\<close> for the loop inside the one of \<open>reassign\<close>), and whether a
  \<open>Write\<close> to a connection succeeds.
\<close>

record choice =
  ch_order :: "int fset \<Rightarrow> int list"
  ch_inner :: "int \<Rightarrow> int fset \<Rightarrow> int list"
  ch_ok :: "int \<Rightarrow> bool"

definition fair_choice :: "choice \<Rightarrow> bool" where
  "fair_choice ch \<longleftrightarrow> (\<forall>A. enumerates (ch_order ch A) A) \<and> (\<forall>j A. enumerates (ch_inner ch j A) A)"

datatype sched_effect = WriteMsg int BMessage

section \<open>Methods\<close>

text \<open>\<open>reassign\<close>: give each lost range to the first idle miner that takes it.\<close>

fun reassign_to :: "(int \<Rightarrow> bool) \<Rightarrow> int \<Rightarrow> BMessage \<Rightarrow> int list \<Rightarrow> scheduler \<Rightarrow> scheduler \<times> sched_effect list" where
  "reassign_to ok j k [] s = (s, [])"
| "reassign_to ok j k (i # is) s =
     (case fmlookup (miner s) i of
        Some None \<Rightarrow>
          (let s1 = s\<lparr>miner := fmupd i (Some k) (miner s)\<rparr>
           in if \<not> ok i
              then (let (s2, es) = reassign_to ok j k is (s1\<lparr>miner := fmdrop i (miner s1)\<rparr>)
                    in (s2, WriteMsg i k # es))
              else (s1\<lparr>minerfail := minerfail s1 - 1, pendrange := fmdrop j (pendrange s1)\<rparr>, [WriteMsg i k]))
      | _ \<Rightarrow> reassign_to ok j k is s)"

fun reassign_all :: "choice \<Rightarrow> int list \<Rightarrow> scheduler \<Rightarrow> scheduler \<times> sched_effect list" where
  "reassign_all ch [] s = (s, [])"
| "reassign_all ch (j # js) s =
     (case fmlookup (pendrange s) j of
        None \<Rightarrow> reassign_all ch js s
      | Some k \<Rightarrow>
          (let (s1, e1) = reassign_to (ch_ok ch) j k (ch_inner ch j (fmdom (miner s))) s;
               (s2, e2) = reassign_all ch js s1
           in (s2, e1 @ e2)))"

definition reassign :: "choice \<Rightarrow> scheduler \<Rightarrow> scheduler \<times> sched_effect list" where
  "reassign ch s =
     (if mlen (pendrange s) \<noteq> 0 then reassign_all ch (ch_order ch (fmdom (pendrange s))) s else (s, []))"

fun resize_all :: "int list \<Rightarrow> scheduler \<Rightarrow> scheduler" where
  "resize_all [] s = s"
| "resize_all (i # is) s =
     resize_all is (s\<lparr>miner := fmupd i None (miner s), pendminer := fmdrop i (pendminer s)\<rparr>)"

definition resize :: "choice \<Rightarrow> scheduler \<Rightarrow> scheduler" where
  "resize ch s =
     (if mlen (pendminer s) \<noteq> 0 then resize_all (ch_order ch (fmdom (pendminer s))) s else s)"

text \<open>
  \<open>assign\<close>: cut the job into one range per miner. The job's message is changed in place: it is what
  the miners are sent, and \<open>temp\<close> is what is kept in the table.
\<close>

fun assign_loop :: "(int \<Rightarrow> bool) \<Rightarrow> uint64 \<Rightarrow> uint64 \<Rightarrow> uint64 \<Rightarrow> int list \<Rightarrow> uint64 \<Rightarrow> BMessage \<Rightarrow> scheduler
     \<Rightarrow> scheduler \<times> sched_effect list" where
  "assign_loop ok block fk limit [] ct hold s = (s, [])"
| "assign_loop ok block fk limit (i # is) ct hold s =
     (let low = ct * fk;
          up = (if low + block > limit then limit else low + block);
          hold1 = hold\<lparr>Lower := low, Upper := up\<rparr>;
          temp = NewRequest (Data hold1) (Lower hold1) (Upper hold1);
          s1 = s\<lparr>miner := fmupd i (Some temp) (miner s)\<rparr>;
          s2 = (if ok i then s1
                else s1\<lparr>minerfail := minerfail s1 + 1, pendrange := fmupd i temp (pendrange s1),
                        miner := fmdrop i (miner s1)\<rparr>);
          (s3, es) = assign_loop ok block fk limit is (ct + 1) hold1 s2
      in (s3, WriteMsg i hold1 # es))"

definition block_size :: "uint64 \<Rightarrow> nat \<Rightarrow> uint64" where
  "block_size upper n =
     (let b = upper div word_of_nat n in if upper mod word_of_nat n \<noteq> 0 then b + 1 else b)"

definition assign :: "choice \<Rightarrow> scheduler \<Rightarrow> (scheduler, sched_effect) outcome" where
  "assign ch s =
     (case fmlookup (pendjobs s) (currid s) of
        None \<Rightarrow> None
      | Some hold \<Rightarrow>
          if mlen (miner s) = 0 then None
          else
            (let block = block_size (Upper hold) (mlen (miner s));
                 s1 = s\<lparr>jobgiveup := False, curclient := mget 0 (pendclients s) (currid s),
                        pendjobs := fmdrop (currid s) (pendjobs s),
                        pendclients := fmdrop (currid s) (pendclients s),
                        ans1 := max_word, ans2 := Upper hold, blockct := int (mlen (miner s))\<rparr>;
                 (s2, es) = assign_loop (ch_ok ch) block (block + 1) (Upper hold)
                              (ch_order ch (fmdom (miner s))) 0 hold s1
             in Some (s2\<lparr>running := True\<rparr>, es)))"

section \<open>The loop of main\<close>

text \<open>The case of the signal on \<open>waitans\<close>: the job is done.\<close>

definition job_done :: "choice \<Rightarrow> scheduler \<Rightarrow> (scheduler, sched_effect) outcome" where
  "job_done ch s =
     (let e0 = (if \<not> jobgiveup s then [WriteMsg (curclient s) (NewResult (ans1 s) (ans2 s))] else []);
          s1 = s\<lparr>waitans := False, running := False, currid := currid s + 1\<rparr>
      in if mlen (pendjobs s1) \<noteq> 0 \<and> currid s1 < reqct s1
         then andthen (Some (resize ch s1, e0)) (assign ch)
         else Some (s1, e0))"

text \<open>\<open>Read\<close> returned an error for connection \<open>id\<close>.\<close>

definition on_lost_rest :: "int \<Rightarrow> scheduler \<Rightarrow> (scheduler, sched_effect) outcome" where
  "on_lost_rest i s =
     (if mhas (pendminer s) i then Some (s\<lparr>pendminer := fmdrop i (pendminer s)\<rparr>, [])
      else if i = curclient s then Some (s\<lparr>jobgiveup := True\<rparr>, [])
      else Some (s, []))"

definition on_lost :: "choice \<Rightarrow> int \<Rightarrow> scheduler \<Rightarrow> (scheduler, sched_effect) outcome" where
  "on_lost ch i s =
     (case fmlookup (miner s) i of
        None \<Rightarrow> on_lost_rest i s
      | Some v \<Rightarrow>
          if running s
          then (case v of
                  None \<Rightarrow> on_lost_rest i s
                | Some task \<Rightarrow>
                    (let s1 = s\<lparr>pendrange := fmupd i task (pendrange s), minerfail := minerfail s + 1,
                                miner := fmdrop i (miner s)\<rparr>;
                         s2 = resize ch s1
                     in if mlen (miner s2) \<noteq> 0 then Some (reassign ch s2) else Some (s2, [])))
          else Some (s\<lparr>miner := fmdrop i (miner s)\<rparr>, []))"

definition on_join :: "choice \<Rightarrow> int \<Rightarrow> scheduler \<Rightarrow> (scheduler, sched_effect) outcome" where
  "on_join ch i s =
     (if running s
      then (let s1 = resize ch (s\<lparr>pendminer := fmupd i 0 (pendminer s)\<rparr>)
            in if mlen (pendrange s1) \<noteq> 0 then Some (reassign ch s1) else Some (s1, []))
      else (let s1 = s\<lparr>miner := fmupd i None (miner s)\<rparr>
            in if mlen (pendrange s1) \<noteq> 0 then Some (reassign ch s1)
               else if mlen (pendclients s1) \<noteq> 0 then assign ch s1
               else Some (s1, [])))"

definition on_request :: "choice \<Rightarrow> int \<Rightarrow> BMessage \<Rightarrow> scheduler \<Rightarrow> (scheduler, sched_effect) outcome" where
  "on_request ch i m s =
     (let s1 = s\<lparr>pendclients := fmupd (reqct s) i (pendclients s),
                 pendjobs := fmupd (reqct s) m (pendjobs s), reqct := reqct s + 1\<rparr>
      in if running s then Some (s1, [])
         else if mlen (miner s) \<noteq> 0 then assign ch s1
         else Some (s1, []))"

text \<open>The loop over the miners stops at the first whose range contains the nonce.\<close>

definition takes_result :: "scheduler \<Rightarrow> uint64 \<Rightarrow> int \<Rightarrow> bool" where
  "takes_result s n i =
     (case fmlookup (miner s) i of
        Some (Some v) \<Rightarrow> Lower v \<le> n \<and> n \<le> Upper v
      | _ \<Rightarrow> False)"

definition record_result :: "BMessage \<Rightarrow> int \<Rightarrow> scheduler \<Rightarrow> scheduler" where
  "record_result m i s =
     (let a = better (HashOf m) (Nonce m) (Answer (ans1 s) (ans2 s))
      in s\<lparr>ans1 := ans_hash a, ans2 := ans_nonce a, miner := fmupd i None (miner s), blockct := blockct s - 1\<rparr>)"

definition on_result :: "choice \<Rightarrow> BMessage \<Rightarrow> scheduler \<Rightarrow> (scheduler, sched_effect) outcome" where
  "on_result ch m s =
     (if running s
      then (let s1 = (case find (takes_result s (Nonce m)) (ch_order ch (fmdom (miner s))) of
                        None \<Rightarrow> s
                      | Some i \<Rightarrow> record_result m i s)
            in if blockct s1 = 0 then Some (s1\<lparr>waitans := True\<rparr>, [])
               else if minerfail s1 > 0 then Some (reassign ch s1)
               else Some (s1, []))
      else Some (s, []))"

text \<open>
  One turn: a signal on \<open>waitans\<close> has priority, otherwise \<open>Read\<close> is called. Its result \<open>rd\<close>, which
  a turn that takes the signal does not use, is an error with a connection, or a connection with
  what \<open>json.Unmarshal\<close> made of the payload.
\<close>

datatype read_result = ReadErr int | ReadMsg int BMessage

definition sched_turn :: "choice \<Rightarrow> read_result \<Rightarrow> scheduler \<Rightarrow> (scheduler, sched_effect) outcome" where
  "sched_turn ch rd s =
     (if waitans s then job_done ch s
      else
        case rd of
          ReadErr i \<Rightarrow> on_lost ch i s
        | ReadMsg i m \<Rightarrow>
            (case BType m of
               Join \<Rightarrow> on_join ch i s
             | Request \<Rightarrow> on_request ch i m s
             | Result \<Rightarrow> on_result ch m s
             | BMsgTypeOther _ \<Rightarrow> Some (s, [])))"

fun sched_run :: "(choice \<times> read_result) list \<Rightarrow> scheduler \<Rightarrow> (scheduler, sched_effect) outcome" where
  "sched_run [] s = Some (s, [])"
| "sched_run ((ch, rd) # ins) s = andthen (sched_turn ch rd s) (sched_run ins)"

text \<open>
  The program: \<open>Inl\<close> is what it prints when it ends before the loop, because of the arguments, the
  log file or \<open>NewServer\<close>.
\<close>

definition bitserver_main :: "string list \<Rightarrow> bool \<Rightarrow> bool \<Rightarrow> (choice \<times> read_result) list
     \<Rightarrow> string list + (scheduler, sched_effect) outcome" where
  "bitserver_main args logok srvok ins =
     (if length args \<noteq> 2 then Inl [''Usage: ./server <port>'']
      else if \<not> logok then Inl []
      else if \<not> srvok then Inl []
      else Inr (sched_run ins NewScheduler))"

end
