(* ===== verification/BitSchedulerProps.thy ===== *)
theory BitSchedulerProps
  imports BitScheduler
begin

text \<open>
  What the scheduler keeps: every range that was cut from the current job is with exactly one busy
  miner or waits in \<open>pendrange\<close> until its result is in, \<open>block\<close> counts those ranges, and the jobs
  are served in the order of their numbers. From this it follows that no turn panics.
\<close>

section \<open>Outstanding ranges\<close>

text \<open>
  The ranges that wait for a result, by where they are: \<open>(True, i)\<close> with miner \<open>i\<close>, \<open>(False, i)\<close> in
  \<open>pendrange\<close> under the number of the miner that lost it.
\<close>

fun tasks :: "scheduler \<Rightarrow> bool \<times> int \<Rightarrow> BMessage option" where
  "tasks s (True, i) = (case fmlookup (miner s) i of Some v \<Rightarrow> v | None \<Rightarrow> None)"
| "tasks s (False, i) = fmlookup (pendrange s) i"

definition outstanding :: "scheduler \<Rightarrow> (bool \<times> int) set" where
  "outstanding s = {a. tasks s a \<noteq> None}"

lemma finite_outstanding: "finite (outstanding s)"
proof (rule finite_subset)
  show "outstanding s \<subseteq> Pair True ` fset (fmdom (miner s)) \<union> Pair False ` fset (fmdom (pendrange s))"
  proof
    fix a assume a: "a \<in> outstanding s"
    obtain b i where bi: "a = (b, i)" by (cases a)
    show "a \<in> Pair True ` fset (fmdom (miner s)) \<union> Pair False ` fset (fmdom (pendrange s))"
      using a bi by (cases b) (auto simp: outstanding_def mhas_fmdom mhas_def split: option.splits)
  qed
qed simp

text \<open>A step that only moves ranges around.\<close>

definition reshuffle :: "scheduler \<Rightarrow> scheduler \<Rightarrow> bool" where
  "reshuffle s s' \<longleftrightarrow>
     (\<exists>f. bij_betw f (outstanding s) (outstanding s') \<and> (\<forall>a \<in> outstanding s. tasks s' (f a) = tasks s a))"

lemma reshuffle_same: "(\<And>a. tasks s' a = tasks s a) \<Longrightarrow> reshuffle s s'"
  unfolding reshuffle_def by (intro exI [of _ id]) (simp add: outstanding_def)

lemma reshuffle_trans: "reshuffle s t \<Longrightarrow> reshuffle t u \<Longrightarrow> reshuffle s u"
proof -
  assume "reshuffle s t" "reshuffle t u"
  then obtain f g where f: "bij_betw f (outstanding s) (outstanding t)" "\<forall>a \<in> outstanding s. tasks t (f a) = tasks s a"
    and g: "bij_betw g (outstanding t) (outstanding u)" "\<forall>a \<in> outstanding t. tasks u (g a) = tasks t a"
    unfolding reshuffle_def by blast
  have "tasks u ((g \<circ> f) a) = tasks s a" if "a \<in> outstanding s" for a
    using that f g bij_betwE [OF f(1)] by simp
  then show ?thesis
    using bij_betw_trans [OF f(1) g(1)] unfolding reshuffle_def by (intro exI [of _ "g \<circ> f"]) simp
qed

lemma reshuffle_move:
  assumes a: "tasks s a \<noteq> None" and b: "tasks s b = None"
    and t: "\<And>c. tasks s' c = (if c = b then tasks s a else if c = a then None else tasks s c)"
  shows "reshuffle s s'"
proof -
  let ?f = "\<lambda>c. if c = a then b else c"
  have ab: "a \<noteq> b" using a b by auto
  have "inj_on ?f (outstanding s)" using b by (auto simp: inj_on_def outstanding_def)
  moreover have "?f ` outstanding s = outstanding s'"
  proof
    show "?f ` outstanding s \<subseteq> outstanding s'" using a by (auto simp: outstanding_def t)
    show "outstanding s' \<subseteq> ?f ` outstanding s"
    proof
      fix c assume c: "c \<in> outstanding s'"
      show "c \<in> ?f ` outstanding s"
      proof (cases "c = b")
        case True
        then show ?thesis using a by (intro image_eqI [of _ _ a]) (simp_all add: outstanding_def)
      next
        case False
        then show ?thesis using c by (intro image_eqI [of _ _ c]) (auto simp: outstanding_def t split: if_splits)
      qed
    qed
  qed
  ultimately have "bij_betw ?f (outstanding s) (outstanding s')" by (simp add: bij_betw_def)
  moreover have "tasks s' (?f c) = tasks s c" if "c \<in> outstanding s" for c
    using that b ab by (auto simp: t outstanding_def)
  ultimately show ?thesis unfolding reshuffle_def by blast
qed

lemma reshuffle_card: "reshuffle s s' \<Longrightarrow> card (outstanding s') = card (outstanding s)"
  unfolding reshuffle_def using bij_betw_same_card by metis

lemma reshuffle_back:
  assumes "reshuffle s s'" and "tasks s' b = Some m"
  shows "\<exists>a. tasks s a = Some m"
proof -
  obtain f where f: "bij_betw f (outstanding s) (outstanding s')" "\<forall>a \<in> outstanding s. tasks s' (f a) = tasks s a"
    using assms(1) unfolding reshuffle_def by blast
  have "b \<in> outstanding s'" using assms(2) by (simp add: outstanding_def)
  then have "b \<in> f ` outstanding s" using bij_betw_imp_surj_on [OF f(1)] by simp
  then obtain a where "a \<in> outstanding s" "b = f a" by blast
  then have "tasks s a = Some m" using f(2) assms(2) by simp
  then show ?thesis by (rule exI)
qed

lemma reshuffle_forth:
  assumes "reshuffle s s'" and "tasks s a = Some m"
  shows "\<exists>b. tasks s' b = Some m"
proof -
  obtain f where "\<forall>a \<in> outstanding s. tasks s' (f a) = tasks s a"
    using assms(1) unfolding reshuffle_def by blast
  moreover have "a \<in> outstanding s" using assms(2) by (simp add: outstanding_def)
  ultimately have "tasks s' (f a) = Some m" using assms(2) by simp
  then show ?thesis by (rule exI)
qed

section \<open>Moving ranges\<close>

text \<open>
  What \<open>reassign\<close> keeps, relative to the state \<open>s0\<close> it began with: it moves ranges, \<open>minerfail\<close>
  counts those left, a miner never stands in both tables, and all other fields are as before.
\<close>

definition moves :: "scheduler \<Rightarrow> scheduler \<Rightarrow> bool" where
  "moves s0 s \<longleftrightarrow>
     s = s0\<lparr>miner := miner s, pendrange := pendrange s, minerfail := minerfail s\<rparr> \<and> reshuffle s0 s \<and>
     minerfail s = int (mlen (pendrange s)) \<and> (\<forall>i. mhas (miner s) i \<longrightarrow> \<not> mhas (pendrange s) i)"

lemma moves_refl:
  "minerfail s = int (mlen (pendrange s)) \<Longrightarrow> (\<And>i. mhas (miner s) i \<Longrightarrow> \<not> mhas (pendrange s) i) \<Longrightarrow> moves s s"
  by (simp add: moves_def reshuffle_same)

lemma moves_step:
  assumes m: "moves s0 s" and s': "s' = s\<lparr>miner := mi, pendrange := pr, minerfail := mf\<rparr>"
    and r: "reshuffle s s'" and mf: "mf = int (mlen pr)" and d: "\<And>i. mhas mi i \<Longrightarrow> \<not> mhas pr i"
  shows "moves s0 s'"
proof -
  have "s = s0\<lparr>miner := miner s, pendrange := pendrange s, minerfail := minerfail s\<rparr>"
    using m unfolding moves_def by (elim conjE)
  then have "s' = s0\<lparr>miner := miner s', pendrange := pendrange s', minerfail := minerfail s'\<rparr>"
    unfolding s' by (cases s; cases s0) simp
  moreover have "reshuffle s0 s'" using m r reshuffle_trans unfolding moves_def by blast
  ultimately show ?thesis using mf d by (simp add: moves_def s')
qed

lemma reassign_to_moves:
  assumes "moves s0 s" and "fmlookup (pendrange s) j = Some k"
  shows "moves s0 (fst (reassign_to ok j k is s))"
  using assms
proof (induction ok j k "is" s rule: reassign_to.induct)
  case (1 ok j k s)
  then show ?case by simp
next
  case (2 ok j k i "is" s)
  note d = "2.prems"(1) [unfolded moves_def]
  show ?case
  proof (cases "fmlookup (miner s) i")
    case None
    then show ?thesis using "2.IH"(1) "2.prems" by simp
  next
    case (Some v)
    note look = this
    show ?thesis
    proof (cases v)
      case (Some m)
      then show ?thesis using "2.IH"(3) [OF look Some] "2.prems" look by simp
    next
      case None
      have idle: "fmlookup (miner s) i = Some None" using look None by simp
      show ?thesis
      proof (cases "ok i")
        case True
        let ?s' = "s\<lparr>miner := fmupd i (Some k) (miner s), minerfail := minerfail s - 1,
          pendrange := fmdrop j (pendrange s)\<rparr>"
        have eq: "?s' = s\<lparr>miner := fmupd i (Some k) (miner s), pendrange := fmdrop j (pendrange s),
          minerfail := minerfail s - 1\<rparr>" by (cases s) simp
        have t: "tasks ?s' c = (if c = (True, i) then tasks s (False, j) else if c = (False, j) then None else tasks s c)" for c
          using "2.prems"(2) by (cases "(s, c)" rule: tasks.cases) auto
        have "reshuffle s ?s'"
          by (rule reshuffle_move [OF _ _ t]) (use "2.prems"(2) idle in simp_all)
        moreover have "minerfail s - 1 = int (mlen (fmdrop j (pendrange s)))"
        proof -
          have j: "mhas (pendrange s) j" using "2.prems"(2) by (rule mhasI)
          have "mlen (fmdrop j (pendrange s)) = mlen (pendrange s) - 1" using j by (simp add: mlen_drop)
          moreover have "0 < mlen (pendrange s)" using j by (rule mlen_pos_if_mhas)
          moreover have "minerfail s = int (mlen (pendrange s))" using d by (elim conjE)
          ultimately show ?thesis by linarith
        qed
        ultimately have "moves s0 ?s'"
          by (rule moves_step [OF "2.prems"(1) eq]) (use d look in \<open>auto simp: mhas_def split: if_splits\<close>)
        then show ?thesis using True idle by (simp add: Let_def)
      next
        case False
        let ?s' = "s\<lparr>miner := fmdrop i (fmupd i (Some k) (miner s))\<rparr>"
        have t: "tasks ?s' c = tasks s c" for c
          using idle by (cases "(s, c)" rule: tasks.cases) auto
        have "moves s0 ?s'"
          by (rule moves_step [OF "2.prems"(1), where mi = "miner ?s'" and pr = "pendrange s" and mf = "minerfail s"])
            (use d reshuffle_same [OF t] in \<open>auto simp: mhas_def split: if_splits\<close>)
        then show ?thesis
          using False idle "2.IH"(2) [OF look None refl] "2.prems"(2) by (simp add: Let_def split_beta)
      qed
    qed
  qed
qed

lemma reassign_all_moves: "moves s0 s \<Longrightarrow> moves s0 (fst (reassign_all ch js s))"
proof (induction ch js s rule: reassign_all.induct)
  case (1 ch s)
  then show ?case by simp
next
  case (2 ch j js s)
  show ?case
  proof (cases "fmlookup (pendrange s) j")
    case None
    then show ?thesis using "2.IH"(1) "2.prems" by simp
  next
    case (Some k)
    let ?r = "reassign_to (ch_ok ch) j k (ch_inner ch j (fmdom (miner s))) s"
    have "moves s0 (fst ?r)" by (rule reassign_to_moves [OF "2.prems" Some])
    then have "moves s0 (fst (reassign_all ch js (fst ?r)))"
      using "2.IH"(2) [OF Some, of ?r "fst ?r" "snd ?r"] by simp
    then show ?thesis using Some by (simp add: split_beta)
  qed
qed

lemma reassign_moves: "moves s0 s \<Longrightarrow> moves s0 (fst (reassign ch s))"
  unfolding reassign_def using reassign_all_moves by simp

section \<open>Cutting a job into ranges\<close>

text \<open>The range that \<open>assign\<close> cuts as number \<open>ct\<close>.\<close>

definition piece :: "uint64 \<Rightarrow> uint64 \<Rightarrow> uint64 \<Rightarrow> string \<Rightarrow> uint64 \<Rightarrow> BMessage" where
  "piece block fk limit d ct =
     NewRequest d (ct * fk) (if ct * fk + block > limit then limit else ct * fk + block)"

text \<open>One turn of the loop: the message that is sent, and the two tables.\<close>

definition cut_hold :: "uint64 \<Rightarrow> uint64 \<Rightarrow> uint64 \<Rightarrow> uint64 \<Rightarrow> BMessage \<Rightarrow> BMessage" where
  "cut_hold block fk limit ct hold =
     hold\<lparr>Lower := ct * fk, Upper := (if ct * fk + block > limit then limit else ct * fk + block)\<rparr>"

definition cut_step :: "(int \<Rightarrow> bool) \<Rightarrow> int \<Rightarrow> BMessage \<Rightarrow> scheduler \<Rightarrow> scheduler" where
  "cut_step ok i q s =
     (if ok i then s\<lparr>miner := fmupd i (Some q) (miner s)\<rparr>
      else s\<lparr>miner := fmdrop i (fmupd i (Some q) (miner s)), pendrange := fmupd i q (pendrange s),
             minerfail := minerfail s + 1\<rparr>)"

lemma cut_step_eq:
  "(if ok i then s\<lparr>miner := fmupd i (Some q) (miner s)\<rparr>
    else (s\<lparr>miner := fmupd i (Some q) (miner s)\<rparr>)
      \<lparr>minerfail := minerfail s + 1, pendrange := fmupd i q (pendrange s),
       miner := fmdrop i (fmupd i (Some q) (miner s))\<rparr>) = cut_step ok i q s"
  by (cases s) (simp add: cut_step_def)

lemma assign_loop_Cons:
  assumes "assign_loop ok block fk limit (i # is) ct hold s = (s', es)"
  obtains es' where "assign_loop ok block fk limit is (ct + 1) (cut_hold block fk limit ct hold)
      (cut_step ok i (piece block fk limit (Data hold) ct) s) = (s', es')"
    and "es = WriteMsg i (cut_hold block fk limit ct hold) # es'"
proof -
  let ?low = "ct * fk" and ?up = "if ct * fk + block > limit then limit else ct * fk + block"
  have "assign_loop ok block fk limit (i # is) ct hold s =
    (case assign_loop ok block fk limit is (ct + 1) (cut_hold block fk limit ct hold)
        (cut_step ok i (piece block fk limit (Data hold) ct) s) of
       (s3, es3) \<Rightarrow> (s3, WriteMsg i (cut_hold block fk limit ct hold) # es3))"
    unfolding cut_step_eq [symmetric] by (simp add: Let_def cut_hold_def piece_def)
  then show thesis using assms that by (auto split: prod.splits)
qed

declare assign_loop.simps(2) [simp del]

lemma assign_loop_result:
  assumes "distinct is" and "assign_loop ok block fk limit is ct hold s = (s', es)"
  shows "s' = s\<lparr>miner := miner s', pendrange := pendrange s', minerfail := minerfail s'\<rparr> \<and>
    (\<forall>j. j \<notin> set is \<longrightarrow> fmlookup (miner s') j = fmlookup (miner s) j \<and>
       fmlookup (pendrange s') j = fmlookup (pendrange s) j) \<and>
    (\<forall>t < length is.
       fmlookup (miner s') (is ! t) =
         (if ok (is ! t) then Some (Some (piece block fk limit (Data hold) (ct + word_of_nat t))) else None) \<and>
       fmlookup (pendrange s') (is ! t) =
         (if ok (is ! t) then fmlookup (pendrange s) (is ! t)
          else Some (piece block fk limit (Data hold) (ct + word_of_nat t))))"
  using assms
proof (induction "is" arbitrary: ct hold s s' es)
  case Nil
  then show ?case by simp
next
  case (Cons i "is")
  define p where "p = piece block fk limit (Data hold) ct"
  define s2 where "s2 = cut_step ok i p s"
  define hold1 where "hold1 = cut_hold block fk limit ct hold"
  obtain es' where run: "assign_loop ok block fk limit is (ct + 1) hold1 s2 = (s', es')"
    using assign_loop_Cons [OF Cons.prems(2)] unfolding hold1_def s2_def p_def by blast
  have i: "i \<notin> set is" "distinct is" using Cons.prems(1) by simp_all
  note IH = Cons.IH [OF i(2) run]
  have frame: "s' = s\<lparr>miner := miner s', pendrange := pendrange s', minerfail := minerfail s'\<rparr>"
    using IH by (cases s; cases s') (auto simp: s2_def cut_step_def split: if_splits)
  have D: "Data hold1 = Data hold" by (simp add: hold1_def cut_hold_def)
  have rest: "fmlookup (miner s') (is ! t) = (if ok (is ! t)
         then Some (Some (piece block fk limit (Data hold) (ct + 1 + word_of_nat t))) else None) \<and>
      fmlookup (pendrange s') (is ! t) = (if ok (is ! t) then fmlookup (pendrange s) (is ! t)
         else Some (piece block fk limit (Data hold) (ct + 1 + word_of_nat t)))" if "t < length is" for t
  proof -
    have "is ! t \<noteq> i" using that i(1) by auto
    then have "fmlookup (pendrange s2) (is ! t) = fmlookup (pendrange s) (is ! t)" by (simp add: s2_def cut_step_def)
    then show ?thesis using IH that by (simp add: D)
  qed
  have hd: "fmlookup (miner s') i = (if ok i then Some (Some p) else None) \<and>
      fmlookup (pendrange s') i = (if ok i then fmlookup (pendrange s) i else Some p)"
    using IH i(1) by (simp add: s2_def cut_step_def)
  have outside: "fmlookup (miner s') j = fmlookup (miner s) j \<and> fmlookup (pendrange s') j = fmlookup (pendrange s) j"
    if "j \<notin> set (i # is)" for j
    using IH that by (simp add: s2_def cut_step_def)
  have all: "fmlookup (miner s') ((i # is) ! t) = (if ok ((i # is) ! t)
         then Some (Some (piece block fk limit (Data hold) (ct + word_of_nat t))) else None) \<and>
      fmlookup (pendrange s') ((i # is) ! t) = (if ok ((i # is) ! t) then fmlookup (pendrange s) ((i # is) ! t)
         else Some (piece block fk limit (Data hold) (ct + word_of_nat t)))" if "t < length (i # is)" for t
  proof (cases t)
    case 0
    then show ?thesis using hd by (simp add: p_def)
  next
    case (Suc u)
    then show ?thesis using rest [of u] that by (simp add: add_ac)
  qed
  show ?case using frame outside all by blast
qed

text \<open>
  The place where range number \<open>t\<close> ends up: with its miner, or in \<open>pendrange\<close> when the write to the
  miner fails.
\<close>

definition place :: "(int \<Rightarrow> bool) \<Rightarrow> int list \<Rightarrow> nat \<Rightarrow> bool \<times> int" where
  "place ok is t = (ok (is ! t), is ! t)"

lemma assign_loop_tasks:
  assumes d: "distinct is" and run: "assign_loop ok block fk limit is ct hold s = (s', es)"
    and idle: "outstanding s = {}"
  shows "t < length is \<Longrightarrow>
      tasks s' (place ok is t) = Some (piece block fk limit (Data hold) (ct + word_of_nat t))"
    and "outstanding s' = place ok is ` {..<length is}"
    and "inj_on (place ok is) {..<length is}"
proof -
  note R = assign_loop_result [OF d run]
  have none: "tasks s a = None" for a using idle unfolding outstanding_def by blast
  then have pend: "fmlookup (pendrange s) i = None" for i using none [of "(False, i)"] by simp
  show t: "tasks s' (place ok is t) = Some (piece block fk limit (Data hold) (ct + word_of_nat t))"
    if "t < length is" for t
    using R that by (cases "ok (is ! t)") (simp_all add: place_def)
  show "inj_on (place ok is) {..<length is}"
    using d by (auto simp: inj_on_def place_def nth_eq_iff_index_eq)
  show "outstanding s' = place ok is ` {..<length is}"
  proof
    show "place ok is ` {..<length is} \<subseteq> outstanding s'" using t by (auto simp: outstanding_def)
    show "outstanding s' \<subseteq> place ok is ` {..<length is}"
    proof
      fix a assume a: "a \<in> outstanding s'"
      obtain b i where bi: "a = (b, i)" by (cases a)
      have i: "i \<in> set is"
      proof (rule ccontr)
        assume "i \<notin> set is"
        then have "fmlookup (miner s') i = fmlookup (miner s) i" "fmlookup (pendrange s') i = fmlookup (pendrange s) i"
          using R by blast+
        then have "tasks s' a = tasks s a" unfolding bi by (cases b) simp_all
        then show False using a none by (simp add: outstanding_def)
      qed
      then obtain t where t': "t < length is" "is ! t = i" by (auto simp: in_set_conv_nth)
      have "b = ok i"
        using a R t' pend unfolding bi outstanding_def by (cases b; cases "ok i") auto
      then show "a \<in> place ok is ` {..<length is}" using t' bi by (auto simp: place_def)
    qed
  qed
qed

lemma assign_loop_fails:
  assumes d: "distinct is" and run: "assign_loop ok block fk limit is ct hold s = (s', es)"
    and p: "\<And>i. i \<in> set is \<Longrightarrow> \<not> mhas (pendrange s) i"
    and m: "minerfail s = int (mlen (pendrange s))"
  shows "minerfail s' = int (mlen (pendrange s'))"
  using assms
proof (induction "is" arbitrary: ct hold s s' es)
  case (Cons i "is")
  define q where "q = piece block fk limit (Data hold) ct"
  define s2 where "s2 = cut_step ok i q s"
  obtain es' where run: "assign_loop ok block fk limit is (ct + 1) (cut_hold block fk limit ct hold) s2 = (s', es')"
    using assign_loop_Cons [OF Cons.prems(2)] unfolding s2_def q_def by blast
  have i: "i \<notin> set is" "distinct is" using Cons.prems(1) by simp_all
  have "\<not> mhas (pendrange s) i" using Cons.prems(3) by simp
  then have "minerfail s2 = int (mlen (pendrange s2))"
    using Cons.prems(4) by (simp add: s2_def cut_step_def mlen_upd)
  moreover have "\<not> mhas (pendrange s2) j" if "j \<in> set is" for j
    using Cons.prems(3) [of j] that i(1) by (auto simp: s2_def cut_step_def)
  ultimately show ?case using Cons.IH [OF i(2) run] by blast
qed simp

end
