(* ===== verification/BitSchedulerInv.thy ===== *)
theory BitSchedulerInv
  imports BitSchedulerProps
begin

text \<open>The invariant of the scheduler between two turns, and that every turn keeps it and does not panic.\<close>

section \<open>The invariant\<close>

definition sched_inv :: "scheduler \<Rightarrow> bool" where
  "sched_inv s \<longleftrightarrow>
     pendminer s = fmempty \<and>
     (\<forall>k. mhas (pendjobs s) k \<longleftrightarrow> (if running s then currid s < k else currid s \<le> k) \<and> k < reqct s) \<and>
     (\<forall>k. mhas (pendclients s) k \<longleftrightarrow> mhas (pendjobs s) k) \<and>
     currid s \<le> reqct s \<and> (running s \<longrightarrow> currid s < reqct s) \<and>
     minerfail s = int (mlen (pendrange s)) \<and>
     (\<forall>i. mhas (miner s) i \<longrightarrow> \<not> mhas (pendrange s) i) \<and>
     (running s \<longrightarrow> blockct s = int (card (outstanding s))) \<and>
     (\<not> running s \<longrightarrow> outstanding s = {} \<and> (miner s \<noteq> fmempty \<longrightarrow> pendjobs s = fmempty)) \<and>
     (waitans s \<longleftrightarrow> running s \<and> outstanding s = {}) \<and>
     (waitans s \<longrightarrow> miner s \<noteq> fmempty)"

lemma sched_invD:
  assumes "sched_inv s"
  shows "pendminer s = fmempty"
    and "mhas (pendjobs s) k \<longleftrightarrow> (if running s then currid s < k else currid s \<le> k) \<and> k < reqct s"
    and "mhas (pendclients s) k \<longleftrightarrow> mhas (pendjobs s) k"
    and "currid s \<le> reqct s" and "running s \<Longrightarrow> currid s < reqct s"
    and "minerfail s = int (mlen (pendrange s))"
    and "mhas (miner s) i \<Longrightarrow> \<not> mhas (pendrange s) i"
    and "running s \<Longrightarrow> blockct s = int (card (outstanding s))"
    and "\<not> running s \<Longrightarrow> outstanding s = {}"
    and "\<not> running s \<Longrightarrow> miner s \<noteq> fmempty \<Longrightarrow> pendjobs s = fmempty"
    and "waitans s \<longleftrightarrow> running s \<and> outstanding s = {}"
    and "waitans s \<Longrightarrow> miner s \<noteq> fmempty"
  using assms unfolding sched_inv_def by blast+

lemma sched_invI:
  assumes "pendminer s = fmempty"
    and "\<And>k. mhas (pendjobs s) k \<longleftrightarrow> (if running s then currid s < k else currid s \<le> k) \<and> k < reqct s"
    and "\<And>k. mhas (pendclients s) k \<longleftrightarrow> mhas (pendjobs s) k"
    and "currid s \<le> reqct s" and "running s \<Longrightarrow> currid s < reqct s"
    and "minerfail s = int (mlen (pendrange s))"
    and "\<And>i. mhas (miner s) i \<Longrightarrow> \<not> mhas (pendrange s) i"
    and "running s \<Longrightarrow> blockct s = int (card (outstanding s))"
    and "\<not> running s \<Longrightarrow> outstanding s = {}"
    and "\<not> running s \<Longrightarrow> miner s \<noteq> fmempty \<Longrightarrow> pendjobs s = fmempty"
    and "waitans s \<longleftrightarrow> running s \<and> outstanding s = {}"
    and "waitans s \<Longrightarrow> miner s \<noteq> fmempty"
  shows "sched_inv s"
  using assms unfolding sched_inv_def by blast

lemma outstanding_idle:
  "outstanding s = {} \<longleftrightarrow> (\<forall>i v. fmlookup (miner s) i = Some v \<longrightarrow> v = None) \<and> pendrange s = fmempty"
proof
  assume "outstanding s = {}"
  then have none: "tasks s a = None" for a unfolding outstanding_def by blast
  have "v = None" if "fmlookup (miner s) i = Some v" for i v using none [of "(True, i)"] that by simp
  moreover have "pendrange s = fmempty" using none [of "(False, _)"] by (intro fmempty_exI) simp
  ultimately show "(\<forall>i v. fmlookup (miner s) i = Some v \<longrightarrow> v = None) \<and> pendrange s = fmempty" by blast
next
  assume r: "(\<forall>i v. fmlookup (miner s) i = Some v \<longrightarrow> v = None) \<and> pendrange s = fmempty"
  have "tasks s a = None" for a using r by (cases "(s, a)" rule: tasks.cases) (auto split: option.split)
  then show "outstanding s = {}" by (simp add: outstanding_def)
qed

lemma sched_inv_new: "sched_inv NewScheduler"
proof -
  have "outstanding NewScheduler = {}" by (simp add: outstanding_idle NewScheduler_def)
  then show ?thesis by (simp add: sched_inv_def NewScheduler_def)
qed

section \<open>Assigning a job\<close>

text \<open>The states in which \<open>assign\<close> is called.\<close>

definition ready :: "scheduler \<Rightarrow> bool" where
  "ready s \<longleftrightarrow>
     pendminer s = fmempty \<and> \<not> waitans s \<and> \<not> running s \<and> outstanding s = {} \<and> minerfail s = 0 \<and> miner s \<noteq> fmempty \<and>
     (\<forall>k. mhas (pendjobs s) k \<longleftrightarrow> currid s \<le> k \<and> k < reqct s) \<and>
     (\<forall>k. mhas (pendclients s) k \<longleftrightarrow> mhas (pendjobs s) k) \<and> currid s < reqct s"

text \<open>
  What \<open>assign\<close> does: the job with the current number is cut, one range per miner, and the client of
  that job becomes the current one.
\<close>

definition assigned :: "choice \<Rightarrow> scheduler \<Rightarrow> BMessage \<Rightarrow> scheduler \<Rightarrow> bool" where
  "assigned ch s hold s' \<longleftrightarrow>
     (let is = ch_order ch (fmdom (miner s)); n = mlen (miner s); block = block_size (Upper hold) n in
        length is = n \<and> inj_on (place (ch_ok ch) is) {..<n} \<and>
        outstanding s' = place (ch_ok ch) is ` {..<n} \<and>
        (\<forall>t < n. tasks s' (place (ch_ok ch) is t) =
           Some (piece block (block + 1) (Upper hold) (Data hold) (word_of_nat t))) \<and>
        ans1 s' = max_word \<and> ans2 s' = Upper hold \<and> \<not> jobgiveup s' \<and>
        curclient s' = mget 0 (pendclients s) (currid s) \<and> currid s' = currid s \<and> running s' \<and>
        pendclients s' = fmdrop (currid s) (pendclients s) \<and> pendjobs s' = fmdrop (currid s) (pendjobs s) \<and>
        reqct s' = reqct s)"

lemma assign_ready:
  assumes r: "ready s" and fair: "fair_choice ch"
  obtains s' es hold where "assign ch s = Some (s', es)" and "sched_inv s'" and "\<not> waitans s'"
    and "fmlookup (pendjobs s) (currid s) = Some hold" and "assigned ch s hold s'"
proof -
  have R: "pendminer s = fmempty" "\<not> waitans s" "\<not> running s" "outstanding s = {}" "minerfail s = 0"
    "miner s \<noteq> fmempty" "currid s < reqct s"
    and keys: "\<And>k. mhas (pendjobs s) k \<longleftrightarrow> currid s \<le> k \<and> k < reqct s"
    and clients: "\<And>k. mhas (pendclients s) k \<longleftrightarrow> mhas (pendjobs s) k"
    using r unfolding ready_def by blast+
  have idle: "\<And>i v. fmlookup (miner s) i = Some v \<Longrightarrow> v = None" and pr: "pendrange s = fmempty"
    using R(4) unfolding outstanding_idle by blast+
  obtain hold where hold: "fmlookup (pendjobs s) (currid s) = Some hold"
    using keys [of "currid s"] R(7) by (auto simp: mhas_def)
  let ?is = "ch_order ch (fmdom (miner s))" and ?n = "mlen (miner s)"
  let ?block = "block_size (Upper hold) (mlen (miner s))"
  let ?s1 = "s\<lparr>jobgiveup := False, curclient := mget 0 (pendclients s) (currid s),
      pendjobs := fmdrop (currid s) (pendjobs s), pendclients := fmdrop (currid s) (pendclients s),
      ans1 := max_word, ans2 := Upper hold, blockct := int (mlen (miner s))\<rparr>"
  have en: "enumerates ?is (fmdom (miner s))" using fair by (simp add: fair_choice_def)
  then have dist: "distinct ?is" and len: "length ?is = ?n" by (simp_all add: enumerates_def enumerates_length)
  obtain s2 es where run: "assign_loop (ch_ok ch) ?block (?block + 1) (Upper hold) ?is 0 hold ?s1 = (s2, es)"
    by (cases "assign_loop (ch_ok ch) ?block (?block + 1) (Upper hold) ?is 0 hold ?s1")
  have n: "0 < ?n" using R(6) by simp
  have eq: "assign ch s = Some (s2\<lparr>running := True\<rparr>, es)"
    using hold n run by (simp add: assign_def Let_def)
  have o1: "outstanding ?s1 = {}" using idle pr by (simp add: outstanding_idle)
  note A = assign_loop_result [OF dist run] and T = assign_loop_tasks [OF dist run o1]
  have fr: "s2 = ?s1\<lparr>miner := miner s2, pendrange := pendrange s2, minerfail := minerfail s2\<rparr>"
    using A by blast
  have F: "pendminer s2 = fmempty" "\<not> waitans s2" "pendjobs s2 = fmdrop (currid s) (pendjobs s)"
    "pendclients s2 = fmdrop (currid s) (pendclients s)" "currid s2 = currid s" "reqct s2 = reqct s"
    "blockct s2 = int ?n" "ans1 s2 = max_word" "ans2 s2 = Upper hold" "\<not> jobgiveup s2"
    "curclient s2 = mget 0 (pendclients s) (currid s)"
    by (subst fr, use R in simp)+
  let ?s' = "s2\<lparr>running := True\<rparr>"
  have tk: "tasks ?s' a = tasks s2 a" for a by (cases "(s2, a)" rule: tasks.cases) simp_all
  then have out: "outstanding ?s' = outstanding s2" by (simp add: outstanding_def)
  have card: "card (outstanding s2) = ?n" using T(2,3) len by (simp add: card_image)
  have both: "\<not> mhas (pendrange s2) i" if "mhas (miner s2) i" for i
  proof (cases "i \<in> set ?is")
    case True
    then obtain t where t: "t < length ?is" "?is ! t = i" by (auto simp: in_set_conv_nth)
    then show ?thesis using A that pr by (cases "ch_ok ch i") (auto simp: mhas_def)
  next
    case False
    then have "fmlookup (pendrange s2) i = fmlookup (pendrange ?s1) i" using A by blast
    then show ?thesis using pr by (simp add: mhas_def)
  qed
  have mf: "minerfail s2 = int (mlen (pendrange s2))"
    by (rule assign_loop_fails [OF dist run]) (use pr R(5) in simp_all)
  have inv: "sched_inv ?s'"
  proof (rule sched_invI)
    show "mhas (pendjobs ?s') k \<longleftrightarrow> (if running ?s' then currid ?s' < k else currid ?s' \<le> k) \<and> k < reqct ?s'" for k
      using keys [of k] by (auto simp: F)
    show "mhas (pendclients ?s') k \<longleftrightarrow> mhas (pendjobs ?s') k" for k using clients [of k] by (simp add: F)
    show "waitans ?s' \<longleftrightarrow> running ?s' \<and> outstanding ?s' = {}"
      using F(2) card n unfolding out by auto
  qed (use F R both mf card out in simp_all)
  have "assigned ch s hold ?s'"
    using T len by (simp add: assigned_def Let_def F tk out)
  moreover have "\<not> waitans ?s'" using F(2) by simp
  ultimately show thesis using that eq inv hold by blast
qed

section \<open>Turns\<close>

text \<open>What \<open>reassign\<close> does to a state that satisfies the invariant and has ranges outstanding.\<close>

lemma moves_inv:
  assumes inv: "sched_inv s" and run: "running s" and o: "outstanding s \<noteq> {}" and m: "moves s s'"
  shows "sched_inv s'" and "\<not> waitans s'"
proof -
  note D = sched_invD [OF inv]
  have fr: "s' = s\<lparr>miner := miner s', pendrange := pendrange s', minerfail := minerfail s'\<rparr>"
    and re: "reshuffle s s'" and mf: "minerfail s' = int (mlen (pendrange s'))"
    and both: "\<And>i. mhas (miner s') i \<Longrightarrow> \<not> mhas (pendrange s') i"
    using m unfolding moves_def by blast+
  have F: "pendminer s' = pendminer s" "pendjobs s' = pendjobs s" "pendclients s' = pendclients s"
    "running s' = running s" "currid s' = currid s" "reqct s' = reqct s" "blockct s' = blockct s"
    "waitans s' = waitans s"
    by (subst fr, simp)+
  have card: "card (outstanding s') = card (outstanding s)" using reshuffle_card [OF re] .
  have ne: "outstanding s' \<noteq> {}"
    using card o finite_outstanding [of s] by (metis card_0_eq card.empty finite_outstanding)
  have w: "\<not> waitans s" using D(11) o by simp
  show "sched_inv s'"
    by (rule sched_invI) (use D F card ne o run mf both w in simp_all)
  show "\<not> waitans s'" using w F by simp
qed

lemma resize_none: "pendminer s = fmempty \<Longrightarrow> resize ch s = s"
  by (simp add: resize_def)

lemma resize_one:
  assumes fair: "fair_choice ch" and p: "pendminer s = fmempty"
  shows "resize ch (s\<lparr>pendminer := fmupd i 0 (pendminer s)\<rparr>) = s\<lparr>miner := fmupd i None (miner s)\<rparr>"
proof -
  have "enumerates (ch_order ch {|i|}) {|i|}" using fair unfolding fair_choice_def by blast
  then have "distinct (ch_order ch {|i|})" "fset_of_list (ch_order ch {|i|}) = {|i|}"
    by (simp_all add: enumerates_def)
  then have d: "distinct (ch_order ch {|i|})" "set (ch_order ch {|i|}) = {i}"
    by (auto simp: fset_of_list_elem fset_eq_iff set_eq_iff)
  then have "length (ch_order ch {|i|}) = 1" by (metis distinct_card card_1_singleton_iff One_nat_def)
  then have "ch_order ch {|i|} = [i]" using d(2) by (cases "ch_order ch {|i|}") auto
  moreover have "fmupd i (0::int) fmempty \<noteq> fmempty" by (auto simp: fmap_empty_iff)
  ultimately show ?thesis
    using p by (cases s) (simp add: resize_def fmap_ext)
qed

text \<open>
  The queue of requests, and how a turn can leave it: either it is \<open>q\<close> and no job was started, or it
  was \<open>q\<close> in a state in which the next job was then started.
\<close>

definition queue :: "scheduler \<Rightarrow> (int, int) fmap \<times> (int, BMessage) fmap \<times> int" where
  "queue s = (pendclients s, pendjobs s, reqct s)"

definition begins :: "choice \<Rightarrow> scheduler \<Rightarrow> (int, int) fmap \<times> (int, BMessage) fmap \<times> int \<Rightarrow> scheduler \<Rightarrow> bool" where
  "begins ch s q s' \<longleftrightarrow>
     queue s' = q \<and> (running s' \<longrightarrow> running s \<and> \<not> waitans s) \<or>
     (\<exists>s0 es. ready s0 \<and> queue s0 = q \<and> mlen (miner s0) \<le> Suc (mlen (miner s)) \<and> assign ch s0 = Some (s', es))"

lemma begins_same: "queue s' = q \<Longrightarrow> (running s' \<Longrightarrow> running s \<and> \<not> waitans s) \<Longrightarrow> begins ch s q s'"
  by (simp add: begins_def)

lemma begins_assign:
  "ready s0 \<Longrightarrow> assign ch s0 = Some (s', es) \<Longrightarrow> queue s0 = q \<Longrightarrow> mlen (miner s0) \<le> Suc (mlen (miner s)) \<Longrightarrow>
    begins ch s q s'"
  unfolding begins_def by blast

lemma reassign_keeps: "queue (fst (reassign ch s)) = queue s \<and> running (fst (reassign ch s)) = running s"
proof -
  define P where "P t u \<longleftrightarrow> queue u = queue t \<and> running u = running t" for t u :: scheduler
  have to: "P s (fst (reassign_to ok j k is s))" for ok j k "is" s
    by (induction ok j k "is" s rule: reassign_to.induct)
      (auto simp: P_def queue_def Let_def split: option.splits prod.splits)
  have "P s (fst (reassign_all ch js s))" for js
  proof (induction ch js s rule: reassign_all.induct)
    case (2 ch j js s)
    show ?case
    proof (cases "fmlookup (pendrange s) j")
      case None
      then show ?thesis using 2(1) by simp
    next
      case (Some k)
      obtain s1 e1 where t: "reassign_to (ch_ok ch) j k (ch_inner ch j (fmdom (miner s))) s = (s1, e1)"
        by fastforce
      have "P s s1" using to [of s "ch_ok ch" j k "ch_inner ch j (fmdom (miner s))"] t by simp
      moreover have "P s1 (fst (reassign_all ch js s1))" using 2(2) [OF Some t [symmetric] refl] .
      ultimately show ?thesis using Some t by (auto simp: P_def Let_def split: prod.splits)
    qed
  qed (simp add: P_def)
  then show ?thesis by (simp add: reassign_def P_def)
qed

lemmas queue_reassign = reassign_keeps [THEN conjunct1] and running_reassign = reassign_keeps [THEN conjunct2]

lemma on_result_keeps:
  assumes "on_result ch m s = Some (s', es)"
  shows "queue s' = queue s \<and> running s' = running s"
proof -
  have rec: "queue (record_result m i s) = queue s" "running (record_result m i s) = running s" for i
    by (simp_all add: record_result_def queue_def Let_def)
  have w: "queue (t\<lparr>waitans := True\<rparr>) = queue t" for t by (simp add: queue_def)
  show ?thesis
    using assms reassign_keeps rec
    by (auto simp: on_result_def Let_def w split: if_splits option.splits) (metis fst_conv)+
qed

lemma on_result_begins:
  "\<not> waitans s \<Longrightarrow> on_result ch m s = Some (s', es) \<Longrightarrow> begins ch s (queue s) s'"
  using on_result_keeps [of ch m s s' es] by (intro begins_same) auto

lemma job_done_inv:
  assumes inv: "sched_inv s" and w: "waitans s" and fair: "fair_choice ch"
  obtains s' es where "job_done ch s = Some (s', es)" and "sched_inv s'" and "\<not> waitans s'"
    and "begins ch s (queue s) s'"
proof -
  note D = sched_invD [OF inv]
  have run: "running s" and o: "outstanding s = {}" using D(11) w by blast+
  let ?s1 = "s\<lparr>waitans := False, running := False, currid := currid s + 1\<rparr>"
  let ?e0 = "if \<not> jobgiveup s then [WriteMsg (curclient s) (NewResult (ans1 s) (ans2 s))] else []"
  have o1: "outstanding ?s1 = {}" using o unfolding outstanding_idle by simp
  have keys: "mhas (pendjobs s) k \<longleftrightarrow> currid s + 1 \<le> k \<and> k < reqct s" for k using D(2) [of k] run by auto
  have mf: "minerfail s = 0" using D(6) o unfolding outstanding_idle by simp
  show thesis
  proof (cases "mlen (pendjobs s) \<noteq> 0 \<and> currid s + 1 < reqct s")
    case True
    have r: "ready ?s1"
      unfolding ready_def using D(1) D(3) D(12) [OF w] keys o1 mf True by simp
    then obtain s' es hold where a: "assign ch ?s1 = Some (s', es)" "sched_inv s'" "\<not> waitans s'"
      using assign_ready [OF _ fair] by metis
    have b: "begins ch s (queue s) s'" by (rule begins_assign [OF r a(1)]) (simp_all add: queue_def)
    have "job_done ch s = Some (s', ?e0 @ es)"
      using True D(1) a(1) by (simp add: job_done_def Let_def resize_none)
    then show thesis using that a b by blast
  next
    case False
    have "pendjobs s = fmempty"
    proof (rule ccontr)
      assume "pendjobs s \<noteq> fmempty"
      then obtain k where "mhas (pendjobs s) k" by (auto simp: fmap_empty_iff mhas_def)
      then show False using keys [of k] False \<open>pendjobs s \<noteq> fmempty\<close> by simp
    qed
    then have "sched_inv ?s1"
      by (intro sched_invI) (use D(1,3,4,5,6,7) run keys o1 in \<open>simp_all add: not_less\<close>)
    moreover have "job_done ch s = Some (?s1, ?e0)" using False by (auto simp: job_done_def Let_def)
    moreover have "begins ch s (queue s) ?s1" by (rule begins_same) (simp_all add: queue_def)
    ultimately show thesis using that by simp
  qed
qed

text \<open>
  A turn of a running job that is no result: the ranges are moved at most, and the answer found so
  far and the number and client of the job stay as they are.
\<close>

definition same_job :: "scheduler \<Rightarrow> scheduler \<Rightarrow> bool" where
  "same_job s s' \<longleftrightarrow> reshuffle s s' \<and> ans1 s' = ans1 s \<and> ans2 s' = ans2 s \<and> running s' = running s \<and>
     currid s' = currid s \<and> curclient s' = curclient s"

lemma same_job_trans: "same_job s t \<Longrightarrow> same_job t u \<Longrightarrow> same_job s u"
  unfolding same_job_def using reshuffle_trans by auto

lemma same_job_moves: "moves s s' \<Longrightarrow> same_job s s'"
proof -
  assume m: "moves s s'"
  have fr: "s' = s\<lparr>miner := miner s', pendrange := pendrange s', minerfail := minerfail s'\<rparr>" and "reshuffle s s'"
    using m unfolding moves_def by blast+
  moreover have "ans1 s' = ans1 s" "ans2 s' = ans2 s" "running s' = running s" "currid s' = currid s"
    "curclient s' = curclient s" by (subst fr, simp)+
  ultimately show ?thesis by (simp add: same_job_def)
qed

lemma reassign_inv:
  assumes inv: "sched_inv s" and run: "running s" and w: "\<not> waitans s"
  shows "sched_inv (fst (reassign ch s))" and "\<not> waitans (fst (reassign ch s))"
    and "same_job s (fst (reassign ch s))"
proof -
  note D = sched_invD [OF inv]
  have o: "outstanding s \<noteq> {}" using D(11) run w by blast
  have m: "moves s (fst (reassign ch s))"
    by (rule reassign_moves, rule moves_refl) (use D(6,7) in simp_all)
  show "sched_inv (fst (reassign ch s))" "\<not> waitans (fst (reassign ch s))"
    using moves_inv [OF inv run o m] by simp_all
  show "same_job s (fst (reassign ch s))" using m by (rule same_job_moves)
qed

lemma on_join_inv:
  assumes inv: "sched_inv s" and w: "\<not> waitans s" and fair: "fair_choice ch"
    and new: "\<not> mhas (miner s) i" "\<not> mhas (pendrange s) i"
  obtains s' es where "on_join ch i s = Some (s', es)" and "sched_inv s'" and "\<not> waitans s'"
    and "running s \<Longrightarrow> same_job s s'" and "begins ch s (queue s) s'"
proof -
  note D = sched_invD [OF inv]
  let ?s1 = "s\<lparr>miner := fmupd i None (miner s)\<rparr>"
  have tk: "tasks ?s1 a = tasks s a" for a
    using new(1) by (cases "(s, a)" rule: tasks.cases) (auto simp: mhas_def)
  then have out: "outstanding ?s1 = outstanding s" by (simp add: outstanding_def)
  have same: "same_job s ?s1" using reshuffle_same [OF tk] by (simp add: same_job_def)
  have both: "\<not> mhas (pendrange ?s1) j" if "mhas (miner ?s1) j" for j using that new D(7) [of j] by auto
  have b1: "begins ch s (queue s) ?s1" by (rule begins_same) (use w in \<open>simp_all add: queue_def\<close>)
  show thesis
  proof (cases "running s")
    case True
    have w1: "\<not> waitans ?s1" using w by simp
    have inv1: "sched_inv ?s1"
      by (rule sched_invI) (use D True out both w in simp_all)
    have rs: "resize ch (s\<lparr>pendminer := fmupd i 0 (pendminer s)\<rparr>) = ?s1" using resize_one [OF fair D(1)] .
    have run1: "running ?s1" using True by simp
    note R = reassign_inv [OF inv1 run1 w1, of ch]
    show thesis
    proof (cases "mlen (pendrange s) = 0")
      case none: True
      then have "on_join ch i s = Some (?s1, [])" using True rs by (simp add: on_join_def Let_def)
      then show thesis using that inv1 w1 same b1 by blast
    next
      case False
      then have "on_join ch i s = Some (fst (reassign ch ?s1), snd (reassign ch ?s1))"
        using True rs by (simp add: on_join_def Let_def)
      moreover have "begins ch s (queue s) (fst (reassign ch ?s1))"
        by (rule begins_same) (use w True in \<open>simp_all add: queue_reassign queue_def [of ?s1] queue_def [of s]\<close>)
      ultimately show thesis using that R(1,2) same_job_trans [OF same R(3)] by blast
    qed
  next
    case False
    have idle: "outstanding s = {}" using D(9) False by blast
    then have pr: "pendrange s = fmempty" unfolding outstanding_idle by blast
    have mf: "minerfail s = 0" using D(6) pr by simp
    have m1: "fmupd i None (miner s) \<noteq> fmempty" by (auto simp: fmap_empty_iff)
    show thesis
    proof (cases "pendclients s = fmempty")
      case True
      then have pj: "pendjobs s = fmempty"
        using D(3) by (intro fmempty_exI) (metis mhas_def mhas_empty)
      have "sched_inv ?s1"
        by (rule sched_invI) (use D False out both w idle pj in simp_all)
      moreover have "on_join ch i s = Some (?s1, [])"
        using True False pr by (simp add: on_join_def Let_def)
      ultimately show thesis using that w False b1 by simp
    next
      case pend: False
      then obtain k where "mhas (pendclients s) k" by (auto simp: fmap_empty_iff mhas_def)
      then have "currid s \<le> k" "k < reqct s" using D(2,3) [of k] False by auto
      then have "currid s < reqct s" by simp
      then have r: "ready ?s1"
        unfolding ready_def using D(1,2,3) w False out idle mf m1 by simp
      then obtain s' es hold where a: "assign ch ?s1 = Some (s', es)" "sched_inv s'" "\<not> waitans s'"
        using assign_ready [OF _ fair] by metis
      have "begins ch s (queue s) s'"
        by (rule begins_assign [OF r a(1)]) (simp_all add: queue_def mlen_upd)
      moreover have "on_join ch i s = assign ch ?s1"
        using False pr pend by (simp add: on_join_def Let_def)
      ultimately show thesis using that False a by simp
    qed
  qed
qed

lemma request_ready:
  assumes inv: "sched_inv s" and w: "\<not> waitans s" and run: "\<not> running s" and ne: "miner s \<noteq> fmempty"
  shows "ready (s\<lparr>pendclients := fmupd (reqct s) i (pendclients s),
      pendjobs := fmupd (reqct s) m (pendjobs s), reqct := reqct s + 1\<rparr>)"
    (is "ready ?s1")
proof -
  note D = sched_invD [OF inv]
  have tk: "tasks ?s1 a = tasks s a" for a by (cases "(s, a)" rule: tasks.cases) simp_all
  then have out: "outstanding ?s1 = {}" using D(9) run by (simp add: outstanding_def)
  have keys: "mhas (pendjobs ?s1) k \<longleftrightarrow> currid s \<le> k \<and> k < reqct s + 1" for k
    using D(2) [of k] D(4) run by auto
  have clients: "mhas (pendclients ?s1) k \<longleftrightarrow> mhas (pendjobs ?s1) k" for k using D(3) [of k] by auto
  have mf: "minerfail s = 0" using D(6) D(9) run unfolding outstanding_idle by simp
  show ?thesis unfolding ready_def using D(1,4) w run out mf ne keys clients by simp
qed

lemma on_request_inv:
  assumes inv: "sched_inv s" and w: "\<not> waitans s" and fair: "fair_choice ch"
  obtains s' es where "on_request ch i m s = Some (s', es)" and "sched_inv s'" and "\<not> waitans s'"
    and "running s \<Longrightarrow> same_job s s'"
    and "begins ch s (fmupd (reqct s) i (pendclients s), fmupd (reqct s) m (pendjobs s), reqct s + 1) s'"
proof -
  note D = sched_invD [OF inv]
  let ?s1 = "s\<lparr>pendclients := fmupd (reqct s) i (pendclients s),
      pendjobs := fmupd (reqct s) m (pendjobs s), reqct := reqct s + 1\<rparr>"
  have tk: "tasks ?s1 a = tasks s a" for a by (cases "(s, a)" rule: tasks.cases) simp_all
  then have out: "outstanding ?s1 = outstanding s" by (simp add: outstanding_def)
  have keys: "mhas (pendjobs ?s1) k \<longleftrightarrow> (if running s then currid s < k else currid s \<le> k) \<and> k < reqct s + 1" for k
    using D(2) [of k] D(4,5) by auto
  have clients: "mhas (pendclients ?s1) k \<longleftrightarrow> mhas (pendjobs ?s1) k" for k using D(3) [of k] by auto
  let ?q = "(fmupd (reqct s) i (pendclients s), fmupd (reqct s) m (pendjobs s), reqct s + 1)"
  have b1: "begins ch s ?q ?s1" by (rule begins_same) (use w in \<open>simp_all add: queue_def\<close>)
  show thesis
  proof (cases "running s")
    case True
    have "sched_inv ?s1"
      by (rule sched_invI) (use D True out keys clients w in simp_all)
    moreover have "same_job s ?s1" using reshuffle_same [OF tk] by (simp add: same_job_def)
    moreover have "on_request ch i m s = Some (?s1, [])" using True by (simp add: on_request_def Let_def)
    ultimately show thesis using that w b1 by simp
  next
    case False
    have idle: "outstanding s = {}" using D(9) False by blast
    have mf: "minerfail s = 0" using D(6) idle unfolding outstanding_idle by simp
    show thesis
    proof (cases "miner s = fmempty")
      case True
      have "sched_inv ?s1"
        by (rule sched_invI) (use D True False out keys clients w idle in simp_all)
      moreover have "on_request ch i m s = Some (?s1, [])" using True False by (simp add: on_request_def Let_def)
      ultimately show thesis using that w False b1 by simp
    next
      case ne: False
      have r: "ready ?s1" by (rule request_ready [OF inv w False ne])
      then obtain s' es hold where a: "assign ch ?s1 = Some (s', es)" "sched_inv s'" "\<not> waitans s'"
        using assign_ready [OF _ fair] by metis
      have "begins ch s ?q s'" by (rule begins_assign [OF r a(1)]) (simp_all add: queue_def)
      moreover have "on_request ch i m s = assign ch ?s1"
        using False ne by (simp add: on_request_def Let_def)
      ultimately show thesis using that False a by simp
    qed
  qed
qed

lemma on_lost_rest_inv:
  assumes inv: "sched_inv s" and w: "\<not> waitans s"
  obtains s' es where "on_lost_rest i s = Some (s', es)" and "sched_inv s'" and "\<not> waitans s'"
    and "same_job s s'" and "begins ch s (queue s) s'"
proof -
  note D = sched_invD [OF inv]
  have tk: "tasks (s\<lparr>jobgiveup := True\<rparr>) a = tasks s a" for a by (cases "(s, a)" rule: tasks.cases) simp_all
  then have out: "outstanding (s\<lparr>jobgiveup := True\<rparr>) = outstanding s" by (simp add: outstanding_def)
  have "sched_inv (s\<lparr>jobgiveup := True\<rparr>)"
    by (rule sched_invI) (use D out in simp_all)
  moreover have "same_job s (s\<lparr>jobgiveup := True\<rparr>)" using reshuffle_same [OF tk] by (simp add: same_job_def)
  moreover have "same_job s s" using reshuffle_same [of s s] by (simp add: same_job_def)
  moreover have "on_lost_rest i s = (if i = curclient s then Some (s\<lparr>jobgiveup := True\<rparr>, []) else Some (s, []))"
    using D(1) by (simp add: on_lost_rest_def)
  moreover have "\<not> waitans (s\<lparr>jobgiveup := True\<rparr>)" using w by simp
  moreover have "begins ch s (queue s) (s\<lparr>jobgiveup := True\<rparr>)" "begins ch s (queue s) s"
    by (rule begins_same; use w in \<open>simp add: queue_def\<close>)+
  ultimately show thesis using that inv w by (cases "i = curclient s") metis+
qed

lemma on_lost_inv:
  assumes inv: "sched_inv s" and w: "\<not> waitans s" and fair: "fair_choice ch"
  obtains s' es where "on_lost ch i s = Some (s', es)" and "sched_inv s'" and "\<not> waitans s'"
    and "running s \<Longrightarrow> same_job s s'" and "begins ch s (queue s) s'"
proof -
  note D = sched_invD [OF inv]
  note found = that
  have rest: thesis if "on_lost ch i s = on_lost_rest i s"
    using on_lost_rest_inv [OF inv w, of i ch] that found by metis
  show thesis
  proof (cases "fmlookup (miner s) i")
    case None
    then show thesis using rest by (simp add: on_lost_def)
  next
    case (Some v)
    note look = this
    show thesis
    proof (cases "running s")
      case False
      let ?s1 = "s\<lparr>miner := fmdrop i (miner s)\<rparr>"
      have idle: "outstanding s = {}" using D(9) False by blast
      then have out: "outstanding ?s1 = {}" unfolding outstanding_idle by (auto split: if_splits)
      have "miner s \<noteq> fmempty" using look by (auto simp: fmap_empty_iff)
      then have pj: "pendjobs s = fmempty" using D(10) False by blast
      have "sched_inv ?s1"
        by (rule sched_invI) (use D False out w pj in auto)
      moreover have "on_lost ch i s = Some (?s1, [])" using look False by (simp add: on_lost_def)
      moreover have "begins ch s (queue s) ?s1" by (rule begins_same) (use w in \<open>simp_all add: queue_def\<close>)
      ultimately show thesis using that w False by simp
    next
      case True
      show thesis
      proof (cases v)
        case None
        then show thesis using rest look True by (simp add: on_lost_def)
      next
        case (Some task)
        let ?s1 = "s\<lparr>pendrange := fmupd i task (pendrange s), minerfail := minerfail s + 1,
          miner := fmdrop i (miner s)\<rparr>"
        have ti: "tasks s (True, i) = Some task" using look Some by simp
        have pi: "\<not> mhas (pendrange s) i" using D(7) [of i] look by (simp add: mhas_def)
        have tk: "tasks ?s1 c = (if c = (False, i) then tasks s (True, i) else if c = (True, i) then None else tasks s c)" for c
          using ti by (cases "(s, c)" rule: tasks.cases) auto
        have re: "reshuffle s ?s1"
          by (rule reshuffle_move [OF _ _ tk]) (use ti pi in \<open>simp_all add: mhas_def\<close>)
        then have card: "card (outstanding ?s1) = card (outstanding s)" by (rule reshuffle_card)
        have ne: "outstanding s \<noteq> {}" using D(11) True w by blast
        have "(False, i) \<in> outstanding ?s1" by (simp add: outstanding_def)
        then have o1: "outstanding ?s1 \<noteq> {}" by blast
        have w1: "\<not> waitans ?s1" and run1: "running ?s1" using w True by simp_all
        have inv1: "sched_inv ?s1"
          by (rule sched_invI) (use D True card o1 w pi in \<open>auto simp: mlen_upd\<close>)
        have same: "same_job s ?s1" using re by (simp add: same_job_def)
        have b1: "begins ch s (queue s) ?s1" by (rule begins_same) (use w in \<open>simp_all add: queue_def\<close>)
        note R = reassign_inv [OF inv1 run1 w1, of ch]
        have rs: "resize ch ?s1 = ?s1" by (rule resize_none) (use D(1) in simp)
        show thesis
        proof (cases "mlen (miner ?s1) = 0")
          case none: True
          then have "on_lost ch i s = Some (?s1, [])"
            using look True Some rs by (simp add: on_lost_def Let_def)
          then show thesis using that inv1 w1 same b1 by blast
        next
          case False
          then have "on_lost ch i s = Some (fst (reassign ch ?s1), snd (reassign ch ?s1))"
            using look True Some rs by (simp add: on_lost_def Let_def)
          moreover have "begins ch s (queue s) (fst (reassign ch ?s1))"
            by (rule begins_same) (use w True in \<open>simp_all add: queue_reassign queue_def [of ?s1] queue_def [of s]\<close>)
          ultimately show thesis using that R(1,2) same_job_trans [OF same R(3)] by blast
        qed
      qed
    qed
  qed
qed

text \<open>A result either matches no busy miner, or ends the range of the first that it matches.\<close>

lemma find_taker:
  assumes fair: "fair_choice ch" and t: "takes_result s n i"
  obtains j where "find (takes_result s n) (ch_order ch (fmdom (miner s))) = Some j" and "takes_result s n j"
proof -
  have en: "enumerates (ch_order ch (fmdom (miner s))) (fmdom (miner s))" using fair by (simp add: fair_choice_def)
  have "mhas (miner s) i" using t by (auto simp: takes_result_def mhas_def split: option.splits)
  then have "i \<in> set (ch_order ch (fmdom (miner s)))" using enumerates_mhas [OF en] by simp
  then obtain j where j: "find (takes_result s n) (ch_order ch (fmdom (miner s))) = Some j"
    using t by (cases "find (takes_result s n) (ch_order ch (fmdom (miner s)))") (auto simp: find_None_iff)
  then have "takes_result s n j" by (auto simp: find_Some_iff)
  then show thesis using that j by blast
qed

lemma takes_result_task:
  assumes "takes_result s n i"
  obtains v where "tasks s (True, i) = Some v" and "Lower v \<le> n" and "n \<le> Upper v"
  using assms that by (auto simp: takes_result_def split: option.splits)

lemma record_result_tasks:
  "tasks (record_result m i s) a = (if a = (True, i) then None else tasks s a)"
  by (cases "(s, a)" rule: tasks.cases) (auto simp: record_result_def Let_def)

lemma record_result_fields:
  "pendminer (record_result m i s) = pendminer s" "pendjobs (record_result m i s) = pendjobs s"
  "pendclients (record_result m i s) = pendclients s" "running (record_result m i s) = running s"
  "currid (record_result m i s) = currid s" "reqct (record_result m i s) = reqct s"
  "waitans (record_result m i s) = waitans s" "pendrange (record_result m i s) = pendrange s"
  "minerfail (record_result m i s) = minerfail s" "miner (record_result m i s) = fmupd i None (miner s)"
  "blockct (record_result m i s) = blockct s - 1" "curclient (record_result m i s) = curclient s"
  "jobgiveup (record_result m i s) = jobgiveup s"
  "Answer (ans1 (record_result m i s)) (ans2 (record_result m i s)) =
     min (Answer (HashOf m) (Nonce m)) (Answer (ans1 s) (ans2 s))"
  by (simp_all add: record_result_def Let_def better_min)

lemma on_result_cases:
  assumes inv: "sched_inv s" and w: "\<not> waitans s" and fair: "fair_choice ch" and run: "running s"
  obtains (unmatched) s' es where "on_result ch m s = Some (s', es)" and "sched_inv s'" and "\<not> waitans s'"
      and "same_job s s'" and "\<And>i. \<not> takes_result s (Nonce m) i"
  | (matched) s' es i where "on_result ch m s = Some (s', es)" and "sched_inv s'"
      and "takes_result s (Nonce m) i" and "same_job (record_result m i s) s'"
proof -
  note D = sched_invD [OF inv]
  have ne: "outstanding s \<noteq> {}" using D(11) run w by blast
  have bc: "blockct s = int (card (outstanding s))" using D(8) run by blast
  let ?f = "find (takes_result s (Nonce m)) (ch_order ch (fmdom (miner s)))"
  show thesis
  proof (cases "\<exists>i. takes_result s (Nonce m) i")
    case False
    then have f: "?f = None" by (auto simp: find_None_iff)
    have b: "blockct s \<noteq> 0" using bc ne finite_outstanding [of s] by simp
    note R = reassign_inv [OF inv run w, of ch]
    have same: "same_job s s" using reshuffle_same [of s s] by (simp add: same_job_def)
    show thesis
    proof (cases "minerfail s > 0")
      case True
      then have "on_result ch m s = Some (fst (reassign ch s), snd (reassign ch s))"
        using f run b by (simp add: on_result_def Let_def)
      then show thesis using unmatched R False by blast
    next
      case nf: False
      then have "on_result ch m s = Some (s, [])" using f run b by (simp add: on_result_def Let_def)
      then show thesis using unmatched inv w same False by blast
    qed
  next
    case True
    then obtain i where f: "?f = Some i" and ti: "takes_result s (Nonce m) i"
      using find_taker [OF fair] by blast
    let ?r = "record_result m i s"
    obtain v where v: "tasks s (True, i) = Some v" using takes_result_task [OF ti] .
    have out: "outstanding ?r = outstanding s - {(True, i)}"
      by (auto simp: outstanding_def record_result_tasks)
    have mem: "(True, i) \<in> outstanding s" using v by (simp add: outstanding_def)
    have card: "int (card (outstanding ?r)) = blockct ?r"
    proof -
      have "card (outstanding ?r) = card (outstanding s) - 1" unfolding out using mem by simp
      moreover have "0 < card (outstanding s)" using mem finite_outstanding card_gt_0_iff by blast
      ultimately show ?thesis using bc by (simp add: record_result_fields)
    qed
    have mi: "mhas (miner s) i" using v by (auto simp: mhas_def split: option.splits)
    have both: "\<not> mhas (pendrange ?r) j" if "mhas (miner ?r) j" for j
      using that D(7) [of j] mi by (auto simp: record_result_fields)
    have tk: "tasks (?r\<lparr>waitans := True\<rparr>) a = tasks ?r a" for a by (cases "(?r, a)" rule: tasks.cases) simp_all
    show thesis
    proof (cases "blockct ?r = 0")
      case True
      then have e: "outstanding ?r = {}" using card finite_outstanding [of ?r] by simp
      then have out': "outstanding (?r\<lparr>waitans := True\<rparr>) = {}" using tk by (simp add: outstanding_def)
      have m1: "fmupd i None (miner s) \<noteq> fmempty" by (auto simp: fmap_empty_iff)
      have "sched_inv (?r\<lparr>waitans := True\<rparr>)"
        by (rule sched_invI) (use D run out' both True m1 in \<open>simp_all add: record_result_fields\<close>)
      moreover have "on_result ch m s = Some (?r\<lparr>waitans := True\<rparr>, [])"
        using f run True by (simp add: on_result_def Let_def)
      moreover have "same_job ?r (?r\<lparr>waitans := True\<rparr>)"
        using reshuffle_same [OF tk] by (simp add: same_job_def)
      ultimately show thesis using matched ti by blast
    next
      case False
      then have o: "outstanding ?r \<noteq> {}" using card by auto
      have w1: "\<not> waitans ?r" and run1: "running ?r" using w run by (simp_all add: record_result_fields)
      have inv1: "sched_inv ?r"
        by (rule sched_invI) (use D run o both card w in \<open>simp_all add: record_result_fields\<close>)
      note R = reassign_inv [OF inv1 run1 w1, of ch]
      have same: "same_job ?r ?r" using reshuffle_same [of ?r ?r] by (simp add: same_job_def)
      show thesis
      proof (cases "minerfail ?r > 0")
        case True
        then have "on_result ch m s = Some (fst (reassign ch ?r), snd (reassign ch ?r))"
          using f run False by (simp add: on_result_def Let_def)
        then show thesis using matched ti R by blast
      next
        case nf: False
        then have "on_result ch m s = Some (?r, [])" using f run False by (simp add: on_result_def Let_def)
        then show thesis using matched ti inv1 same by blast
      qed
    qed
  qed
qed

section \<open>Every turn\<close>

text \<open>
  What the network owes the scheduler: a connection joins once. A zero message, which is what a
  payload that does not parse becomes, counts as a \<open>Join\<close>.
\<close>

fun turn_ok :: "scheduler \<Rightarrow> read_result \<Rightarrow> bool" where
  "turn_ok s (ReadErr i) \<longleftrightarrow> True"
| "turn_ok s (ReadMsg i m) \<longleftrightarrow> (BType m = Join \<longrightarrow> \<not> mhas (miner s) i \<and> \<not> mhas (pendrange s) i)"

text \<open>The queue after a turn: a request is entered under the next number.\<close>

definition queue_after :: "scheduler \<Rightarrow> read_result \<Rightarrow> (int, int) fmap \<times> (int, BMessage) fmap \<times> int" where
  "queue_after s rd =
     (case rd of
        ReadMsg i m \<Rightarrow>
          if \<not> waitans s \<and> BType m = Request
          then (fmupd (reqct s) i (pendclients s), fmupd (reqct s) m (pendjobs s), reqct s + 1)
          else queue s
      | ReadErr i \<Rightarrow> queue s)"

lemma sched_turn_inv:
  assumes inv: "sched_inv s" and fair: "fair_choice ch" and ok: "turn_ok s rd"
  obtains s' es where "sched_turn ch rd s = Some (s', es)" and "sched_inv s'"
    and "begins ch s (queue_after s rd) s'"
proof (cases "waitans s")
  case True
  then have "sched_turn ch rd s = job_done ch s" by (simp add: sched_turn_def)
  moreover have "queue_after s rd = queue s" using True by (simp add: queue_after_def split: read_result.split)
  ultimately show thesis using job_done_inv [OF inv True fair] that by metis
next
  case w: False
  show thesis
  proof (cases rd)
    case (ReadErr i)
    then have "sched_turn ch rd s = on_lost ch i s" using w by (simp add: sched_turn_def)
    moreover have "queue_after s rd = queue s" using ReadErr by (simp add: queue_after_def)
    ultimately show thesis using on_lost_inv [OF inv w fair, of i] that by metis
  next
    case (ReadMsg i m)
    have run: "sched_turn ch rd s = (case BType m of Join \<Rightarrow> on_join ch i s | Request \<Rightarrow> on_request ch i m s
        | Result \<Rightarrow> on_result ch m s | BMsgTypeOther _ \<Rightarrow> Some (s, []))"
      using ReadMsg w by (simp add: sched_turn_def)
    show thesis
    proof (cases "BType m")
      case Join
      then have new: "\<not> mhas (miner s) i" "\<not> mhas (pendrange s) i" using ok ReadMsg by simp_all
      have "sched_turn ch rd s = on_join ch i s" using run Join by simp
      moreover have "queue_after s rd = queue s" using ReadMsg Join by (simp add: queue_after_def)
      ultimately show thesis using on_join_inv [OF inv w fair new] that by metis
    next
      case Request
      then have "sched_turn ch rd s = on_request ch i m s" using run by simp
      moreover have "queue_after s rd =
          (fmupd (reqct s) i (pendclients s), fmupd (reqct s) m (pendjobs s), reqct s + 1)"
        using ReadMsg Request w by (simp add: queue_after_def)
      ultimately show thesis using on_request_inv [OF inv w fair, of i m] that by metis
    next
      case Result
      then have res: "sched_turn ch rd s = on_result ch m s" using run by simp
      have q: "queue_after s rd = queue s" using ReadMsg Result by (simp add: queue_after_def)
      show thesis
      proof (cases "running s")
        case True
        obtain s' es where "on_result ch m s = Some (s', es)" "sched_inv s'"
          using on_result_cases [OF inv w fair True, of m] by metis
        then show thesis using that res q on_result_begins [OF w] by metis
      next
        case False
        then have "on_result ch m s = Some (s, [])" by (simp add: on_result_def)
        then show thesis using that res q on_result_begins [OF w] inv by metis
      qed
    next
      case (BMsgTypeOther x)
      then have "queue_after s rd = queue s" using ReadMsg by (simp add: queue_after_def)
      moreover have "begins ch s (queue s) s" by (rule begins_same) (use w in simp_all)
      ultimately show thesis using that inv run BMsgTypeOther by simp
    qed
  qed
qed

end
