(* ===== verification/BitJob.thy ===== *)
theory BitJob
  imports BitSchedulerInv
begin

text \<open>
  The answer to a job. The ranges that \<open>assign\<close> cuts cover the nonces \<open>0..Upper\<close> and do not overlap
  (as long as the arithmetic does not wrap), and once every range has a result from an honest miner
  the scheduler holds the least hash of the job, with the least nonce that has it.
\<close>

section \<open>The pieces\<close>

definition nonces :: "BMessage \<Rightarrow> uint64 set" where
  "nonces m = {Lower m..Upper m}"

text \<open>The size of a block is the quotient, rounded up.\<close>

lemma unat_of_nat_small: "n < 2 ^ 64 \<Longrightarrow> unat (word_of_nat n :: uint64) = n"
  by (simp add: unsigned_of_nat take_bit_eq_mod)

lemma block_size_value:
  assumes n: "0 < n" and b: "unat (upper :: uint64) + 2 * n < 2 ^ 64"
  shows "unat (block_size upper n) = (unat upper + n - 1) div n"
proof -
  let ?u = "unat upper"
  have un: "unat (word_of_nat n :: uint64) = n" using b by (intro unat_of_nat_small) simp
  have q: "unat (upper div word_of_nat n) = ?u div n" "unat (upper mod word_of_nat n) = ?u mod n"
    using un by (simp_all add: unat_div unat_mod)
  have "?u div n < 2 ^ 64 - 1"
  proof -
    have "?u div n \<le> ?u" by (rule div_le_dividend)
    then show ?thesis using b n by linarith
  qed
  then have s: "unat (upper div word_of_nat n + 1) = ?u div n + 1"
    using q(1) by (simp add: unat_word_ariths(1))
  have z: "upper mod word_of_nat n \<noteq> 0 \<longleftrightarrow> ?u mod n \<noteq> 0"
    using q(2) by (metis unat_eq_zero)
  show ?thesis
  proof (cases "?u mod n = 0")
    case True
    then obtain k where k: "?u = n * k" by (metis mod_0_imp_dvd dvdE)
    have "(n * k + n - 1) div n = k"
      using n by (simp add: div_nat_eqI algebra_simps)
    then show ?thesis using True z q(1) k n by (simp add: block_size_def Let_def)
  next
    case False
    let ?r = "?u mod n" and ?k = "?u div n"
    have u: "?u = n * ?k + ?r" by simp
    have r: "1 \<le> ?r" "?r < n" using False n by auto
    have "(?u + n - 1) div n = ?k + 1"
    proof (rule div_nat_eqI)
      have e: "n * (?k + 1) = n * ?k + n" "n * Suc (?k + 1) = n * ?k + 2 * n" by (simp_all add: algebra_simps)
      show "n * (?k + 1) \<le> ?u + n - 1" unfolding e using u r by linarith
      show "?u + n - 1 < n * Suc (?k + 1)" unfolding e using u r by linarith
    qed
    then show ?thesis using False z s by (simp add: block_size_def Let_def)
  qed
qed

lemma block_size_covers:
  assumes "0 < n" and "unat (upper :: uint64) + 2 * n < 2 ^ 64"
  shows "unat upper \<le> n * unat (block_size upper n)"
    and "n * unat (block_size upper n) \<le> unat upper + n - 1"
proof -
  let ?u = "unat upper" and ?x = "unat upper + n - 1"
  have b: "unat (block_size upper n) = ?x div n" using block_size_value [OF assms] .
  show "n * unat (block_size upper n) \<le> ?u + n - 1" unfolding b by simp
  have "?x < n * (?x div n) + n" using assms(1)
    by (metis add_less_cancel_left mod_less_divisor mult_div_mod_eq)
  then show "?u \<le> n * unat (block_size upper n)" unfolding b using assms(1) by linarith
qed

text \<open>The bounds of a piece, without wrap-around.\<close>

lemma piece_bounds:
  assumes n: "t < n" and b: "unat (upper :: uint64) + 2 * n < 2 ^ 64"
  defines "k \<equiv> unat (block_size upper n)"
  shows "unat (Lower (piece (block_size upper n) (block_size upper n + 1) upper d (word_of_nat t))) = t * (k + 1)"
    and "unat (Upper (piece (block_size upper n) (block_size upper n + 1) upper d (word_of_nat t))) =
      min (t * (k + 1) + k) (unat upper)"
proof -
  let ?B = "block_size upper n"
  have n0: "0 < n" using n by simp
  have nk: "n * k \<le> unat upper + n - 1" using block_size_covers(2) [OF n0 b] by (simp add: k_def)
  have top: "t * (k + 1) + k < 2 ^ 64"
  proof -
    have "(t + 1) * (k + 1) \<le> n * (k + 1)" using n by (intro mult_right_mono) simp_all
    then have "t * (k + 1) + k + 1 \<le> n * k + n" by (simp add: algebra_simps)
    then show ?thesis using nk b n0 by linarith
  qed
  have k1: "unat (?B + 1) = k + 1"
  proof (cases "t = 0")
    case True
    have "k \<le> n * k" using n0 by simp
    then have "k + 1 < 2 ^ 64" using nk b n0 by linarith
    then show ?thesis by (simp add: unat_word_ariths(1) k_def)
  next
    case False
    have "k \<le> n * k" using n0 by simp
    then have "k + 1 < 2 ^ 64" using nk b n0 by linarith
    then show ?thesis by (simp add: unat_word_ariths(1) k_def)
  qed
  have tn: "unat (word_of_nat t :: uint64) = t" using n b by (intro unat_of_nat_small) simp
  have low: "unat (word_of_nat t * (?B + 1)) = t * (k + 1)"
    using top by (simp add: unat_word_ariths(2) tn k1)
  then show "unat (Lower (piece ?B (?B + 1) upper d (word_of_nat t))) = t * (k + 1)"
    by (simp add: piece_def)
  have up: "unat (word_of_nat t * (?B + 1) + ?B) = t * (k + 1) + k"
    using top by (simp add: unat_word_ariths(1) low k_def)
  show "unat (Upper (piece ?B (?B + 1) upper d (word_of_nat t))) = min (t * (k + 1) + k) (unat upper)"
    using up by (simp add: piece_def word_less_nat_alt min_def)
qed

lemma piece_nonces:
  assumes n: "t < n" and b: "unat (upper :: uint64) + 2 * n < 2 ^ 64"
  shows "x \<in> nonces (piece (block_size upper n) (block_size upper n + 1) upper d (word_of_nat t)) \<longleftrightarrow>
    x \<le> upper \<and> unat x div (unat (block_size upper n) + 1) = t"
proof -
  let ?k = "unat (block_size upper n)"
  note B = piece_bounds [OF n b, of d]
  have "unat x div (?k + 1) = t \<longleftrightarrow> t * (?k + 1) \<le> unat x \<and> unat x \<le> t * (?k + 1) + ?k"
  proof
    assume "unat x div (?k + 1) = t"
    then have x: "unat x = t * (?k + 1) + unat x mod (?k + 1)" by (metis div_mult_mod_eq)
    have "unat x mod (?k + 1) < ?k + 1" by (rule mod_less_divisor) simp
    then show "t * (?k + 1) \<le> unat x \<and> unat x \<le> t * (?k + 1) + ?k" using x by linarith
  next
    assume a: "t * (?k + 1) \<le> unat x \<and> unat x \<le> t * (?k + 1) + ?k"
    show "unat x div (?k + 1) = t"
      by (rule div_nat_eqI) (use a in \<open>simp_all add: algebra_simps\<close>)
  qed
  then show ?thesis
    using B by (auto simp: nonces_def word_le_nat_alt)
qed

lemma pieces_cover:
  assumes n: "0 < n" and b: "unat (upper :: uint64) + 2 * n < 2 ^ 64" and x: "x \<le> upper"
  shows "\<exists>t < n. x \<in> nonces (piece (block_size upper n) (block_size upper n + 1) upper d (word_of_nat t))"
proof -
  let ?k = "unat (block_size upper n)"
  have "unat x \<le> n * ?k" using block_size_covers(1) [OF n b] x by (simp add: word_le_nat_alt)
  also have "\<dots> < n * (?k + 1)" using n by simp
  finally have "unat x div (?k + 1) < n" by (simp add: less_mult_imp_div_less)
  then show ?thesis using piece_nonces [OF _ b] x by blast
qed

lemma pieces_disjoint:
  assumes "t < n" and "u < n" and "t \<noteq> u" and "unat (upper :: uint64) + 2 * n < 2 ^ 64"
  shows "nonces (piece (block_size upper n) (block_size upper n + 1) upper d (word_of_nat t)) \<inter>
    nonces (piece (block_size upper n) (block_size upper n + 1) upper d (word_of_nat u)) = {}"
  using piece_nonces [OF assms(1,4)] piece_nonces [OF assms(2,4)] assms(3) by auto

section \<open>The invariant of a job\<close>

text \<open>
  \<open>d\<close> is the text and \<open>U\<close> the largest nonce of the job, \<open>H\<close> the hash function. Every nonce lies in an
  outstanding range or has been accounted for in the answer found so far.
\<close>

definition job_inv :: "(string \<Rightarrow> uint64 \<Rightarrow> uint64) \<Rightarrow> string \<Rightarrow> uint64 \<Rightarrow> scheduler \<Rightarrow> bool" where
  "job_inv H d U s \<longleftrightarrow>
     (\<forall>a b v w. tasks s a = Some v \<and> tasks s b = Some w \<and> a \<noteq> b \<longrightarrow> nonces v \<inter> nonces w = {}) \<and>
     (\<forall>a v. tasks s a = Some v \<longrightarrow> Data v = d \<and> nonces v \<subseteq> {0..U}) \<and>
     (\<forall>x \<le> U. (\<exists>a v. tasks s a = Some v \<and> x \<in> nonces v) \<or> Answer (ans1 s) (ans2 s) \<le> Answer (H d x) x) \<and>
     Answer (ans1 s) (ans2 s) \<in> insert (Answer max_word U) (range_answers (H d) 0 U)"

lemma job_invD:
  assumes "job_inv H d U s"
  shows "tasks s a = Some v \<Longrightarrow> tasks s b = Some w \<Longrightarrow> a \<noteq> b \<Longrightarrow> nonces v \<inter> nonces w = {}"
    and "tasks s a = Some v \<Longrightarrow> Data v = d \<and> nonces v \<subseteq> {0..U}"
    and "x \<le> U \<Longrightarrow> (\<exists>a v. tasks s a = Some v \<and> x \<in> nonces v) \<or> Answer (ans1 s) (ans2 s) \<le> Answer (H d x) x"
    and "Answer (ans1 s) (ans2 s) \<in> insert (Answer max_word U) (range_answers (H d) 0 U)"
  using assms unfolding job_inv_def by blast+

lemma job_invI:
  assumes "\<And>a b v w. tasks s a = Some v \<Longrightarrow> tasks s b = Some w \<Longrightarrow> a \<noteq> b \<Longrightarrow> nonces v \<inter> nonces w = {}"
    and "\<And>a v. tasks s a = Some v \<Longrightarrow> Data v = d \<and> nonces v \<subseteq> {0..U}"
    and "\<And>x. x \<le> U \<Longrightarrow> (\<exists>a v. tasks s a = Some v \<and> x \<in> nonces v) \<or> Answer (ans1 s) (ans2 s) \<le> Answer (H d x) x"
    and "Answer (ans1 s) (ans2 s) \<in> insert (Answer max_word U) (range_answers (H d) 0 U)"
  shows "job_inv H d U s"
  using assms unfolding job_inv_def by blast

text \<open>\<open>assign\<close> establishes it.\<close>

lemma assigned_job_inv:
  assumes a: "assigned ch s hold s'" and n: "miner s \<noteq> fmempty"
    and b: "unat (Upper hold) + 2 * mlen (miner s) < 2 ^ 64"
  shows "job_inv H (Data hold) (Upper hold) s'"
proof -
  define P where "P = place (ch_ok ch) (ch_order ch (fmdom (miner s)))"
  define n where "n = mlen (miner s)"
  define B where "B = block_size (Upper hold) n"
  define Q where "Q t = piece B (B + 1) (Upper hold) (Data hold) (word_of_nat t)" for t
  have n0: "0 < n" using n by (simp add: n_def)
  have bn: "unat (Upper hold) + 2 * n < 2 ^ 64" using b by (simp add: n_def)
  have inj: "inj_on P {..<n}" and out: "outstanding s' = P ` {..<n}"
    and tk: "\<And>t. t < n \<Longrightarrow> tasks s' (P t) = Some (Q t)"
    and ans: "ans1 s' = max_word" "ans2 s' = Upper hold"
    using a unfolding assigned_def Let_def P_def n_def B_def Q_def by simp_all
  have at: "\<exists>t < n. c = P t \<and> v = Q t" if "tasks s' c = Some v" for c v
  proof -
    have "c \<in> P ` {..<n}" using that out by (auto simp: outstanding_def)
    then show ?thesis using tk that by auto
  qed
  have D: "nonces (Q t) \<inter> nonces (Q u) = {}" if "t < n" "u < n" "t \<noteq> u" for t u
    unfolding Q_def B_def by (rule pieces_disjoint [OF that bn])
  have S: "nonces (Q t) \<subseteq> {0..Upper hold}" if "t < n" for t
    using piece_nonces [OF that bn] unfolding Q_def B_def by auto
  have C: "\<exists>t < n. x \<in> nonces (Q t)" if "x \<le> Upper hold" for x
    unfolding Q_def B_def by (rule pieces_cover [OF n0 bn that])
  show ?thesis
  proof (rule job_invI)
    show "nonces v \<inter> nonces w = {}" if "tasks s' c = Some v" "tasks s' e = Some w" "c \<noteq> e" for c e v w
      using at [OF that(1)] at [OF that(2)] that(3) D by blast
    show "Data v = Data hold \<and> nonces v \<subseteq> {0..Upper hold}" if "tasks s' c = Some v" for c v
      using at [OF that] S by (auto simp: Q_def piece_def)
    show "(\<exists>c v. tasks s' c = Some v \<and> x \<in> nonces v) \<or>
        Answer (ans1 s') (ans2 s') \<le> Answer (H (Data hold) x) x" if "x \<le> Upper hold" for x
      using C [OF that] tk by blast
  qed (simp add: ans)
qed

text \<open>A turn that only moves ranges keeps it.\<close>

lemma same_job_inv:
  assumes j: "job_inv H d U s" and s: "same_job s s'"
  shows "job_inv H d U s'"
proof -
  note D = job_invD [OF j]
  have re: "reshuffle s s'" and ans: "ans1 s' = ans1 s" "ans2 s' = ans2 s" using s by (simp_all add: same_job_def)
  obtain f where f: "bij_betw f (outstanding s) (outstanding s')" "\<forall>a \<in> outstanding s. tasks s' (f a) = tasks s a"
    using re unfolding reshuffle_def by blast
  have src: "\<exists>a. b = f a \<and> tasks s a = Some v" if "tasks s' b = Some v" for b v
  proof -
    have "b \<in> f ` outstanding s" using bij_betw_imp_surj_on [OF f(1)] that by (simp add: outstanding_def)
    then obtain a where a: "a \<in> outstanding s" "b = f a" by blast
    then have "tasks s a = Some v" using f(2) that by simp
    with a(2) show ?thesis by blast
  qed
  show ?thesis
  proof (rule job_invI)
    show "nonces v \<inter> nonces w = {}" if t: "tasks s' a = Some v" "tasks s' b = Some w" "a \<noteq> b" for a b v w
    proof -
      obtain a' b' where "a = f a'" "tasks s a' = Some v" "b = f b'" "tasks s b' = Some w"
        using src [OF t(1)] src [OF t(2)] by blast
      then show ?thesis using D(1) [of a' v b' w] t(3) by blast
    qed
    show "Data v = d \<and> nonces v \<subseteq> {0..U}" if "tasks s' a = Some v" for a v
      using src [OF that] D(2) by blast
    show "(\<exists>a v. tasks s' a = Some v \<and> x \<in> nonces v) \<or> Answer (ans1 s') (ans2 s') \<le> Answer (H d x) x"
      if "x \<le> U" for x
      using D(3) [OF that] reshuffle_forth [OF re] unfolding ans by blast
    show "Answer (ans1 s') (ans2 s') \<in> insert (Answer max_word U) (range_answers (H d) 0 U)"
      using D(4) unfolding ans .
  qed
qed

text \<open>A result of an honest miner ends its range and accounts for the nonces in it.\<close>

lemma record_result_inv:
  assumes j: "job_inv H d U s" and v: "tasks s (True, i) = Some v"
    and h: "honest_result (H (Data v)) (Lower v) (Upper v) (HashOf m) (Nonce m)"
  shows "job_inv H d U (record_result m i s)"
proof (rule job_invI)
  note D = job_invD [OF j]
  let ?r = "record_result m i s" and ?a = "Answer (HashOf m) (Nonce m)"
  have ans: "Answer (ans1 ?r) (ans2 ?r) = min ?a (Answer (ans1 s) (ans2 s))"
    by (rule record_result_fields)
  have dv: "Data v = d" "nonces v \<subseteq> {0..U}" using D(2) [OF v] by blast+
  have tk: "tasks ?r a = Some w \<Longrightarrow> a \<noteq> (True, i) \<and> tasks s a = Some w" for a w
    by (simp add: record_result_tasks split: if_splits)
  show "nonces u \<inter> nonces w = {}" if "tasks ?r a = Some u" "tasks ?r b = Some w" "a \<noteq> b" for a b u w
    using tk [OF that(1)] tk [OF that(2)] D(1) that(3) by blast
  show "Data u = d \<and> nonces u \<subseteq> {0..U}" if "tasks ?r a = Some u" for a u
    using tk [OF that] D(2) by blast
  show "(\<exists>a u. tasks ?r a = Some u \<and> x \<in> nonces u) \<or> Answer (ans1 ?r) (ans2 ?r) \<le> Answer (H d x) x"
    if x: "x \<le> U" for x
  proof (cases "x \<in> nonces v")
    case True
    then have "Answer (H d x) x \<in> range_answers (H d) (Lower v) (Upper v)"
      by (simp add: range_answers_def nonces_def)
    then have "?a \<le> Answer (H d x) x" using h dv(1) by (simp add: honest_result_def least_answer_def)
    then show ?thesis unfolding ans by (simp add: min_le_iff_disj)
  next
    case False
    show ?thesis
      using D(3) [OF x]
    proof
      assume "\<exists>a u. tasks s a = Some u \<and> x \<in> nonces u"
      then obtain a u where a: "tasks s a = Some u" "x \<in> nonces u" by blast
      then have "a \<noteq> (True, i)" using v False by auto
      then have "tasks ?r a = Some u" using a(1) by (simp add: record_result_tasks)
      then show ?thesis using a(2) by blast
    next
      assume "Answer (ans1 s) (ans2 s) \<le> Answer (H d x) x"
      then show ?thesis unfolding ans by (simp add: min_le_iff_disj)
    qed
  qed
  have "?a \<in> range_answers (H d) 0 U"
    using honest_result_range [OF h] dv by (auto simp: range_answers_def nonces_def)
  then show "Answer (ans1 ?r) (ans2 ?r) \<in> insert (Answer max_word U) (range_answers (H d) 0 U)"
    unfolding ans using D(4) by (auto simp: min_def)
qed

text \<open>With nothing outstanding the answer is the least of the job.\<close>

lemma job_inv_answer:
  assumes j: "job_inv H d U s" and o: "outstanding s = {}"
  shows "least_answer (range_answers (H d) 0 U) (Answer (ans1 s) (ans2 s))"
proof -
  note D = job_invD [OF j]
  let ?a = "Answer (ans1 s) (ans2 s)"
  have none: "tasks s a = None" for a using o unfolding outstanding_def by blast
  have le: "?a \<le> Answer (H d x) x" if "x \<le> U" for x using D(3) [OF that] none by simp
  have in_U: "Answer (H d U) U \<in> range_answers (H d) 0 U" by (simp add: range_answers_def)
  have "?a \<in> range_answers (H d) 0 U"
  proof (cases "?a = Answer max_word U")
    case True
    then have "max_word < H d U \<or> max_word = H d U" using le [of U] by (simp add: less_eq_answer_def)
    then have "H d U = max_word" using le_max_word [of "H d U"] by (metis leD)
    then show ?thesis using True in_U by simp
  next
    case False
    then show ?thesis using D(4) by blast
  qed
  then show ?thesis using le by (auto simp: least_answer_def range_answers_def)
qed

section \<open>The miners as a service\<close>

text \<open>
  What the server relies on: a miner that is sent a range answers with the least hash of it. The
  interface is met by the search loop of the miner program.
\<close>

locale mining_service =
  fixes H :: "string \<Rightarrow> uint64 \<Rightarrow> uint64" and serve :: "BMessage \<Rightarrow> BMessage option"
  assumes serve_least: "Lower m \<le> Upper m \<Longrightarrow> Upper m < max_word \<Longrightarrow>
    \<exists>h n. serve m = Some (NewResult h n) \<and> honest_result (H (Data m)) (Lower m) (Upper m) h n"
begin

lemma served:
  assumes "serve v = Some m" and "Lower v \<le> Upper v" and "Upper v < max_word"
  shows "BType m = Result" and "honest_result (H (Data v)) (Lower v) (Upper v) (HashOf m) (Nonce m)"
  using serve_least [OF assms(2,3)] assms(1) by auto

end

definition miner_serve :: "(string \<Rightarrow> uint64 \<Rightarrow> uint64) \<Rightarrow> BMessage \<Rightarrow> BMessage option" where
  "miner_serve hash m =
     (case miner_turn hash (Some m) True of
        Some ([MWrite r], True) \<Rightarrow> Some r
      | _ \<Rightarrow> None)"

interpretation gominer: mining_service hash "miner_serve hash" for hash
proof
  fix m :: BMessage
  assume "Lower m \<le> Upper m" and "Upper m < max_word"
  then obtain h n where r: "miner_turn hash (Some m) True = Some ([MWrite (NewResult h n)], True)"
    "honest_result (hash (Data m)) (Lower m) (Upper m) h n"
    using miner_turn_honest [of m hash] by blast
  then show "\<exists>h n. miner_serve hash m = Some (NewResult h n) \<and>
      honest_result (hash (Data m)) (Lower m) (Upper m) h n"
    by (intro exI [of _ h] exI [of _ n]) (simp add: miner_serve_def)
qed

section \<open>From the assignment to the answer\<close>

text \<open>
  While a job runs the results come from miners that work on a range of it, each of which is what
  the miner program computes for that range.
\<close>

fun honest_event :: "(string \<Rightarrow> uint64 \<Rightarrow> uint64) \<Rightarrow> scheduler \<Rightarrow> read_result \<Rightarrow> bool" where
  "honest_event hash s (ReadErr i) \<longleftrightarrow> True"
| "honest_event hash s (ReadMsg i m) \<longleftrightarrow>
     (BType m = Result \<longrightarrow>
        (\<exists>j v. tasks s (True, j) = Some v \<and> miner_serve hash v = Some m))"

lemma job_turn_inv:
  assumes inv: "sched_inv s" and j: "job_inv hash d U s" and U: "U < max_word" and run: "running s"
    and w: "\<not> waitans s" and fair: "fair_choice ch" and ok: "turn_ok s rd" and h: "honest_event hash s rd"
    and st: "sched_turn ch rd s = Some (s', es)"
  shows "sched_inv s'" and "job_inv hash d U s'" and "running s'" and "currid s' = currid s"
    and "curclient s' = curclient s"
proof -
  show "sched_inv s'" using sched_turn_inv [OF inv fair ok] st by auto
  have "same_job s s' \<or> (\<exists>i v m. tasks s (True, i) = Some v \<and>
      honest_result (hash (Data v)) (Lower v) (Upper v) (HashOf m) (Nonce m) \<and> same_job (record_result m i s) s')"
  proof (cases rd)
    case (ReadErr i)
    then have "on_lost ch i s = Some (s', es)" using st w by (simp add: sched_turn_def)
    then show ?thesis using on_lost_inv [OF inv w fair, of i] run by (metis option.inject prod.inject)
  next
    case (ReadMsg i m)
    have go: "(case BType m of Join \<Rightarrow> on_join ch i s | Request \<Rightarrow> on_request ch i m s
        | Result \<Rightarrow> on_result ch m s | BMsgTypeOther _ \<Rightarrow> Some (s, [])) = Some (s', es)"
      using st w ReadMsg by (simp add: sched_turn_def)
    show ?thesis
    proof (cases "BType m")
      case Join
      then have new: "\<not> mhas (miner s) i" "\<not> mhas (pendrange s) i" using ok ReadMsg by simp_all
      have "on_join ch i s = Some (s', es)" using go Join by simp
      then show ?thesis using on_join_inv [OF inv w fair new] run by (metis option.inject prod.inject)
    next
      case Request
      then have "on_request ch i m s = Some (s', es)" using go by simp
      then show ?thesis using on_request_inv [OF inv w fair, of i m] run by (metis option.inject prod.inject)
    next
      case Result
      then have res: "on_result ch m s = Some (s', es)" using go by simp
      obtain k v where task: "tasks s (True, k) = Some v" "miner_serve hash v = Some m"
        using h ReadMsg Result by auto
      show ?thesis
      proof (cases "Lower v \<le> Upper v")
      case False
      have nm: "Nonce m = max_word"
        using task(2) miner_turn_empty [OF False, of hash] NewResult_simps(3) [of max_word max_word]
        by (simp add: miner_serve_def)
      have none: "\<not> takes_result s (Nonce m) l" for l
      proof
        assume "takes_result s (Nonce m) l"
        then obtain u where u: "tasks s (True, l) = Some u" "max_word \<in> nonces u"
          using takes_result_task nm by (metis atLeastAtMost_iff nonces_def)
        then have "max_word \<le> U" using job_invD(2) [OF j u(1)] by auto
        then show False using U by simp
      qed
      show ?thesis
      proof (cases rule: on_result_cases [OF inv w fair run, of m])
        case (1 t fs)
        then show ?thesis using res by simp
      next
        case (2 t fs l)
        then show ?thesis using none by simp
      qed
      next
      case True
      then have v: "tasks s (True, k) = Some v" "Lower v \<le> Upper v" "miner_serve hash v = Some m"
        using task by simp_all
      have "Upper v \<in> nonces v" using v(2) by (simp add: nonces_def)
      then have "Upper v \<le> U" using job_invD(2) [OF j v(1)] by auto
      then have "Upper v < max_word" using U by simp
      then have hon: "honest_result (hash (Data v)) (Lower v) (Upper v) (HashOf m) (Nonce m)"
        by (rule gominer.served(2) [OF v(3,2)])
      have nv: "Nonce m \<in> nonces v" using honest_result_range [OF hon] by (simp add: nonces_def)
      have tk: "takes_result s (Nonce m) k"
        using v(1) nv by (auto simp: takes_result_def nonces_def split: option.splits)
      show ?thesis
      proof (cases rule: on_result_cases [OF inv w fair run, of m])
        case (1 t fs)
        then show ?thesis using tk by blast
      next
        case (2 t fs l)
        obtain u where u: "tasks s (True, l) = Some u" "Nonce m \<in> nonces u"
          using takes_result_task [OF 2(3)] by (auto simp: nonces_def)
        have "l = k" using job_invD(1) [OF j u(1) v(1)] u(2) nv by blast
        moreover have "same_job (record_result m l s) s'" using 2(1,4) res by simp
        ultimately show ?thesis using v(1) hon by blast
      qed
      qed
    next
      case (BMsgTypeOther x)
      then have "s' = s" using go by simp
      then show ?thesis using reshuffle_same [of s s] by (simp add: same_job_def)
    qed
  qed
  then have "job_inv hash d U s' \<and> running s' \<and> currid s' = currid s \<and> curclient s' = curclient s"
  proof (elim disjE exE conjE)
    assume same: "same_job s s'"
    then show ?thesis using same_job_inv [OF j same] run by (simp add: same_job_def)
  next
    fix i v m
    assume v: "tasks s (True, i) = Some v" and same: "same_job (record_result m i s) s'"
      and hon: "honest_result (hash (Data v)) (Lower v) (Upper v) (HashOf m) (Nonce m)"
    show ?thesis
      using same_job_inv [OF record_result_inv [OF j v hon] same] same run
      by (simp add: same_job_def record_result_fields)
  qed
  then show "job_inv hash d U s'" "running s'" "currid s' = currid s" "curclient s' = curclient s"
    by blast+
qed

text \<open>The states of one job, from the assignment on.\<close>

inductive job_reach :: "(string \<Rightarrow> uint64 \<Rightarrow> uint64) \<Rightarrow> scheduler \<Rightarrow> scheduler \<Rightarrow> bool" for hash s0 where
  job_start: "job_reach hash s0 s0"
| job_turn: "job_reach hash s0 s \<Longrightarrow> \<not> waitans s \<Longrightarrow> fair_choice ch \<Longrightarrow> turn_ok s rd \<Longrightarrow>
    honest_event hash s rd \<Longrightarrow> sched_turn ch rd s = Some (s', es) \<Longrightarrow> job_reach hash s0 s'"

lemma job_reach_inv:
  assumes "job_reach hash s0 s" and "sched_inv s0" and "job_inv hash d U s0" and "U < max_word" and "running s0"
  shows "sched_inv s \<and> job_inv hash d U s \<and> running s \<and> currid s = currid s0 \<and> curclient s = curclient s0"
  using assms(1)
proof (induction rule: job_reach.induct)
  case job_start
  then show ?case using assms by simp
next
  case (job_turn s ch rd s' es)
  then show ?case
    using job_turn_inv [of s hash d U ch rd s' es] assms(4) by auto
qed

lemma job_answer:
  assumes r: "ready s0" and fair: "fair_choice ch" and a: "assign ch s0 = Some (s1, es)"
    and hold: "fmlookup (pendjobs s0) (currid s0) = Some hold"
    and b: "unat (Upper hold) + 2 * mlen (miner s0) < 2 ^ 64"
    and reach: "job_reach hash s1 s" and w: "waitans s"
  shows "least_answer (range_answers (hash (Data hold)) 0 (Upper hold)) (Answer (ans1 s) (ans2 s))"
    and "curclient s = mget 0 (pendclients s0) (currid s0)" and "sched_inv s"
proof -
  obtain t fs hold' where t: "assign ch s0 = Some (t, fs)" "sched_inv t" "\<not> waitans t"
    "fmlookup (pendjobs s0) (currid s0) = Some hold'" "assigned ch s0 hold' t"
    using assign_ready [OF r fair] .
  have eq: "t = s1" "hold' = hold" using t(1,4) a hold by simp_all
  have n: "miner s0 \<noteq> fmempty" using r by (simp add: ready_def)
  have as: "assigned ch s0 hold s1" using t(5) unfolding eq .
  have j: "job_inv hash (Data hold) (Upper hold) s1" by (rule assigned_job_inv [OF as n b])
  have "0 < mlen (miner s0)" using n by simp
  then have "unat (Upper hold) < 2 ^ 64 - 1" using b by linarith
  moreover have "unat max_word = 2 ^ 64 - 1" 
    unfolding max_word_def by (simp add: unsigned_minus_1_eq_mask mask_eq_exp_minus_1)
  ultimately have "unat (Upper hold) < unat max_word" by simp
  then have U: "Upper hold < max_word" by (simp add: word_less_nat_alt)
  have run: "running s1" and cl: "curclient s1 = mget 0 (pendclients s0) (currid s0)"
    using as by (simp_all add: assigned_def Let_def)
  have "sched_inv s1" using t(2) unfolding eq .
  note R = job_reach_inv [OF reach this j U run]
  have "outstanding s = {}" using sched_invD(11) R w by blast
  then show "least_answer (range_answers (hash (Data hold)) 0 (Upper hold)) (Answer (ans1 s) (ans2 s))"
    using job_inv_answer R by blast
  show "curclient s = mget 0 (pendclients s0) (currid s0)" using R cl by simp
  show "sched_inv s" using R by blast
qed

section \<open>Ranges that are empty\<close>

text \<open>A range that is empty is never ended: no nonce lies in it.\<close>

lemma empty_range_stays:
  assumes inv: "sched_inv s" and run: "running s" and w: "\<not> waitans s" and fair: "fair_choice ch"
    and v: "tasks s a = Some v" "\<not> Lower v \<le> Upper v" and r: "on_result ch m s = Some (s', es)"
  shows "\<exists>b. tasks s' b = Some v" and "\<not> waitans s'"
proof -
  have "\<exists>b. tasks s' b = Some v"
  proof (cases rule: on_result_cases [OF inv w fair run, of m])
    case (1 t fs)
    have "reshuffle s s'" using 1(1,4) r by (simp add: same_job_def)
    then show ?thesis by (rule reshuffle_forth [OF _ v(1)])
  next
    case (2 t fs i)
    obtain u where u: "tasks s (True, i) = Some u" "Lower u \<le> Upper u"
      using takes_result_task [OF 2(3)] by (metis order.trans)
    then have "a \<noteq> (True, i)" using v by auto
    then have "tasks (record_result m i s) a = Some v" using v(1) by (simp add: record_result_tasks)
    moreover have "reshuffle (record_result m i s) s'" using 2(1,4) r by (simp add: same_job_def)
    ultimately show ?thesis using reshuffle_forth by blast
  qed
  moreover from this have "outstanding s' \<noteq> {}" by (auto simp: outstanding_def)
  moreover have "sched_inv s'"
    using on_result_cases [OF inv w fair run, of m] r by (metis option.inject prod.inject)
  ultimately show "\<exists>b. tasks s' b = Some v" and "\<not> waitans s'" using sched_invD(11) by blast+
qed

end
