(* ===== verification/BitService.thy ===== *)
theory BitService
  imports BitJob
begin

text \<open>
  The scheduler from its start, with the requests that were read so far. The pending tables hold the
  requests under their numbers in the order of arrival, and while a job runs the state satisfies the
  invariant of the request with the current number. So an answer goes to the client that asked, in
  the order of the requests, and is the least answer of what was asked.
\<close>

section \<open>Runs of the server\<close>

text \<open>A request that is read in a turn that calls \<open>Read\<close>.\<close>

definition new_request :: "scheduler \<Rightarrow> read_result \<Rightarrow> (int \<times> BMessage) list" where
  "new_request s rd =
     (case rd of
        ReadMsg i m \<Rightarrow> if \<not> waitans s \<and> BType m = Request then [(i, m)] else []
      | ReadErr i \<Rightarrow> [])"

text \<open>
  The sizes for which the 64-bit arithmetic of \<open>assign\<close> does not wrap: fewer than \<open>2 ^ 61\<close> miners, and
  requests up to a nonce below \<open>2 ^ 63\<close>.
\<close>

definition small_turn :: "scheduler \<Rightarrow> read_result \<Rightarrow> bool" where
  "small_turn s rd \<longleftrightarrow> mlen (miner s) < 2 ^ 61 \<and> (\<forall>r \<in> set (new_request s rd). unat (Upper (snd r)) < 2 ^ 63)"

inductive service :: "(string \<Rightarrow> uint64 \<Rightarrow> uint64) \<Rightarrow> (int \<times> BMessage) list \<Rightarrow> scheduler \<Rightarrow> bool" for hash where
  service_new: "service hash [] NewScheduler"
| service_turn: "service hash reqs s \<Longrightarrow> fair_choice ch \<Longrightarrow> turn_ok s rd \<Longrightarrow> small_turn s rd \<Longrightarrow>
    (running s \<and> \<not> waitans s \<longrightarrow> honest_event hash s rd) \<Longrightarrow> sched_turn ch rd s = Some (s', es) \<Longrightarrow>
    service hash (reqs @ new_request s rd) s'"

section \<open>The invariant\<close>

text \<open>The request with number \<open>k\<close>; the numbers start at 1.\<close>

definition request_no :: "(int \<times> BMessage) list \<Rightarrow> int \<Rightarrow> int \<times> BMessage" where
  "request_no reqs k = reqs ! nat (k - 1)"

definition queue_inv :: "(int \<times> BMessage) list \<Rightarrow> (int, int) fmap \<times> (int, BMessage) fmap \<times> int \<Rightarrow> bool" where
  "queue_inv reqs q \<longleftrightarrow>
     (case q of (clients, jobs, ct) \<Rightarrow>
        ct = int (length reqs) + 1 \<and>
        (\<forall>k v. fmlookup clients k = Some v \<longrightarrow> 1 \<le> k \<and> k < ct \<and> v = fst (request_no reqs k)) \<and>
        (\<forall>k v. fmlookup jobs k = Some v \<longrightarrow> 1 \<le> k \<and> k < ct \<and> v = snd (request_no reqs k)))"

definition current_job :: "(string \<Rightarrow> uint64 \<Rightarrow> uint64) \<Rightarrow> (int \<times> BMessage) list \<Rightarrow> scheduler \<Rightarrow> bool" where
  "current_job hash reqs s \<longleftrightarrow>
     (let r = request_no reqs (currid s)
      in 1 \<le> currid s \<and> currid s \<le> int (length reqs) \<and> curclient s = fst r \<and> Upper (snd r) < max_word \<and>
         job_inv hash (Data (snd r)) (Upper (snd r)) s)"

definition service_inv :: "(string \<Rightarrow> uint64 \<Rightarrow> uint64) \<Rightarrow> (int \<times> BMessage) list \<Rightarrow> scheduler \<Rightarrow> bool" where
  "service_inv hash reqs s \<longleftrightarrow>
     sched_inv s \<and> queue_inv reqs (queue s) \<and> (running s \<longrightarrow> current_job hash reqs s) \<and>
     (\<forall>r \<in> set reqs. unat (Upper (snd r)) < 2 ^ 63)"

lemma request_no_append:
  "1 \<le> k \<Longrightarrow> k \<le> int (length reqs) \<Longrightarrow> request_no (reqs @ rs) k = request_no reqs k"
  by (simp add: request_no_def nth_append nat_less_iff)

lemma request_no_last: "request_no (reqs @ [r]) (int (length reqs) + 1) = r"
  by (simp add: request_no_def)

lemma request_no_set: "1 \<le> k \<Longrightarrow> k \<le> int (length reqs) \<Longrightarrow> request_no reqs k \<in> set reqs"
  by (simp add: request_no_def nat_less_iff)

lemma queue_inv_append:
  assumes "queue_inv reqs (queue s)"
  shows "queue_inv (reqs @ new_request s rd) (queue_after s rd)"
proof -
  have q: "reqct s = int (length reqs) + 1"
    "\<And>k v. fmlookup (pendclients s) k = Some v \<Longrightarrow> 1 \<le> k \<and> k < reqct s \<and> v = fst (request_no reqs k)"
    "\<And>k v. fmlookup (pendjobs s) k = Some v \<Longrightarrow> 1 \<le> k \<and> k < reqct s \<and> v = snd (request_no reqs k)"
    using assms by (auto simp: queue_inv_def queue_def)
  show ?thesis
  proof (cases "new_request s rd")
    case Nil
    then have "queue_after s rd = queue s"
      by (auto simp: new_request_def queue_after_def split: read_result.splits if_splits)
    then show ?thesis using Nil assms by simp
  next
    case (Cons r rs)
    then obtain i m where new: "new_request s rd = [(i, m)]"
      and qa: "queue_after s rd = (fmupd (reqct s) i (pendclients s), fmupd (reqct s) m (pendjobs s), reqct s + 1)"
      by (auto simp: new_request_def queue_after_def split: read_result.splits if_splits)
    have old: "request_no (reqs @ [(i, m)]) k = request_no reqs k" if "1 \<le> k" "k < reqct s" for k
      using that q(1) by (intro request_no_append) simp_all
    have last: "request_no (reqs @ [(i, m)]) (reqct s) = (i, m)" using request_no_last q(1) by simp
    have pos: "1 \<le> reqct s" using q(1) by simp
    have cl: "1 \<le> k \<and> k < reqct s + 1 \<and> v = fst (request_no (reqs @ [(i, m)]) k)"
      if "fmlookup (fmupd (reqct s) i (pendclients s)) k = Some v" for k v
      using that q(2) [of k v] old [of k] last pos by (cases "k = reqct s") auto
    have jb: "1 \<le> k \<and> k < reqct s + 1 \<and> v = snd (request_no (reqs @ [(i, m)]) k)"
      if "fmlookup (fmupd (reqct s) m (pendjobs s)) k = Some v" for k v
      using that q(3) [of k v] old [of k] last pos by (cases "k = reqct s") auto
    have "reqct s + 1 = int (length (reqs @ [(i, m)])) + 1" using q(1) by simp
    then show ?thesis
      unfolding new qa queue_inv_def split using cl jb by blast
  qed
qed

lemma current_job_append: "current_job hash reqs s \<Longrightarrow> current_job hash (reqs @ rs) s"
  by (auto simp: current_job_def Let_def request_no_append)

lemma small_max_word: "unat (u :: uint64) < 2 ^ 63 \<Longrightarrow> u < max_word"
proof -
  assume "unat u < 2 ^ 63"
  moreover have "unat max_word = 2 ^ 64 - 1"
    unfolding max_word_def by (simp add: unsigned_minus_1_eq_mask mask_eq_exp_minus_1)
  ultimately show ?thesis by (simp add: word_less_nat_alt)
qed

text \<open>A job that is started is the one with the current number.\<close>

lemma assign_current_job:
  assumes r: "ready s0" and fair: "fair_choice ch" and a: "assign ch s0 = Some (s', es)"
    and q: "queue_inv reqs (queue s0)" and small: "\<forall>r \<in> set reqs. unat (Upper (snd r)) < 2 ^ 63"
    and n: "mlen (miner s0) \<le> 2 ^ 61"
  shows "sched_inv s' \<and> queue_inv reqs (queue s') \<and> current_job hash reqs s'"
proof -
  obtain t fs hold where t: "assign ch s0 = Some (t, fs)" "sched_inv t" "\<not> waitans t"
    "fmlookup (pendjobs s0) (currid s0) = Some hold" "assigned ch s0 hold t"
    using assign_ready [OF r fair] .
  have eq: "t = s'" using t(1) a by simp
  have as: "assigned ch s0 hold s'" using t(5) eq by simp
  have Q: "reqct s0 = int (length reqs) + 1"
    "\<And>k v. fmlookup (pendclients s0) k = Some v \<Longrightarrow> 1 \<le> k \<and> k < reqct s0 \<and> v = fst (request_no reqs k)"
    "\<And>k v. fmlookup (pendjobs s0) k = Some v \<Longrightarrow> 1 \<le> k \<and> k < reqct s0 \<and> v = snd (request_no reqs k)"
    using q by (auto simp: queue_inv_def queue_def)
  have k: "1 \<le> currid s0" "currid s0 \<le> int (length reqs)" "hold = snd (request_no reqs (currid s0))"
    using Q(3) [OF t(4)] Q(1) by simp_all
  have "mhas (pendjobs s0) (currid s0)" using t(4) by (simp add: mhas_def)
  then have "mhas (pendclients s0) (currid s0)" using r unfolding ready_def by blast
  then obtain c where c: "fmlookup (pendclients s0) (currid s0) = Some c" by (auto simp: mhas_def)
  have up: "unat (Upper hold) < 2 ^ 63" using small request_no_set [OF k(1,2)] k(3) by simp
  have mi: "miner s0 \<noteq> fmempty" using r by (simp add: ready_def)
  have "unat (Upper hold) + 2 * mlen (miner s0) < 2 ^ 64" using up n by simp
  from assigned_job_inv [OF as mi this, of hash]
  have j: "job_inv hash (Data hold) (Upper hold) s'" .
  have f: "currid s' = currid s0" "curclient s' = mget 0 (pendclients s0) (currid s0)"
      "queue s' = (fmdrop (currid s0) (pendclients s0), fmdrop (currid s0) (pendjobs s0), reqct s0)"
    using as by (simp_all add: assigned_def Let_def queue_def)
  have "curclient s' = fst (request_no reqs (currid s0))" using f(2) c Q(2) [OF c] by (simp add: mget_def)
  then have "current_job hash reqs s'"
    using j k small_max_word [OF up] by (simp add: current_job_def Let_def f(1))
  moreover have "queue_inv reqs (queue s')" using Q unfolding f(3) queue_inv_def by auto
  ultimately show ?thesis using t(2) eq by simp
qed

lemma service_turn_inv:
  assumes inv: "service_inv hash reqs s" and fair: "fair_choice ch" and ok: "turn_ok s rd"
    and small: "small_turn s rd" and h: "running s \<and> \<not> waitans s \<longrightarrow> honest_event hash s rd"
    and st: "sched_turn ch rd s = Some (s', es)"
  shows "service_inv hash (reqs @ new_request s rd) s'"
proof -
  let ?rs = "reqs @ new_request s rd"
  have I: "sched_inv s" "queue_inv reqs (queue s)" "running s \<Longrightarrow> current_job hash reqs s"
    "\<forall>r \<in> set reqs. unat (Upper (snd r)) < 2 ^ 63"
    using inv by (simp_all add: service_inv_def)
  have sm: "\<forall>r \<in> set ?rs. unat (Upper (snd r)) < 2 ^ 63"
    using I(4) small unfolding small_turn_def by auto
  have q: "queue_inv ?rs (queue_after s rd)" by (rule queue_inv_append [OF I(2)])
  have inv': "sched_inv s'" and b: "begins ch s (queue_after s rd) s'"
    using sched_turn_inv [OF I(1) fair ok] st by (metis option.inject prod.inject)+
  from b show ?thesis unfolding begins_def
  proof (elim disjE exE conjE)
    assume q': "queue s' = queue_after s rd" and r: "running s' \<longrightarrow> running s \<and> \<not> waitans s"
    have "current_job hash ?rs s'" if "running s'"
    proof -
      have run: "running s" and w: "\<not> waitans s" using r that by simp_all
      have cj: "current_job hash ?rs s" by (rule current_job_append [OF I(3) [OF run]])
      define r where "r = request_no ?rs (currid s)"
      have j: "job_inv hash (Data (snd r)) (Upper (snd r)) s" and U: "Upper (snd r) < max_word"
        using cj by (simp_all add: current_job_def r_def Let_def)
      have he: "honest_event hash s rd" using h run w by simp
      note T = job_turn_inv [OF I(1) j U run w fair ok he st]
      show ?thesis using cj T by (simp add: current_job_def Let_def r_def)
    qed
    then show ?thesis using inv' q q' sm by (simp add: service_inv_def)
  next
    fix s0 fs
    assume s0: "ready s0" "queue s0 = queue_after s rd" "mlen (miner s0) \<le> Suc (mlen (miner s))"
      "assign ch s0 = Some (s', fs)"
    have "mlen (miner s0) \<le> 2 ^ 61" using s0(3) small by (simp add: small_turn_def)
    then show ?thesis
      using assign_current_job [OF s0(1) fair s0(4) _ sm, of hash] q s0(2) sm by (simp add: service_inv_def)
  qed
qed

lemma service_inv_reach: "service hash reqs s \<Longrightarrow> service_inv hash reqs s"
proof (induction rule: service.induct)
  case service_new
  have "queue_inv [] (queue NewScheduler)" by (simp add: queue_inv_def queue_def NewScheduler_def)
  then show ?case using sched_inv_new by (simp add: service_inv_def NewScheduler_def)
next
  case (service_turn reqs s ch rd s' es)
  then show ?case using service_turn_inv by blast
qed

text \<open>The answer to a request, when the signal is there.\<close>

lemma service_answer:
  assumes "service hash reqs s" and w: "waitans s"
  defines "r \<equiv> request_no reqs (currid s)"
  shows "1 \<le> currid s \<and> currid s \<le> int (length reqs)" and "curclient s = fst r"
    and "least_answer (range_answers (hash (Data (snd r))) 0 (Upper (snd r))) (Answer (ans1 s) (ans2 s))"
proof -
  have I: "sched_inv s" "running s \<longrightarrow> current_job hash reqs s"
    using service_inv_reach [OF assms(1)] by (simp_all add: service_inv_def)
  have run: "running s" and o: "outstanding s = {}" using sched_invD(11) [OF I(1)] w by blast+
  have cj: "current_job hash reqs s" using I(2) run by simp
  then show "1 \<le> currid s \<and> currid s \<le> int (length reqs)" and "curclient s = fst r"
    by (simp_all add: current_job_def r_def Let_def)
  have "job_inv hash (Data (snd r)) (Upper (snd r)) s" using cj by (simp add: current_job_def r_def Let_def)
  then show "least_answer (range_answers (hash (Data (snd r))) 0 (Upper (snd r))) (Answer (ans1 s) (ans2 s))"
    by (rule job_inv_answer [OF _ o])
qed

text \<open>The pending tables of a reachable state.\<close>

lemma service_pending:
  assumes "service hash reqs s"
  shows "fmlookup (pendjobs s) k =
      (if (if running s then currid s < k else currid s \<le> k) \<and> k \<le> int (length reqs)
       then Some (snd (request_no reqs k)) else None)"
    and "fmlookup (pendclients s) k =
      (if (if running s then currid s < k else currid s \<le> k) \<and> k \<le> int (length reqs)
       then Some (fst (request_no reqs k)) else None)"
proof -
  have I: "sched_inv s" "queue_inv reqs (queue s)"
    using service_inv_reach [OF assms] by (simp_all add: service_inv_def)
  have ct: "reqct s = int (length reqs) + 1"
    and cl: "\<And>v. fmlookup (pendclients s) k = Some v \<Longrightarrow> v = fst (request_no reqs k)"
    and jb: "\<And>v. fmlookup (pendjobs s) k = Some v \<Longrightarrow> v = snd (request_no reqs k)"
    using I(2) by (auto simp: queue_inv_def queue_def)
  have has: "mhas (pendjobs s) k \<longleftrightarrow>
      (if running s then currid s < k else currid s \<le> k) \<and> k \<le> int (length reqs)"
    using sched_invD(2) [OF I(1), of k] ct by auto
  have hc: "mhas (pendclients s) k \<longleftrightarrow> mhas (pendjobs s) k" using sched_invD(3) [OF I(1)] .
  show "fmlookup (pendjobs s) k =
      (if (if running s then currid s < k else currid s \<le> k) \<and> k \<le> int (length reqs)
       then Some (snd (request_no reqs k)) else None)"
    using has jb unfolding mhas_def by (cases "fmlookup (pendjobs s) k") auto
  show "fmlookup (pendclients s) k =
      (if (if running s then currid s < k else currid s \<le> k) \<and> k \<le> int (length reqs)
       then Some (fst (request_no reqs k)) else None)"
    using has hc cl unfolding mhas_def by (cases "fmlookup (pendclients s) k") auto
qed

end
