(* ===== verification/BitRuns.thy ===== *)
theory BitRuns
  imports BitJob
begin

text \<open>
  Runs of the scheduler under any network that lets a connection join once: the states that it can
  reach, the progress that a result makes, and the jobs that are never ended because one of their
  ranges is empty.
\<close>

section \<open>Reachable states\<close>

inductive sched_turns :: "scheduler \<Rightarrow> scheduler \<Rightarrow> bool" for s0 where
  turns_refl: "sched_turns s0 s0"
| turns_step: "sched_turns s0 s \<Longrightarrow> fair_choice ch \<Longrightarrow> turn_ok s rd \<Longrightarrow> sched_turn ch rd s = Some (s', es) \<Longrightarrow>
    sched_turns s0 s'"

abbreviation sched_reach :: "scheduler \<Rightarrow> bool" where
  "sched_reach \<equiv> sched_turns NewScheduler"

lemma sched_turns_inv: "sched_turns s0 s \<Longrightarrow> sched_inv s0 \<Longrightarrow> sched_inv s"
proof (induction rule: sched_turns.induct)
  case (turns_step s ch rd s' es)
  then show ?case using sched_turn_inv [of s ch rd] by (metis option.inject prod.inject)
qed

lemmas sched_reach_inv = sched_turns_inv [OF _ sched_inv_new]

section \<open>Progress\<close>

text \<open>A result that some miner's range contains ends one range.\<close>

lemma reassign_blockct: "blockct (fst (reassign ch s)) = blockct s"
proof -
  have to: "blockct (fst (reassign_to ok j k is s)) = blockct s" for ok j k "is" s
    by (induction ok j k "is" s rule: reassign_to.induct)
      (auto simp: Let_def split: option.splits prod.splits)
  have "blockct (fst (reassign_all ch js s)) = blockct s" for js
  proof (induction ch js s rule: reassign_all.induct)
    case (2 ch j js s)
    show ?case
    proof (cases "fmlookup (pendrange s) j")
      case None
      then show ?thesis using 2(1) by simp
    next
      case (Some k)
      obtain s1 e1 where t: "reassign_to (ch_ok ch) j k (ch_inner ch j (fmdom (miner s))) s = (s1, e1)"
        by fastforce
      have "blockct s1 = blockct s" using to [of "ch_ok ch" j k "ch_inner ch j (fmdom (miner s))" s] t by simp
      then show ?thesis using 2(2) [OF Some t [symmetric] refl] Some t by (auto simp: Let_def split: prod.splits)
    qed
  qed simp
  then show ?thesis by (simp add: reassign_def)
qed

lemma on_result_blockct:
  assumes "find (takes_result s (Nonce m)) (ch_order ch (fmdom (miner s))) = Some j" and "running s"
    and "on_result ch m s = Some (s', es)"
  shows "blockct s' = blockct s - 1"
proof -
  let ?r = "record_result m j s"
  have r: "blockct ?r = blockct s - 1" by (simp add: record_result_fields)
  have "blockct (fst (reassign ch ?r)) = blockct s - 1" using r by (simp add: reassign_blockct)
  moreover have "blockct (?r\<lparr>waitans := True\<rparr>) = blockct s - 1" using r by simp
  moreover have "s' = ?r\<lparr>waitans := True\<rparr> \<or> s' = fst (reassign ch ?r) \<or> s' = ?r"
    using assms by (auto simp: on_result_def Let_def split: if_splits)
  ultimately show ?thesis using r by auto
qed

lemma result_progress_step:
  assumes inv: "sched_inv s" and fair: "fair_choice ch" and run: "running s" and w: "\<not> waitans s"
    and t: "takes_result s (Nonce m) i"
  shows "\<exists>s' es. on_result ch m s = Some (s', es) \<and> running s' \<and> blockct s' = blockct s - 1 \<and>
    (waitans s' \<longleftrightarrow> blockct s' = 0)"
proof -
  obtain j where j: "find (takes_result s (Nonce m)) (ch_order ch (fmdom (miner s))) = Some j"
    using find_taker [OF fair t] by blast
  have "\<exists>s' es. on_result ch m s = Some (s', es) \<and> sched_inv s' \<and> running s'"
  proof (cases rule: on_result_cases [OF inv w fair run, of m])
    case (1 s' es)
    then show ?thesis using run by (auto simp: same_job_def)
  next
    case (2 s' es i)
    then show ?thesis using run by (auto simp: same_job_def record_result_fields)
  qed
  then obtain s' es where s': "on_result ch m s = Some (s', es)" "sched_inv s'" "running s'" by blast
  have "blockct s' = int (card (outstanding s'))" using sched_invD(8) [OF s'(2,3)] .
  moreover have "waitans s' \<longleftrightarrow> outstanding s' = {}" using sched_invD(11) [OF s'(2)] s'(3) by blast
  ultimately have "waitans s' \<longleftrightarrow> blockct s' = 0" using finite_outstanding [of s'] by simp
  then show ?thesis using on_result_blockct [OF j run s'(1)] s'(1,3) by blast
qed

section \<open>Jobs that do not end\<close>

text \<open>Whatever a turn does, a range that is empty stays outstanding.\<close>

lemma empty_range_turn:
  assumes inv: "sched_inv s" and run: "running s" and w: "\<not> waitans s" and fair: "fair_choice ch"
    and ok: "turn_ok s rd" and v: "tasks s a = Some v" "\<not> Lower v \<le> Upper v"
    and st: "sched_turn ch rd s = Some (s', es)"
  shows "(\<exists>b. tasks s' b = Some v) \<and> running s' \<and> \<not> waitans s'"
proof -
  have keep: "(\<exists>b. tasks s' b = Some v) \<and> running s'" if "same_job s s'"
    using that run v(1) unfolding same_job_def by (metis reshuffle_forth)
  have "(\<exists>b. tasks s' b = Some v) \<and> running s'"
  proof (cases rd)
    case (ReadErr i)
    then have "on_lost ch i s = Some (s', es)" using st w by (simp add: sched_turn_def)
    then show ?thesis using on_lost_inv [OF inv w fair, of i] run keep by (metis option.inject prod.inject)
  next
    case (ReadMsg i m)
    have go: "(case BType m of Join \<Rightarrow> on_join ch i s | Request \<Rightarrow> on_request ch i m s
        | Result \<Rightarrow> on_result ch m s | BMsgTypeOther _ \<Rightarrow> Some (s, [])) = Some (s', es)"
      using st w ReadMsg by (simp add: sched_turn_def)
    show ?thesis
    proof (cases "BType m")
      case Join
      then have new: "\<not> mhas (miner s) i" "\<not> mhas (pendrange s) i" using ok ReadMsg by simp_all
      have "on_join ch i s = Some (s', es)" using go Join by simp
      then show ?thesis using on_join_inv [OF inv w fair new] run keep by (metis option.inject prod.inject)
    next
      case Request
      then have "on_request ch i m s = Some (s', es)" using go by simp
      then show ?thesis using on_request_inv [OF inv w fair, of i m] run keep by (metis option.inject prod.inject)
    next
      case Result
      then have res: "on_result ch m s = Some (s', es)" using go by simp
      have "running s'" using on_result_keeps [OF res] run by simp
      then show ?thesis using empty_range_stays(1) [OF inv run w fair v res] by blast
    next
      case (BMsgTypeOther x)
      then have "s' = s" using go by simp
      then show ?thesis using run v(1) by blast
    qed
  qed
  moreover have "sched_inv s'" using sched_turn_inv [OF inv fair ok] st by (metis option.inject prod.inject)
  ultimately show ?thesis using sched_invD(11) [of s'] by (auto simp: outstanding_def)
qed

lemma empty_range_turns:
  assumes "sched_turns s0 s" and "sched_inv s0" and "running s0" and "\<not> waitans s0"
    and "tasks s0 a = Some v" and "\<not> Lower v \<le> Upper v"
  shows "(\<exists>b. tasks s b = Some v) \<and> running s \<and> \<not> waitans s"
  using assms(1)
proof (induction rule: sched_turns.induct)
  case turns_refl
  then show ?case using assms by blast
next
  case (turns_step s ch rd s' es)
  then show ?case
    using empty_range_turn [of s ch rd _ v s' es] sched_turns_inv [OF turns_step.hyps(1) assms(2)] assms(6)
    by blast
qed

text \<open>A job with no more nonces above 0 than miners leaves the last of them an empty range.\<close>

lemma last_piece_empty:
  fixes d :: string
  assumes n: "2 \<le> n" and u: "unat (upper :: uint64) < n" and b: "n < 2 ^ 62"
  defines "v \<equiv> piece (block_size upper n) (block_size upper n + 1) upper d (word_of_nat (n - 1))"
  shows "\<not> Lower v \<le> Upper v"
proof -
  have big: "unat upper + 2 * n < 2 ^ 64" using u b by simp
  have t: "n - 1 < n" and n0: "0 < n" using n by simp_all
  note B = piece_bounds [OF t big, of d]
  let ?k = "unat (block_size upper n)"
  have "unat upper \<le> n * ?k" by (rule block_size_covers(1) [OF n0 big])
  moreover have "(n - 1) * (?k + 1) = (n - 1) + (n - 1) * ?k" by (simp add: algebra_simps)
  moreover have "unat upper < n - 1 + (n - 1) * ?k"
  proof (cases "?k = 0")
    case True
    then show ?thesis using \<open>unat upper \<le> n * ?k\<close> n by simp
  next
    case False
    then have "n - 1 \<le> (n - 1) * ?k" by simp
    then show ?thesis using u n by linarith
  qed
  ultimately have "unat upper < (n - 1) * (?k + 1)" by simp
  then show ?thesis unfolding v_def using B by (simp add: word_le_nat_alt)
qed

lemma small_job_stuck:
  assumes r: "ready s0" and fair: "fair_choice ch" and a: "assign ch s0 = Some (s1, es)"
    and hold: "fmlookup (pendjobs s0) (currid s0) = Some hold"
    and n: "2 \<le> mlen (miner s0)" "mlen (miner s0) < 2 ^ 62" and u: "unat (Upper hold) < mlen (miner s0)"
    and t: "sched_turns s1 s"
  shows "running s \<and> \<not> waitans s"
proof -
  obtain t fs h where t': "assign ch s0 = Some (t, fs)" "sched_inv t" "\<not> waitans t"
    "fmlookup (pendjobs s0) (currid s0) = Some h" "assigned ch s0 h t"
    using assign_ready [OF r fair] .
  have eq: "t = s1" "h = hold" using t'(1,4) a hold by simp_all
  let ?n = "mlen (miner s0)"
  let ?v = "piece (block_size (Upper hold) ?n) (block_size (Upper hold) ?n + 1) (Upper hold) (Data hold) (word_of_nat (?n - 1))"
  have "?n - 1 < ?n" using n by simp
  then have v: "tasks s1 (place (ch_ok ch) (ch_order ch (fmdom (miner s0))) (?n - 1)) = Some ?v" and run: "running s1"
    using t'(5) unfolding eq assigned_def Let_def by blast+
  have inv: "sched_inv s1" and w: "\<not> waitans s1" using t'(2,3) unfolding eq .
  show ?thesis using empty_range_turns [OF t inv run w v last_piece_empty [OF n(1) u n(2)]] by blast
qed

lemma small_request_stuck:
  assumes inv: "sched_inv s" and run: "\<not> running s" and fair: "fair_choice ch" and m: "BType m = Request"
    and n: "2 \<le> mlen (miner s)" "mlen (miner s) < 2 ^ 62" and u: "unat (Upper m) < mlen (miner s)"
    and st: "sched_turn ch (ReadMsg i m) s = Some (s1, es)" and t: "sched_turns s1 s2"
  shows "running s2 \<and> \<not> waitans s2"
proof -
  have w: "\<not> waitans s" using sched_invD(11) [OF inv] run by blast
  have ne: "miner s \<noteq> fmempty" using n by auto
  let ?s0 = "s\<lparr>pendclients := fmupd (reqct s) i (pendclients s),
      pendjobs := fmupd (reqct s) m (pendjobs s), reqct := reqct s + 1\<rparr>"
  have r: "ready ?s0" by (rule request_ready [OF inv w run ne])
  have a: "assign ch ?s0 = Some (s1, es)"
    using st w m run ne by (simp add: sched_turn_def on_request_def Let_def)
  have "pendjobs s = fmempty" using sched_invD(10) [OF inv run ne] .
  then have "\<not> mhas (pendjobs s) (currid s)" by simp
  then have "reqct s = currid s" using sched_invD(2) [OF inv, of "currid s"] sched_invD(4) [OF inv] run by auto
  then have "fmlookup (pendjobs ?s0) (currid ?s0) = Some m" by simp
  then show ?thesis using small_job_stuck [OF r fair a _ _ _ _ t] n u by simp
qed

end
