(* ===== verification/BitDemo.thy ===== *)
theory BitDemo
  imports BitService BitRuns
begin

text \<open>
  A run of the scheduler in numbers, used as the concrete input of the properties: a miner joins, a
  client asks, the miner answers. The hash function of the run is the nonce itself.
\<close>

definition demo_choice :: choice where
  "demo_choice = \<lparr>ch_order = sorted_list_of_fset, ch_inner = (\<lambda>_. sorted_list_of_fset), ch_ok = (\<lambda>_. True)\<rparr>"

lemma demo_choice_fair: "fair_choice demo_choice"
  by (simp add: fair_choice_def demo_choice_def enumerates_sorted)

lemma sorted_one [simp]: "sorted_list_of_fset {|i :: int|} = [i]"
  by (simp add: sorted_list_of_fset.rep_eq)

lemma sorted_two [simp]: "i < j \<Longrightarrow> sorted_list_of_fset {|i :: int, j|} = [i, j]" 
  "i < j \<Longrightarrow> sorted_list_of_fset {|j, i|} = [i, j]"
  by (simp_all add: sorted_list_of_fset.rep_eq)

definition demo_hash :: "string \<Rightarrow> uint64 \<Rightarrow> uint64" where
  "demo_hash d n = n"

definition demo_job :: BMessage where
  "demo_job = NewRequest ''x'' 0 1"

definition demo_idle :: scheduler where
  "demo_idle = NewScheduler\<lparr>miner := fmupd 1 None fmempty\<rparr>"

definition demo_busy :: scheduler where
  "demo_busy = NewScheduler\<lparr>miner := fmupd 1 (Some demo_job) fmempty, running := True, curclient := 9, reqct := 2,
     ans1 := max_word, ans2 := 1, blockct := 1\<rparr>"

definition demo_ended :: scheduler where
  "demo_ended = demo_busy\<lparr>miner := fmupd 1 None fmempty, waitans := True, ans1 := 0, ans2 := 0, blockct := 0\<rparr>"

lemma fmupd_twice [simp]: "fmupd k v (fmupd k w m) = fmupd k v m"
  by (rule fmap_ext) simp

lemma fmdrop_one [simp]: "fmdrop k (fmupd k v fmempty) = fmempty"
  by (simp add: fmap_empty_iff)

lemma mlen_one [simp]: "mlen (fmupd k v fmempty) = 1"
  by (simp add: mlen_upd)

lemma zero_less_max_word [simp]: "0 < max_word" "1 < max_word"
  by (simp_all add: less_max_word, simp_all add: max_word_def)

lemmas demo_bit_defs = demo_idle_def demo_busy_def demo_ended_def demo_job_def NewScheduler_def demo_choice_def

lemma demo_join: "sched_turn demo_choice (ReadMsg 1 NewJoin) NewScheduler = Some (demo_idle, [])"
  by (simp add: sched_turn_def on_join_def NewJoin_def Let_def demo_bit_defs)

lemma demo_request:
  "sched_turn demo_choice (ReadMsg 9 demo_job) demo_idle = Some (demo_busy, [WriteMsg 1 demo_job])"
  by (simp add: sched_turn_def on_request_def assign_def assign_loop.simps block_size_def mget_def Let_def
      demo_bit_defs NewRequest_def BMsg_def)

lemma demo_result:
  "sched_turn demo_choice (ReadMsg 1 (NewResult 0 0)) demo_busy = Some (demo_ended, [])"
  by (simp add: sched_turn_def on_result_def takes_result_def record_result_def better_def
      Let_def demo_bit_defs)

lemma demo_answer:
  "sched_turn demo_choice rd demo_ended = Some
     (demo_idle\<lparr>curclient := 9, currid := 2, reqct := 2\<rparr>, [WriteMsg 9 (NewResult 0 0)])"
  by (simp add: sched_turn_def job_done_def Let_def demo_bit_defs)

lemma demo_serve: "miner_serve demo_hash demo_job = Some (NewResult 0 0)"
proof -
  have two: "\<not> (2 :: uint64) \<le> 1" by (simp add: word_le_nat_alt)
  have "mine (\<lambda>n. n) 0 1 = Some (Answer 0 0)"
    by (simp add: two mine_def mine_loop.simps [of _ 1 0] mine_loop.simps [of _ 1 1] mine_loop.simps [of _ 1 2]
        better_def)
  moreover have "demo_hash ''x'' = (\<lambda>n. n)" by (simp add: demo_hash_def fun_eq_iff)
  ultimately show ?thesis by (simp add: miner_serve_def miner_turn_def demo_job_def Let_def)
qed

lemma demo_service:
  "service demo_hash [] demo_idle" "service demo_hash [(9, demo_job)] demo_busy"
  "service demo_hash [(9, demo_job)] demo_ended"
proof -
  have "service demo_hash ([] @ new_request NewScheduler (ReadMsg 1 NewJoin)) demo_idle"
    by (rule service_turn [OF service_new demo_choice_fair _ _ _ demo_join])
      (simp_all add: NewScheduler_def small_turn_def new_request_def NewJoin_def)
  then show 1: "service demo_hash [] demo_idle" by (simp add: new_request_def NewJoin_def)
  have "service demo_hash ([] @ new_request demo_idle (ReadMsg 9 demo_job)) demo_busy"
    by (rule service_turn [OF 1 demo_choice_fair _ _ _ demo_request])
      (simp_all add: small_turn_def new_request_def demo_bit_defs)
  then show 2: "service demo_hash [(9, demo_job)] demo_busy" by (simp add: new_request_def demo_bit_defs)
  have t: "tasks demo_busy (True, 1) = Some demo_job" by (simp add: demo_busy_def)
  have "service demo_hash ([(9, demo_job)] @ new_request demo_busy (ReadMsg 1 (NewResult 0 0))) demo_ended"
  proof (rule service_turn [OF 2 demo_choice_fair _ _ _ demo_result])
    show "running demo_busy \<and> \<not> waitans demo_busy \<longrightarrow> honest_event demo_hash demo_busy (ReadMsg 1 (NewResult 0 0))"
      using t demo_serve by auto
  qed (simp_all add: small_turn_def new_request_def demo_bit_defs)
  then show "service demo_hash [(9, demo_job)] demo_ended" by (simp add: new_request_def)
qed

text \<open>The same run with any hash function.\<close>

lemma demo_service_any:
  obtains s where "service hash [(9, demo_job)] s" and "waitans s" and "\<not> jobgiveup s" and "currid s = 1"
proof -
  have "service hash ([] @ new_request NewScheduler (ReadMsg 1 NewJoin)) demo_idle"
    by (rule service_turn [OF service_new demo_choice_fair _ _ _ demo_join])
      (simp_all add: NewScheduler_def small_turn_def new_request_def NewJoin_def)
  then have 1: "service hash [] demo_idle" by (simp add: new_request_def NewJoin_def)
  have "service hash ([] @ new_request demo_idle (ReadMsg 9 demo_job)) demo_busy"
    by (rule service_turn [OF 1 demo_choice_fair _ _ _ demo_request])
      (simp_all add: small_turn_def new_request_def demo_bit_defs)
  then have 2: "service hash [(9, demo_job)] demo_busy" by (simp add: new_request_def demo_bit_defs)
  have "\<exists>h n. miner_serve hash demo_job = Some (NewResult h n) \<and>
      honest_result (hash (Data demo_job)) (Lower demo_job) (Upper demo_job) h n"
    by (rule gominer.serve_least) (simp_all add: demo_job_def)
  then obtain h n where m: "miner_serve hash demo_job = Some (NewResult h n)" "n \<le> 1"
    using honest_result_range by (fastforce simp: demo_job_def)
  define a where "a = better h n (Answer max_word 1)"
  let ?s = "demo_busy\<lparr>miner := fmupd 1 None fmempty, waitans := True, ans1 := ans_hash a, ans2 := ans_nonce a, blockct := 0\<rparr>"
  have turn: "sched_turn demo_choice (ReadMsg 1 (NewResult h n)) demo_busy = Some (?s, [])"
    using m(2) by (simp add: sched_turn_def on_result_def takes_result_def record_result_def
      Let_def demo_bit_defs a_def)
  have t: "tasks demo_busy (True, 1) = Some demo_job" by (simp add: demo_busy_def)
  have "service hash ([(9, demo_job)] @ new_request demo_busy (ReadMsg 1 (NewResult h n))) ?s"
  proof (rule service_turn [OF 2 demo_choice_fair _ _ _ turn])
    show "running demo_busy \<and> \<not> waitans demo_busy \<longrightarrow> honest_event hash demo_busy (ReadMsg 1 (NewResult h n))"
      using t m(1) by auto
  qed (simp_all add: small_turn_def new_request_def demo_bit_defs)
  then have "service hash [(9, demo_job)] ?s" by (simp add: new_request_def)
  then show thesis by (rule that) (simp_all add: demo_busy_def NewScheduler_def)
qed

lemma demo_reach: "sched_reach demo_idle" "sched_reach demo_busy" "sched_reach demo_ended"
proof -
  show 1: "sched_reach demo_idle"
    by (rule turns_step [OF turns_refl demo_choice_fair _ demo_join]) (simp add: NewScheduler_def)
  show 2: "sched_reach demo_busy"
    by (rule turns_step [OF 1 demo_choice_fair _ demo_request]) (simp add: demo_job_def)
  show "sched_reach demo_ended" by (rule turns_step [OF 2 demo_choice_fair _ demo_result]) simp
qed

text \<open>Two miners, and a request with one nonce only: the second miner gets an empty range.\<close>

definition demo_two :: scheduler where
  "demo_two = NewScheduler\<lparr>miner := fmupd 2 None (fmupd 1 None fmempty)\<rparr>"

lemma demo_two_reach: "sched_reach demo_two"
proof (rule turns_step [OF demo_reach(1) demo_choice_fair])
  show "turn_ok demo_idle (ReadMsg 2 NewJoin)" by (simp add: demo_bit_defs)
  show "sched_turn demo_choice (ReadMsg 2 NewJoin) demo_idle = Some (demo_two, [])"
    by (simp add: sched_turn_def on_join_def NewJoin_def Let_def demo_bit_defs demo_two_def)
qed

definition demo_short :: BMessage where
  "demo_short = NewRequest ''x'' 0 0"

definition demo_stuck :: scheduler where
  "demo_stuck = fst (the (sched_turn demo_choice (ReadMsg 9 demo_short) demo_two))"

lemma demo_stuck_turn:
  "\<exists>es. sched_turn demo_choice (ReadMsg 9 demo_short) demo_two = Some (demo_stuck, es)"
  using sched_turn_inv [OF sched_reach_inv [OF demo_two_reach] demo_choice_fair, of "ReadMsg 9 demo_short"]
  by (metis demo_short_def demo_stuck_def NewRequest_simps(1) BMsgType.distinct(1) fst_conv option.sel turn_ok.simps(2))

end
