(* ===== verification/BitClient.thy ===== *)
theory BitClient
  imports BitMessage
begin

text \<open>
  The program of a client that has a request (\<open>bitcoin/client/client.go\<close>), with \<open>ParseUint\<close> and
  \<open>FormatUint\<close> of \<open>strconv\<close> as it uses them. What the calls of the LSP library return is an argument:
  whether the connection was made, whether \<open>Write\<close> succeeded, and what \<open>Read\<close> returned.
\<close>

section \<open>strconv\<close>

text \<open>
  The loop of \<open>strconv.ParseUint(s, 10, 64)\<close>, for a caller that ignores the error: 0 at a character
  that is no digit, the largest word when the value does not fit.
\<close>

fun parse_digits :: "nat \<Rightarrow> string \<Rightarrow> uint64" where
  "parse_digits n [] = word_of_nat n"
| "parse_digits n (c # s) =
     (if \<not> is_digit_char c then 0
      else if 10 * n \<ge> 2 ^ 64 then - 1
      else let n1 = 10 * n + (of_char c - 48)
           in if n1 \<ge> 2 ^ 64 then - 1 else parse_digits n1 s)"

definition ParseUint :: "string \<Rightarrow> uint64" where
  "ParseUint s = (if s = [] then 0 else parse_digits 0 s)"

definition FormatUint :: "uint64 \<Rightarrow> string" where
  "FormatUint w = show_nat (unat w)"

lemma digits_value_snoc: "digits_value (s @ [c]) = 10 * digits_value s + (of_char c - 48)"
  by (simp add: digits_value_def)

lemma parse_digits_fits:
  assumes "\<forall>c \<in> set s. is_digit_char c" and "foldl (\<lambda>v c. 10 * v + (of_char c - 48)) n s < 2 ^ 64"
  shows "parse_digits n s = word_of_nat (foldl (\<lambda>v c. 10 * v + (of_char c - 48)) n s)"
  using assms
proof (induction s arbitrary: n)
  case Nil
  then show ?case by simp
next
  case (Cons c s)
  let ?f = "\<lambda>v c. 10 * v + ((of_char c :: nat) - 48)"
  have grow: "v \<le> foldl ?f v t" for v t
  proof (induction t arbitrary: v)
    case (Cons d t)
    have "v \<le> ?f v d" by simp
    also have "\<dots> \<le> foldl ?f (?f v d) t" by (rule Cons.IH)
    finally show ?case by simp
  qed simp
  have "?f n c \<le> foldl ?f (?f n c) s" by (rule grow)
  then have "?f n c < 2 ^ 64" using Cons.prems(2) by simp
  then show ?case using Cons by (simp add: Let_def)
qed

lemma ParseUint_FormatUint: "ParseUint (FormatUint w) = w"
proof -
  have v: "foldl (\<lambda>v c. 10 * v + (of_char c - 48)) 0 (show_nat (unat w)) = unat w"
    using digits_value_show_nat [of "unat w"] by (simp add: digits_value_def)
  have "unat w < 2 ^ 64" using unsigned_less [of w] by simp
  then show ?thesis
    using parse_digits_fits [OF show_nat_digits, of 0 "unat w"] v show_nat_not_Nil [of "unat w"]
    by (simp add: ParseUint_def FormatUint_def)
qed

lemma ParseUint_value:
  assumes "s \<noteq> []" and "\<forall>c \<in> set s. is_digit_char c" and "digits_value s < 2 ^ 64"
  shows "unat (ParseUint s) = digits_value s"
proof -
  have "ParseUint s = word_of_nat (digits_value s)"
    using parse_digits_fits [OF assms(2), of 0] assms(1,3) by (simp add: ParseUint_def digits_value_def)
  then show ?thesis using assms(3) by (simp add: unsigned_of_nat take_bit_eq_mod)
qed

section \<open>The program\<close>

datatype cl_effect = Println string | ClWrite BMessage | ClClose

definition printResult :: "string \<Rightarrow> string \<Rightarrow> cl_effect list" where
  "printResult hash nonce = [Println (''Result '' @ hash @ '' '' @ nonce)]"

definition printDisconnected :: "cl_effect list" where
  "printDisconnected = [Println ''Disconnected'']"

definition client_main :: "string list \<Rightarrow> bool \<Rightarrow> bool \<Rightarrow> bool \<Rightarrow> BMessage option \<Rightarrow> cl_effect list" where
  "client_main args logok connected wok v =
     (if length args \<noteq> 4 then [Println ''Usage: ./client <hostport> <message> <maxNonce>'']
      else if \<not> logok then []
      else if \<not> connected then []
      else
        let na = ParseUint (args ! 3); m = NewRequest (args ! 2) 0 na
        in ClWrite m #
          (if \<not> wok then printDisconnected @ [ClClose]
           else
             case v of
               None \<Rightarrow> printDisconnected
             | Some r \<Rightarrow> printResult (FormatUint (HashOf r)) (FormatUint (Nonce r)) @ [ClClose]))"

text \<open>What the user sees.\<close>

lemma client_main_result:
  assumes "digits_value nonce < 2 ^ 64" and "nonce \<noteq> []" and "\<forall>c \<in> set nonce. is_digit_char c"
  shows "\<exists>u. unat u = digits_value nonce \<and>
    client_main [prog, host, dat, nonce] True True True (Some (NewResult h n)) =
      [ClWrite (NewRequest dat 0 u), Println (''Result '' @ show_nat (unat h) @ '' '' @ show_nat (unat n)), ClClose]"
  using ParseUint_value [OF assms(2,3,1)]
  by (intro exI [of _ "ParseUint nonce"]) (simp add: client_main_def printResult_def FormatUint_def Let_def)

end
