(* ===== verification/BitClaims.thy ===== *)
theory BitClaims
  imports BitDemo BitClient
begin

text \<open>
  The properties of the mining system: the answers of the server, the search of the miner, and the
  parts of a job. Each stands with a concrete input at which its hypotheses hold.
\<close>

section \<open>The server\<close>

text \<open>
  C10. When the last range of a job is in, the next turn answers the client that made the request
  with that number (unless it was lost), with the least hash over all nonces asked for and the least
  nonce that has it. The miners are the miner program.
\<close>

theorem job_answered:
  assumes "service hash reqs s" and "waitans s" and "fair_choice ch" and "sched_turn ch rd s = Some (s', es)"
  shows "\<exists>h n rest. es = (if jobgiveup s then [] else [WriteMsg (fst (request_no reqs (currid s))) (NewResult h n)]) @ rest \<and>
    honest_result (hash (Data (snd (request_no reqs (currid s))))) 0 (Upper (snd (request_no reqs (currid s)))) h n"
proof -
  note A = service_answer [OF assms(1,2)]
  have "job_done ch s = Some (s', es)" using assms(2,4) by (simp add: sched_turn_def)
  then obtain rest where "es = (if \<not> jobgiveup s then [WriteMsg (curclient s) (NewResult (ans1 s) (ans2 s))] else []) @ rest"
    by (auto simp: job_done_def Let_def andthen_Some split: if_splits)
  then show ?thesis using A(2,3) by (auto simp: honest_result_def)
qed

theorem job_answered_witness:
  "\<exists>h n rest. [WriteMsg 9 (NewResult 0 0)] = [WriteMsg 9 (NewResult h n)] @ rest \<and>
    honest_result (demo_hash ''x'') 0 1 h n"
  using job_answered [OF demo_service(3) _ demo_choice_fair demo_answer]
  by (simp add: demo_bit_defs request_no_def)

text \<open>
  C11. The distributed search equals the sequential one. However many miners there were, however the
  ranges were cut, lost and given out again, the message that the server writes to the client is the
  one that a single miner writes when it is given the whole request, every nonce from 0.
\<close>

theorem distributed_equals_sequential:
  assumes "service hash reqs s" and "waitans s" and "sched_turn ch rd s = Some (s', es)"
    and "request_no reqs (currid s) = (c, r)"
  shows "\<exists>res rest. miner_turn hash (Some (NewRequest (Data r) 0 (Upper r))) True = Some ([MWrite res], True) \<and>
    es = (if jobgiveup s then [] else [WriteMsg c res]) @ rest"
proof -
  note A = service_answer [OF assms(1,2)]
  let ?H = "hash (Data r)"
  have least: "least_answer (range_answers ?H 0 (Upper r)) (Answer (ans1 s) (ans2 s))" using A(3) assms(4) by simp
  have "snd (request_no reqs (currid s)) \<in> set (map snd reqs)" using request_no_set A(1) by simp
  then have "unat (Upper r) < 2 ^ 63" using service_inv_reach [OF assms(1)] assms(4) by (auto simp: service_inv_def)
  then obtain b where b: "mine ?H 0 (Upper r) = Some b" "least_answer (range_answers ?H 0 (Upper r)) b"
    using mine_result [of 0 "Upper r" ?H] small_max_word by auto
  have eq: "b = Answer (ans1 s) (ans2 s)" by (rule least_answer_unique [OF b(2) least])
  have "miner_turn hash (Some (NewRequest (Data r) 0 (Upper r))) True =
      Some ([MWrite (NewResult (ans1 s) (ans2 s))], True)"
    using b(1) by (simp add: miner_turn_def eq Let_def NewRequest_def)
  moreover have "job_done ch s = Some (s', es)" using assms(2,3) by (simp add: sched_turn_def)
  then obtain rest where "es = (if \<not> jobgiveup s then [WriteMsg (curclient s) (NewResult (ans1 s) (ans2 s))] else []) @ rest"
    by (auto simp: job_done_def Let_def andthen_Some split: if_splits)
  ultimately show ?thesis using A(2) assms(4) by auto
qed

theorem distributed_equals_sequential_witness:
  "\<exists>res rest. miner_turn demo_hash (Some (NewRequest ''x'' 0 1)) True = Some ([MWrite res], True) \<and>
    [WriteMsg 9 (NewResult 0 0)] = [WriteMsg 9 res] @ rest"
  using distributed_equals_sequential [OF demo_service(3) _ demo_answer, of 9 demo_job]
  by (simp add: demo_bit_defs request_no_def)

text \<open>
  C21. The scheduler does not panic: under any network that lets a connection join once, whatever the
  messages say and whichever writes fail, every turn ends in a state.
\<close>

theorem scheduler_never_panics:
  assumes "sched_reach s" and "fair_choice ch" and "turn_ok s rd"
  shows "\<exists>s' es. sched_turn ch rd s = Some (s', es) \<and> sched_reach s'"
  using sched_turn_inv [OF sched_reach_inv [OF assms(1)] assms(2,3)] turns_step [OF assms] by metis

theorem scheduler_never_panics_witness:
  "\<exists>s' es. sched_turn demo_choice (ReadErr 1) demo_busy = Some (s', es) \<and> sched_reach s'"
  by (rule scheduler_never_panics [OF demo_reach(2) demo_choice_fair]) simp









section \<open>Ranges\<close>



section \<open>The miner\<close>

text \<open>
  C29. The search of the miner ends for every range below the largest word and returns the least
  hash of the range with the least nonce that has it, which the miner sends as its result.
\<close>

theorem miner_search_least:
  assumes "Lower m \<le> Upper m" and "Upper m < max_word"
  shows "\<exists>h n. miner_turn hash (Some m) True = Some ([MWrite (NewResult h n)], True) \<and>
    honest_result (hash (Data m)) (Lower m) (Upper m) h n"
  by (rule miner_turn_honest [OF assms])

theorem miner_search_least_witness:
  "\<exists>h n. miner_turn demo_hash (Some demo_job) True = Some ([MWrite (NewResult h n)], True) \<and>
    honest_result (demo_hash ''x'') 0 1 h n"
  using miner_search_least [of demo_job demo_hash] by (simp add: demo_job_def)

text \<open>C36. Over a range that ends at the largest word the search never ends.\<close>

theorem miner_never_returns: "Upper m = max_word \<Longrightarrow> miner_turn hash (Some m) wok = None"
  by (simp add: miner_turn_def mine_diverges)

theorem miner_never_returns_witness: "miner_turn Hash (Some (NewRequest ''x'' 5 max_word)) True = None"
  by (rule miner_never_returns) simp

end
