(* ===== verification/GoBase64.thy ===== *)
theory GoBase64
  imports GoPrelude
begin

text \<open>
  \<open>base64.StdEncoding\<close> of Go, in which \<open>encoding/json\<close> writes and reads a \<open>[]byte\<close>: the alphabet
  with \<open>+\<close> and \<open>/\<close>, padded with \<open>=\<close>. The decoder skips line ends and refuses everything else that
  is not in the alphabet; like Go's it does not look at the bits that the padding leaves over.
\<close>

definition b64_char :: "nat \<Rightarrow> char" where
  "b64_char i =
     (if i < 26 then char_of (65 + i)
      else if i < 52 then char_of (97 + (i - 26))
      else if i < 62 then char_of (48 + (i - 52))
      else if i = 62 then CHR ''+'' else CHR ''/'')"

definition b64_value :: "char \<Rightarrow> nat option" where
  "b64_value c =
     (let n = of_char c :: nat in
      if 65 \<le> n \<and> n \<le> 90 then Some (n - 65)
      else if 97 \<le> n \<and> n \<le> 122 then Some (n - 97 + 26)
      else if 48 \<le> n \<and> n \<le> 57 then Some (n - 48 + 52)
      else if c = CHR ''+'' then Some 62 else if c = CHR ''/'' then Some 63 else None)"

abbreviation b64_pad :: char where
  "b64_pad \<equiv> CHR ''=''"

fun b64_groups :: "nat list \<Rightarrow> string" where
  "b64_groups [] = []"
| "b64_groups [a] = [b64_char (a div 4), b64_char (a mod 4 * 16), b64_pad, b64_pad]"
| "b64_groups [a, b] =
     [b64_char (a div 4), b64_char (a mod 4 * 16 + b div 16), b64_char (b mod 16 * 4), b64_pad]"
| "b64_groups (a # b # c # r) =
     [b64_char (a div 4), b64_char (a mod 4 * 16 + b div 16), b64_char (b mod 16 * 4 + c div 64),
      b64_char (c mod 64)] @ b64_groups r"

definition b64_encode :: "string \<Rightarrow> string" where
  "b64_encode s = b64_groups (map of_char s)"

text \<open>Four characters at a time; padding is allowed at the end only.\<close>

fun b64_ungroup :: "string \<Rightarrow> nat list option" where
  "b64_ungroup [] = Some []"
| "b64_ungroup (p # q # r # s # rest) =
     (case (b64_value p, b64_value q) of
        (Some i, Some j) \<Rightarrow>
          (let a = i * 4 + j div 16 in
           if r = b64_pad
           then (if s = b64_pad \<and> rest = [] then Some [a] else None)
           else
             case b64_value r of
               None \<Rightarrow> None
             | Some k \<Rightarrow>
                 (let b = j mod 16 * 16 + k div 4 in
                  if s = b64_pad then (if rest = [] then Some [a, b] else None)
                  else
                    case b64_value s of
                      None \<Rightarrow> None
                    | Some l \<Rightarrow> map_option (\<lambda>bs. a # b # (k mod 4 * 64 + l) # bs) (b64_ungroup rest)))
      | _ \<Rightarrow> None)"
| "b64_ungroup _ = None"

definition b64_decode :: "string \<Rightarrow> string option" where
  "b64_decode s = map_option (map char_of) (b64_ungroup (filter (\<lambda>c. c \<noteq> CHR 0x0A \<and> c \<noteq> CHR 0x0D) s))"

section \<open>Round trip\<close>

lemma b64_value_char: "i < 64 \<Longrightarrow> b64_value (b64_char i) = Some i"
proof -
  assume i: "i < 64"
  consider "i < 26" | k where "i = 26 + k" "k < 26" | k where "i = 52 + k" "k < 10" | "i = 62" | "i = 63"
  proof -
    have "i < 26 \<or> (i = 26 + (i - 26) \<and> i - 26 < 26) \<or> (i = 52 + (i - 52) \<and> i - 52 < 10) \<or> i = 62 \<or> i = 63"
      using i by arith
    then show thesis using that by blast
  qed
  then show ?thesis
    by cases (simp_all add: b64_char_def b64_value_def Let_def)
qed

lemma b64_char_plain:
  assumes "i < 64"
  shows "b64_char i \<noteq> b64_pad" and "b64_char i \<noteq> CHR 0x0A" and "b64_char i \<noteq> CHR 0x0D"
    and "of_char (b64_char i) < (128 :: nat)" and "b64_char i \<notin> {CHR 0x22, CHR 0x5C, CHR ''<'', CHR ''>'', CHR ''&''}"
    and "32 \<le> (of_char (b64_char i) :: nat)"
proof -
  have v: "b64_value (b64_char i) = Some i" by (rule b64_value_char [OF assms])
  have "b64_value b64_pad = None" "b64_value (CHR 0x0A) = None" "b64_value (CHR 0x0D) = None"
    "b64_value (CHR 0x22) = None" "b64_value (CHR 0x5C) = None" "b64_value (CHR ''<'') = None"
    "b64_value (CHR ''>'') = None" "b64_value (CHR ''&'') = None"
    by (simp_all add: b64_value_def)
  then show "b64_char i \<noteq> b64_pad" "b64_char i \<noteq> CHR 0x0A" "b64_char i \<noteq> CHR 0x0D"
    "b64_char i \<notin> {CHR 0x22, CHR 0x5C, CHR ''<'', CHR ''>'', CHR ''&''}"
    using v by auto
  show "of_char (b64_char i) < (128 :: nat)" "32 \<le> (of_char (b64_char i) :: nat)"
    using assms by (auto simp: b64_char_def)
qed

text \<open>Every character of an encoding is in the alphabet or the padding.\<close>

definition b64_out :: "char \<Rightarrow> bool" where
  "b64_out c \<longleftrightarrow> c = b64_pad \<or> (\<exists>i < 64. c = b64_char i)"

lemma b64_out_intros: "b64_out b64_pad" "i < 64 \<Longrightarrow> b64_out (b64_char i)"
  by (auto simp: b64_out_def)

lemma b64_digits:
  assumes "a < 256" and "b < 256" and "c < (256 :: nat)"
  shows "a div 4 < 64" "a mod 4 * 16 < 64" "a mod 4 * 16 + b div 16 < 64" "b mod 16 * 4 < 64"
    "b mod 16 * 4 + c div 64 < 64" "c mod 64 < 64"
    "a div 4 * 4 + (a mod 4 * 16 + b div 16) div 16 = a" "a div 4 * 4 + a mod 4 * 16 div 16 = a"
    "(a mod 4 * 16 + b div 16) mod 16 * 16 + (b mod 16 * 4 + c div 64) div 4 = b"
    "(a mod 4 * 16 + b div 16) mod 16 * 16 + b mod 16 * 4 div 4 = b"
    "(b mod 16 * 4 + c div 64) mod 4 * 64 + c mod 64 = c"
proof -
  have q: "b div 16 < 16" "c div 64 < 4" "a div 4 < 64" using assms by auto
  then show "a div 4 < 64" "a mod 4 * 16 < 64" "a mod 4 * 16 + b div 16 < 64" "b mod 16 * 4 < 64"
    "b mod 16 * 4 + c div 64 < 64" "c mod 64 < 64" by auto
  have 1: "(a mod 4 * 16 + b div 16) div 16 = a mod 4" "(a mod 4 * 16 + b div 16) mod 16 = b div 16"
    using q by simp_all
  have 2: "(b mod 16 * 4 + c div 64) div 4 = b mod 16" "(b mod 16 * 4 + c div 64) mod 4 = c div 64"
    using q by simp_all
  show "a div 4 * 4 + (a mod 4 * 16 + b div 16) div 16 = a" "a div 4 * 4 + a mod 4 * 16 div 16 = a"
    "(a mod 4 * 16 + b div 16) mod 16 * 16 + (b mod 16 * 4 + c div 64) div 4 = b"
    "(a mod 4 * 16 + b div 16) mod 16 * 16 + b mod 16 * 4 div 4 = b"
    "(b mod 16 * 4 + c div 64) mod 4 * 64 + c mod 64 = c"
    unfolding 1 2 by simp_all
qed

lemma b64_groups_chars: "\<forall>x \<in> set ns. x < 256 \<Longrightarrow> list_all b64_out (b64_groups ns)"
proof (induction ns rule: b64_groups.induct)
  case (2 a)
  then have a: "a < 256" by simp
  note D = b64_digits [OF a, of 0 0]
  show ?case using D(1,2) [THEN b64_out_intros(2)] b64_out_intros(1) by simp
next
  case (3 a b)
  then have a: "a < 256" and b: "b < 256" by simp_all
  note D = b64_digits [OF a b, of 0]
  show ?case using D(1,3,4) [THEN b64_out_intros(2)] b64_out_intros(1) by simp
next
  case (4 a b c r)
  then have a: "a < 256" and b: "b < 256" and c: "c < 256" by simp_all
  note D = b64_digits [OF a b c]
  show ?case using 4 D(1,3,5,6) [THEN b64_out_intros(2)] by simp
qed simp

lemma b64_ungroup_groups: "\<forall>x \<in> set ns. x < 256 \<Longrightarrow> b64_ungroup (b64_groups ns) = Some ns"
proof (induction ns rule: b64_groups.induct)
  case (2 a)
  then have a: "a < 256" by simp
  note D = b64_digits [OF a, of 0 0]
  show ?case using D by (simp add: b64_value_char Let_def)
next
  case (3 a b)
  then have a: "a < 256" and b: "b < 256" by simp_all
  note D = b64_digits [OF a b, of 0]
  show ?case using D b64_char_plain(1) [of "b mod 16 * 4"] by (simp add: b64_value_char Let_def)
next
  case (4 a b c r)
  then have a: "a < 256" and b: "b < 256" and c: "c < 256" by simp_all
  note D = b64_digits [OF a b c]
  have rest: "b64_ungroup (b64_groups r) = Some r" using 4 by simp
  show ?case
    unfolding b64_groups.simps append.simps b64_ungroup.simps D(1,3,5,6) [THEN b64_value_char] rest
    using D(5,6) [THEN b64_char_plain(1)] D(7,9,11) by (simp add: Let_def)
qed simp

lemma of_char_small: "\<forall>x \<in> set (map of_char s). x < (256 :: nat)"
  by auto

lemma b64_out_plain:
  assumes "b64_out c"
  shows "c \<noteq> CHR 0x0A" and "c \<noteq> CHR 0x0D" and "of_char c < (128 :: nat)" and "32 \<le> (of_char c :: nat)"
    and "c \<notin> {CHR 0x22, CHR 0x5C, CHR ''<'', CHR ''>'', CHR ''&''}"
proof -
  consider "c = b64_pad" | i where "i < 64" "c = b64_char i" using assms by (auto simp: b64_out_def)
  then have "c \<noteq> CHR 0x0A \<and> c \<noteq> CHR 0x0D \<and> of_char c < (128 :: nat) \<and> 32 \<le> (of_char c :: nat) \<and>
      c \<notin> {CHR 0x22, CHR 0x5C, CHR ''<'', CHR ''>'', CHR ''&''}"
  proof cases
    case 1
    then show ?thesis by simp
  next
    case 2
    show ?thesis unfolding 2(2) using b64_char_plain [OF 2(1)] by blast
  qed
  then show "c \<noteq> CHR 0x0A" "c \<noteq> CHR 0x0D" "of_char c < (128 :: nat)" "32 \<le> (of_char c :: nat)"
    "c \<notin> {CHR 0x22, CHR 0x5C, CHR ''<'', CHR ''>'', CHR ''&''}"
    by blast+
qed

lemma b64_encode_out: "c \<in> set (b64_encode s) \<Longrightarrow> b64_out c"
  using b64_groups_chars [OF of_char_small, of s] unfolding b64_encode_def list_all_iff by blast

lemma b64_decode_encode: "b64_decode (b64_encode s) = Some s"
proof -
  have "filter (\<lambda>c. c \<noteq> CHR 0x0A \<and> c \<noteq> CHR 0x0D) (b64_encode s) = b64_encode s"
    using b64_encode_out b64_out_plain(1,2) by (intro filter_True) blast
  then have "b64_ungroup (filter (\<lambda>c. c \<noteq> CHR 0x0A \<and> c \<noteq> CHR 0x0D) (b64_encode s)) = Some (map of_char s)"
    using b64_ungroup_groups [OF of_char_small, of s] by (simp add: b64_encode_def)
  then show ?thesis by (simp add: b64_decode_def comp_def)
qed

end
