(* ===== verification/GoJson.thy ===== *)
theory GoJson
  imports GoBase64
begin

text \<open>
  \<open>encoding/json\<close> as the program uses it: the text of a struct whose fields are integers, strings and
  byte slices, and the reading of an arbitrary text. Reading is two machines that take one step per
  character and per token, like the scanner of Go: \<open>lex\<close> cuts the text into tokens, \<open>parse\<close> builds a
  value from them on a stack of open arrays and objects. A syntax error is \<open>None\<close>. Bytes above 127 are
  passed through, which is what Go does with valid UTF-8.
\<close>

section \<open>Tokens\<close>

datatype token =
  TOpen | TClose | TBegin | TEnd | TColon | TComma | TText string | TNumber string | TTrue | TFalse | TNull

abbreviation quote :: char where "quote \<equiv> CHR 0x22"
abbreviation backslash :: char where "backslash \<equiv> CHR 0x5C"

definition is_space :: "char \<Rightarrow> bool" where
  "is_space c \<longleftrightarrow> c \<in> {CHR '' '', CHR 0x09, CHR 0x0A, CHR 0x0D}"

definition punctuation :: "char \<Rightarrow> token option" where
  "punctuation c =
     (if c = CHR ''{'' then Some TOpen else if c = CHR ''}'' then Some TClose
      else if c = CHR ''['' then Some TBegin else if c = CHR '']'' then Some TEnd
      else if c = CHR '':'' then Some TColon else if c = CHR '','' then Some TComma else None)"

definition is_lower :: "char \<Rightarrow> bool" where
  "is_lower c \<longleftrightarrow> 97 \<le> (of_char c :: nat) \<and> (of_char c :: nat) \<le> 122"

definition number_char :: "char \<Rightarrow> bool" where
  "number_char c \<longleftrightarrow> is_digit_char c \<or> c \<in> {CHR ''-'', CHR ''+'', CHR ''.'', CHR ''e'', CHR ''E''}"

text \<open>The grammar of numbers.\<close>

definition valid_exponent :: "string \<Rightarrow> bool" where
  "valid_exponent r \<longleftrightarrow>
     (case r of
        [] \<Rightarrow> True
      | e # r1 \<Rightarrow>
          e \<in> {CHR ''e'', CHR ''E''} \<and>
          (let r2 = (case r1 of [] \<Rightarrow> [] | c # r3 \<Rightarrow> if c \<in> {CHR ''+'', CHR ''-''} then r3 else r1)
           in r2 \<noteq> [] \<and> list_all is_digit_char r2))"

definition valid_fraction :: "string \<Rightarrow> bool" where
  "valid_fraction r \<longleftrightarrow>
     (case r of
        [] \<Rightarrow> True
      | c # r1 \<Rightarrow>
          if c = CHR ''.'' then takeWhile is_digit_char r1 \<noteq> [] \<and> valid_exponent (dropWhile is_digit_char r1)
          else valid_exponent r)"

definition valid_number :: "string \<Rightarrow> bool" where
  "valid_number s \<longleftrightarrow>
     (let s1 = (case s of [] \<Rightarrow> [] | c # r \<Rightarrow> if c = CHR ''-'' then r else s); ds = takeWhile is_digit_char s1
      in ds \<noteq> [] \<and> (hd ds = CHR ''0'' \<longrightarrow> length ds = 1) \<and> valid_fraction (dropWhile is_digit_char s1))"

definition word_token :: "string \<Rightarrow> token option" where
  "word_token w =
     (if w = ''true'' then Some TTrue else if w = ''false'' then Some TFalse
      else if w = ''null'' then Some TNull else None)"

section \<open>The scanner\<close>

text \<open>
  Between tokens (\<open>LN\<close>); in a text (\<open>LS\<close>), after its backslash (\<open>LE\<close>), in the four digits of a
  \<open>\u\<close> escape (\<open>LU\<close>, with a high surrogate that came before it), after a high surrogate
  (\<open>LH\<close>, \<open>LHE\<close>); in a number and in a word. What was read of the token is kept in reverse.
\<close>

datatype lstate =
  LN | LS string | LE string | LU string nat nat "nat option" | LH string nat | LHE string nat
  | LNum string | LWord string

definition hex_value :: "char \<Rightarrow> nat option" where
  "hex_value c =
     (let n = of_char c :: nat in
      if 48 \<le> n \<and> n \<le> 57 then Some (n - 48)
      else if 97 \<le> n \<and> n \<le> 102 then Some (n - 97 + 10)
      else if 65 \<le> n \<and> n \<le> 70 then Some (n - 65 + 10) else None)"

definition utf8 :: "nat \<Rightarrow> string" where
  "utf8 v =
     (if v < 0x80 then [char_of v]
      else if v < 0x800 then [char_of (0xC0 + v div 64), char_of (0x80 + v mod 64)]
      else if v < 0x10000
      then [char_of (0xE0 + v div 4096), char_of (0x80 + v div 64 mod 64), char_of (0x80 + v mod 64)]
      else [char_of (0xF0 + v div 262144), char_of (0x80 + v div 4096 mod 64),
            char_of (0x80 + v div 64 mod 64), char_of (0x80 + v mod 64)])"

definition put :: "nat \<Rightarrow> string \<Rightarrow> string" where
  "put v acc = rev (utf8 v) @ acc"

definition one_unit :: "string \<Rightarrow> nat \<Rightarrow> lstate" where
  "one_unit acc v =
     (if 0xD800 \<le> v \<and> v < 0xDC00 then LH acc v
      else if 0xDC00 \<le> v \<and> v < 0xE000 then LS (put 0xFFFD acc) else LS (put v acc))"

definition end_unit :: "string \<Rightarrow> nat \<Rightarrow> nat option \<Rightarrow> lstate" where
  "end_unit acc v hi =
     (case hi of
        None \<Rightarrow> one_unit acc v
      | Some h \<Rightarrow>
          if 0xDC00 \<le> v \<and> v < 0xE000 then LS (put (0x10000 + (h - 0xD800) * 1024 + (v - 0xDC00)) acc)
          else one_unit (put 0xFFFD acc) v)"

definition in_text :: "string \<Rightarrow> char \<Rightarrow> (lstate \<times> token list) option" where
  "in_text acc c =
     (if c = quote then Some (LN, [TText (rev acc)])
      else if c = backslash then Some (LE acc, [])
      else if (of_char c :: nat) < 32 then None
      else Some (LS (c # acc), []))"

definition after_backslash :: "string \<Rightarrow> char \<Rightarrow> (lstate \<times> token list) option" where
  "after_backslash acc c =
     (if c \<in> {quote, backslash, CHR ''/''} then Some (LS (c # acc), [])
      else if c = CHR ''b'' then Some (LS (CHR 0x08 # acc), [])
      else if c = CHR ''f'' then Some (LS (CHR 0x0C # acc), [])
      else if c = CHR ''n'' then Some (LS (CHR 0x0A # acc), [])
      else if c = CHR ''r'' then Some (LS (CHR 0x0D # acc), [])
      else if c = CHR ''t'' then Some (LS (CHR 0x09 # acc), [])
      else if c = CHR ''u'' then Some (LU acc 0 0 None, []) else None)"

definition begin_token :: "char \<Rightarrow> (lstate \<times> token list) option" where
  "begin_token c =
     (if is_space c then Some (LN, [])
      else if c = quote then Some (LS [], [])
      else if is_digit_char c \<or> c = CHR ''-'' then Some (LNum [c], [])
      else if is_lower c then Some (LWord [c], [])
      else map_option (\<lambda>t. (LN, [t])) (punctuation c))"

fun lstep :: "lstate \<Rightarrow> char \<Rightarrow> (lstate \<times> token list) option" where
  "lstep LN c = begin_token c"
| "lstep (LS acc) c = in_text acc c"
| "lstep (LE acc) c = after_backslash acc c"
| "lstep (LU acc k v hi) c =
     (case hex_value c of
        None \<Rightarrow> None
      | Some d \<Rightarrow> Some (if k = 3 then end_unit acc (v * 16 + d) hi else LU acc (k + 1) (v * 16 + d) hi, []))"
| "lstep (LH acc h) c = (if c = backslash then Some (LHE acc h, []) else in_text (put 0xFFFD acc) c)"
| "lstep (LHE acc h) c =
     (if c = CHR ''u'' then Some (LU acc 0 0 (Some h), []) else after_backslash (put 0xFFFD acc) c)"
| "lstep (LNum acc) c =
     (if number_char c then Some (LNum (c # acc), [])
      else if valid_number (rev acc)
      then map_option (\<lambda>(st, ts). (st, TNumber (rev acc) # ts)) (begin_token c) else None)"
| "lstep (LWord acc) c =
     (if is_lower c then Some (LWord (c # acc), [])
      else
        case word_token (rev acc) of
          None \<Rightarrow> None
        | Some t \<Rightarrow> map_option (\<lambda>(st, ts). (st, t # ts)) (begin_token c))"

fun lend :: "lstate \<Rightarrow> token list option" where
  "lend LN = Some []"
| "lend (LNum acc) = (if valid_number (rev acc) then Some [TNumber (rev acc)] else None)"
| "lend (LWord acc) = map_option (\<lambda>t. [t]) (word_token (rev acc))"
| "lend _ = None"

fun lex :: "lstate \<Rightarrow> string \<Rightarrow> token list option" where
  "lex st [] = lend st"
| "lex st (c # cs) =
     (case lstep st c of None \<Rightarrow> None | Some (st', ts) \<Rightarrow> map_option ((@) ts) (lex st' cs))"

section \<open>Values\<close>

datatype json =
  JNull | JBool bool | JNumber string | JText string | JArray "json list" | JObject "(string \<times> json) list"

text \<open>
  What the parser waits for, and the open arrays and objects around it, innermost first, with
  their contents in reverse.
\<close>

datatype jmode =
  Want | WantOrEnd | KeyOrEnd | Key "(string \<times> json) list" | Colon "(string \<times> json) list" string | Got json

datatype jframe = InArray "json list" | InObject "(string \<times> json) list" string

definition begin_value :: "token \<Rightarrow> jframe list \<Rightarrow> (jmode \<times> jframe list) option" where
  "begin_value t fs =
     (case t of
        TOpen \<Rightarrow> Some (KeyOrEnd, fs)
      | TBegin \<Rightarrow> Some (WantOrEnd, InArray [] # fs)
      | TText s \<Rightarrow> Some (Got (JText s), fs)
      | TNumber s \<Rightarrow> Some (Got (JNumber s), fs)
      | TTrue \<Rightarrow> Some (Got (JBool True), fs)
      | TFalse \<Rightarrow> Some (Got (JBool False), fs)
      | TNull \<Rightarrow> Some (Got JNull, fs)
      | _ \<Rightarrow> None)"

fun after_value :: "json \<Rightarrow> token \<Rightarrow> jframe list \<Rightarrow> (jmode \<times> jframe list) option" where
  "after_value v t (InArray xs # fs) =
     (if t = TComma then Some (Want, InArray (v # xs) # fs)
      else if t = TEnd then Some (Got (JArray (rev (v # xs))), fs) else None)"
| "after_value v t (InObject ps k # fs) =
     (if t = TComma then Some (Key ((k, v) # ps), fs)
      else if t = TClose then Some (Got (JObject (rev ((k, v) # ps))), fs) else None)"
| "after_value v t [] = None"

fun jstep :: "jmode \<times> jframe list \<Rightarrow> token \<Rightarrow> (jmode \<times> jframe list) option" where
  "jstep (Want, fs) t = begin_value t fs"
| "jstep (WantOrEnd, fs) t =
     (if t = TEnd then (case fs of [] \<Rightarrow> None | _ # fs' \<Rightarrow> Some (Got (JArray []), fs')) else begin_value t fs)"
| "jstep (KeyOrEnd, fs) t =
     (case t of TClose \<Rightarrow> Some (Got (JObject []), fs) | TText k \<Rightarrow> Some (Colon [] k, fs) | _ \<Rightarrow> None)"
| "jstep (Key ps, fs) t = (case t of TText k \<Rightarrow> Some (Colon ps k, fs) | _ \<Rightarrow> None)"
| "jstep (Colon ps k, fs) t = (if t = TColon then Some (Want, InObject ps k # fs) else None)"
| "jstep (Got v, fs) t = after_value v t fs"

fun jrun :: "jmode \<times> jframe list \<Rightarrow> token list \<Rightarrow> json option" where
  "jrun (m, fs) [] = (case m of Got v \<Rightarrow> if fs = [] then Some v else None | _ \<Rightarrow> None)"
| "jrun st (t # ts) = (case jstep st t of None \<Rightarrow> None | Some st' \<Rightarrow> jrun st' ts)"

definition json_parse :: "string \<Rightarrow> json option" where
  "json_parse s = (case lex LN s of None \<Rightarrow> None | Some ts \<Rightarrow> jrun (Want, []) ts)"

section \<open>Writing\<close>

text \<open>
  The text of a flat struct. A string is escaped as Go escapes it for HTML: the quote and the
  backslash by a backslash, line ends and tabs by their letters, other control characters and
  \<open><\<close>, \<open>>\<close>, \<open>&\<close> by four hexadecimal digits.
\<close>

datatype field = FInt int | FText string | FNull

definition hex_char :: "nat \<Rightarrow> char" where
  "hex_char d = (if d < 10 then char_of (48 + d) else char_of (97 + (d - 10)))"

definition escape_char :: "char \<Rightarrow> string" where
  "escape_char c =
     (if c \<in> {quote, backslash} then [backslash, c]
      else if c = CHR 0x0A then [backslash, CHR ''n'']
      else if c = CHR 0x0D then [backslash, CHR ''r'']
      else if c = CHR 0x09 then [backslash, CHR ''t'']
      else if (of_char c :: nat) < 32 \<or> c \<in> {CHR ''<'', CHR ''>'', CHR ''&''}
      then [backslash, CHR ''u'', CHR ''0'', CHR ''0'', hex_char (of_char c div 16), hex_char (of_char c mod 16)]
      else [c])"

definition print_text :: "string \<Rightarrow> string" where
  "print_text s = [quote] @ concat (map escape_char s) @ [quote]"

fun print_field :: "field \<Rightarrow> string" where
  "print_field (FInt i) = show_int i"
| "print_field (FText s) = print_text s"
| "print_field FNull = ''null''"

fun print_fields :: "(string \<times> field) list \<Rightarrow> string" where
  "print_fields [] = []"
| "print_fields [(k, v)] = print_text k @ '':'' @ print_field v"
| "print_fields ((k, v) # r) = print_text k @ '':'' @ print_field v @ '','' @ print_fields r"

definition print_struct :: "(string \<times> field) list \<Rightarrow> string" where
  "print_struct kvs = ''{'' @ print_fields kvs @ ''}''"

fun field_json :: "field \<Rightarrow> json" where
  "field_json (FInt i) = JNumber (show_int i)"
| "field_json (FText s) = JText s"
| "field_json FNull = JNull"

end
