(* ===== verification/GoJsonProps.thy ===== *)
theory GoJsonProps
  imports GoJson
begin

text \<open>
  What the writer of \<open>GoJson\<close> prints, the reader reads back: character by character for texts, then
  numbers, then a whole struct.
\<close>

definition ascii :: "string \<Rightarrow> bool" where
  "ascii s \<longleftrightarrow> (\<forall>c \<in> set s. (of_char c :: nat) < 128)"

section \<open>Texts\<close>

lemma hex_value_char: "d < 16 \<Longrightarrow> hex_value (hex_char d) = Some d"
proof -
  assume "d < 16"
  then have "d < 10 \<or> d = 10 \<or> d = 11 \<or> d = 12 \<or> d = 13 \<or> d = 14 \<or> d = 15" by arith
  then show ?thesis by (auto simp: hex_char_def hex_value_def Let_def)
qed

lemma hex_zero: "hex_value (CHR ''0'') = Some 0"
  by (simp add: hex_value_def)

lemma one_unit_ascii: "n < 128 \<Longrightarrow> one_unit acc n = LS (char_of n # acc)"
  by (simp add: one_unit_def put_def utf8_def)

lemma lex_hex:
  assumes "(of_char c :: nat) < 128"
  shows "lex (LS acc) ([backslash, CHR ''u'', CHR ''0'', CHR ''0'', hex_char (of_char c div 16), hex_char (of_char c mod 16)] @ r) =
    lex (LS (c # acc)) r"
proof -
  let ?n = "of_char c :: nat"
  have h: "hex_value (hex_char (?n div 16)) = Some (?n div 16)" "hex_value (hex_char (?n mod 16)) = Some (?n mod 16)"
    using assms by (simp_all add: hex_value_char)
  have n: "?n div 16 * 16 + ?n mod 16 = ?n" by (rule div_mult_mod_eq)
  have u: "end_unit acc ?n None = LS (c # acc)" using one_unit_ascii [OF assms] by (simp add: end_unit_def)
  have esc: "in_text acc backslash = Some (LE acc, [])" "after_backslash acc (CHR ''u'') = Some (LU acc 0 0 None, [])"
    by (simp_all add: in_text_def after_backslash_def)
  have id: "map_option ((@) []) x = x" for x :: "token list option" by (cases x) simp_all
  show ?thesis by (simp add: esc hex_zero h n u id numeral_3_eq_3 numeral_2_eq_2 del: char_of_mod_256)
qed

lemma lex_escape_char:
  assumes "(of_char c :: nat) < 128"
  shows "lex (LS acc) (escape_char c @ r) = lex (LS (c # acc)) r"
proof -
  have id: "map_option ((@) []) x = x" for x :: "token list option" by (cases x) simp_all
  consider "c \<in> {quote, backslash}" | "c = CHR 0x0A" | "c = CHR 0x0D" | "c = CHR 0x09"
    | "c \<notin> {quote, backslash, CHR 0x0A, CHR 0x0D, CHR 0x09}" "(of_char c :: nat) < 32 \<or> c \<in> {CHR ''<'', CHR ''>'', CHR ''&''}"
    | "c \<notin> {quote, backslash, CHR 0x0A, CHR 0x0D, CHR 0x09}" "\<not> ((of_char c :: nat) < 32 \<or> c \<in> {CHR ''<'', CHR ''>'', CHR ''&''})"
    by blast
  then show ?thesis
  proof cases
    case 5
    then have "escape_char c =
        [backslash, CHR ''u'', CHR ''0'', CHR ''0'', hex_char (of_char c div 16), hex_char (of_char c mod 16)]"
      by (simp add: escape_char_def)
    then show ?thesis using lex_hex [OF assms] by simp
  next
    case 6
    then have "escape_char c = [c]" "in_text acc c = Some (LS (c # acc), [])"
      by (simp_all add: escape_char_def in_text_def)
    then show ?thesis by (simp add: id)
  qed (auto simp: escape_char_def in_text_def after_backslash_def id)
qed

lemma lex_escaped: "ascii s \<Longrightarrow> lex (LS acc) (concat (map escape_char s) @ r) = lex (LS (rev s @ acc)) r"
proof (induction s arbitrary: acc)
  case (Cons c s)
  then have c: "(of_char c :: nat) < 128" and s: "ascii s" by (simp_all add: ascii_def)
  show ?case using lex_escape_char [OF c, of acc "concat (map escape_char s) @ r"] Cons.IH [OF s] by simp
qed simp

lemma begin_simps [simp]:
  "begin_token quote = Some (LS [], [])" "begin_token (CHR ''{'') = Some (LN, [TOpen])"
  "begin_token (CHR ''}'') = Some (LN, [TClose])" "begin_token (CHR '':'') = Some (LN, [TColon])"
  "begin_token (CHR '','') = Some (LN, [TComma])" "begin_token (CHR ''n'') = Some (LWord [CHR ''n''], [])"
  by (simp_all add: begin_token_def is_space_def is_digit_char_def is_lower_def punctuation_def)

lemma lex_print_text:
  assumes "ascii s"
  shows "lex LN (print_text s @ r) = map_option (Cons (TText s)) (lex LN r)"
proof -
  have "lex LN (print_text s @ r) = map_option ((@) []) (lex (LS []) (concat (map escape_char s) @ quote # r))"
    by (simp add: print_text_def)
  also have "\<dots> = map_option ((@) []) (lex (LS (rev s)) (quote # r))" using lex_escaped [OF assms, of "[]"] by simp
  also have "\<dots> = map_option (Cons (TText s)) (lex LN r)"
    by (cases "lex LN r") (simp_all add: in_text_def)
  finally show ?thesis .
qed

section \<open>Numbers\<close>

lemma show_nat_head: "hd (show_nat n) = CHR ''0'' \<Longrightarrow> length (show_nat n) = 1"
proof (induction n rule: show_nat.induct)
  case (1 n)
  show ?case
  proof (cases "n < 10")
    case True
    then show ?thesis by (simp add: show_nat.simps [of n])
  next
    case False
    have h: "hd (show_nat n) = hd (show_nat (n div 10))"
      using False show_nat_not_Nil [of "n div 10"] by (simp add: show_nat.simps [of n])
    then have l: "length (show_nat (n div 10)) = 1" using 1 False by simp
    obtain c where c: "show_nat (n div 10) = [c]" using l by (auto simp: length_Suc_conv)
    then have "c = CHR ''0''" using h 1(2) by simp
    then have "digits_value (show_nat (n div 10)) = 0" using c by (simp add: digits_value_def)
    then have "n div 10 = 0" using digits_value_show_nat by metis
    then show ?thesis using False by simp
  qed
qed

lemma takeWhile_digits: "takeWhile is_digit_char (show_nat n) = show_nat n" "dropWhile is_digit_char (show_nat n) = []"
  using show_nat_digits [of n] by (simp_all add: takeWhile_eq_all_conv dropWhile_eq_Nil_conv)

lemma show_nat_no_minus: "show_nat n = c # r \<Longrightarrow> c \<noteq> CHR ''-''"
  using show_nat_digits [of n] by (auto simp: is_digit_char_def)

lemma valid_show_int: "valid_number (show_int i)"
proof -
  have s1: "(case show_nat n of [] \<Rightarrow> [] | c # r \<Rightarrow> if c = CHR ''-'' then r else show_nat n) = show_nat n" for n
    using show_nat_no_minus [of n] by (cases "show_nat n") auto
  have "valid_number (show_nat n)" for n
    unfolding valid_number_def s1 Let_def takeWhile_digits
    using show_nat_head [of n] show_nat_not_Nil [of n] by (auto simp: valid_fraction_def)
  moreover have "valid_number (CHR ''-'' # show_nat n)" for n
    unfolding valid_number_def list.case Let_def if_P [OF refl] takeWhile_digits
    using show_nat_head [of n] show_nat_not_Nil [of n] by (auto simp: valid_fraction_def)
  ultimately show ?thesis by (simp add: show_int_def)
qed

lemma show_int_chars: "c \<in> set (show_int i) \<Longrightarrow> number_char c"
  using show_nat_digits by (auto simp: show_int_def number_char_def split: if_splits)

lemma lex_number:
  assumes "\<forall>c \<in> set s. number_char c"
  shows "lex (LNum acc) (s @ r) = lex (LNum (rev s @ acc)) r"
  using assms
proof (induction s arbitrary: acc)
  case (Cons c s)
  have id: "map_option ((@) []) x = x" for x :: "token list option" by (cases x) simp_all
  show ?case using Cons by (simp add: id)
qed simp

definition closes :: "string \<Rightarrow> bool" where
  "closes r \<longleftrightarrow> (\<exists>r'. r = CHR '','' # r' \<or> r = CHR ''}'' # r')"

lemma lex_show_int:
  assumes "closes r"
  shows "lex LN (show_int i @ r) = map_option (Cons (TNumber (show_int i))) (lex LN r)"
proof -
  obtain c s where cs: "show_int i = c # s"
    using show_nat_not_Nil by (metis show_int_def neq_Nil_conv)
  have id: "map_option ((@) []) x = x" for x :: "token list option" by (cases x) simp_all
  have c: "begin_token c = Some (LNum [c], [])"
  proof -
    have "is_digit_char c \<or> c = CHR ''-''"
      using cs show_nat_digits [of "nat i"] by (auto simp: show_int_def split: if_splits)
    then show ?thesis by (auto simp: begin_token_def is_space_def is_digit_char_def)
  qed
  have "lex LN (show_int i @ r) = lex (LNum (rev (show_int i))) r"
    using lex_number [of s "[c]" r] show_int_chars [of _ i] cs by (simp add: c id)
  moreover have "lex (LNum (rev (show_int i))) r = map_option (Cons (TNumber (show_int i))) (lex LN r)"
  proof -
    obtain r' where "r = CHR '','' # r' \<or> r = CHR ''}'' # r'" using assms by (auto simp: closes_def)
    then show ?thesis
      using valid_show_int [of i] by (cases "lex LN r'") (auto simp: number_char_def is_digit_char_def)
  qed
  ultimately show ?thesis by simp
qed

lemma lex_null: 
  assumes "closes r"
  shows "lex LN (''null'' @ r) = map_option (Cons TNull) (lex LN r)"
proof -
  obtain r' where "r = CHR '','' # r' \<or> r = CHR ''}'' # r'" using assms by (auto simp: closes_def)
  then show ?thesis by (cases "lex LN r'") (auto simp: is_lower_def word_token_def)
qed

section \<open>Structs\<close>

fun field_ok :: "string \<times> field \<Rightarrow> bool" where
  "field_ok (k, FText s) \<longleftrightarrow> ascii k \<and> ascii s"
| "field_ok (k, _) \<longleftrightarrow> ascii k"

definition field_token :: "field \<Rightarrow> token" where
  "field_token v = (case v of FInt i \<Rightarrow> TNumber (show_int i) | FText s \<Rightarrow> TText s | FNull \<Rightarrow> TNull)"

lemma lex_field:
  assumes "field_ok (k, v)" and "closes r"
  shows "lex LN (print_text k @ CHR '':'' # print_field v @ r) =
    map_option (\<lambda>ts. TText k # TColon # field_token v # ts) (lex LN r)"
proof -
  have k: "ascii k" using assms(1) by (cases v) simp_all
  have v: "lex LN (print_field v @ r) = map_option (Cons (field_token v)) (lex LN r)"
    using assms lex_print_text lex_show_int lex_null by (cases v) (simp_all add: field_token_def)
  show ?thesis
    using lex_print_text [OF k, of "CHR '':'' # print_field v @ r"] v
    by (cases "lex LN r") simp_all
qed

fun struct_tokens :: "(string \<times> field) list \<Rightarrow> token list" where
  "struct_tokens [] = [TClose]"
| "struct_tokens [(k, v)] = [TText k, TColon, field_token v, TClose]"
| "struct_tokens ((k, v) # r) = [TText k, TColon, field_token v, TComma] @ struct_tokens r"

lemma lex_fields: "list_all field_ok kvs \<Longrightarrow> lex LN (print_fields kvs @ ''}'') = Some (struct_tokens kvs)"
proof (induction kvs rule: print_fields.induct)
  case (2 k v)
  then show ?case using lex_field [of k v "''}''"] by (simp add: closes_def)
next
  case (3 k v kv r)
  have ok: "field_ok (k, v)" and r: "lex LN (print_fields (kv # r) @ ''}'') = Some (struct_tokens (kv # r))"
    using 3 by simp_all
  have "lex LN (CHR '','' # print_fields (kv # r) @ ''}'') = Some (TComma # struct_tokens (kv # r))"
    using r by simp
  then show ?case
    using lex_field [OF ok, of "CHR '','' # print_fields (kv # r) @ ''}''"] by (simp add: closes_def)
qed simp

lemma begin_field: "begin_value (field_token v) fs = Some (Got (field_json v), fs)"
  by (cases v) (simp_all add: begin_value_def field_token_def)

lemma jrun_fields:
  assumes "kvs \<noteq> []"
  shows "jrun (Key ps, []) (struct_tokens kvs) = Some (JObject (rev ps @ map (\<lambda>(k, v). (k, field_json v)) kvs))"
  using assms
proof (induction kvs arbitrary: ps rule: struct_tokens.induct)
  case (2 k v)
  then show ?case by (simp add: begin_field)
next
  case (3 k v kv r)
  then show ?case by (simp add: begin_field)
qed simp

theorem json_parse_struct:
  assumes "kvs \<noteq> []" and "list_all field_ok kvs"
  shows "json_parse (print_struct kvs) = Some (JObject (map (\<lambda>(k, v). (k, field_json v)) kvs))"
proof -
  have l: "lex LN (print_struct kvs) = Some (TOpen # struct_tokens kvs)"
    using lex_fields [OF assms(2)] by (simp add: print_struct_def)
  have "jrun (KeyOrEnd, []) (struct_tokens kvs) = jrun (Key [], []) (struct_tokens kvs)"
    using assms(1) by (cases kvs rule: struct_tokens.cases) simp_all
  then show ?thesis using l jrun_fields [OF assms(1), of "[]"] by (simp add: json_parse_def begin_value_def)
qed

end
