(* ===== verification/GoDecode.thy ===== *)
theory GoDecode
  imports GoJsonProps
begin

text \<open>
  The second half of \<open>json.Unmarshal\<close>: values of the parser into the fields of a struct. A field that
  does not fit leaves its old value and makes the whole call return an error, with the other fields
  set; a \<open>null\<close> leaves a number or a string as it is. The boolean says that there was no error. Keys
  are compared without regard to the case of letters.
\<close>

definition lower_char :: "char \<Rightarrow> char" where
  "lower_char c = (if 65 \<le> (of_char c :: nat) \<and> (of_char c :: nat) \<le> 90 then char_of ((of_char c :: nat) + 32) else c)"

definition same_key :: "string \<Rightarrow> string \<Rightarrow> bool" where
  "same_key k l \<longleftrightarrow> map lower_char k = map lower_char l"

text \<open>\<open>strconv.ParseInt\<close> and \<open>ParseUint\<close> on the text of a number.\<close>

definition digits_only :: "string \<Rightarrow> nat option" where
  "digits_only s = (if s \<noteq> [] \<and> list_all is_digit_char s then Some (digits_value s) else None)"

definition parse_int64 :: "string \<Rightarrow> int option" where
  "parse_int64 s =
     (case s of
        [] \<Rightarrow> None
      | c # r \<Rightarrow>
          case (if c = CHR ''-'' then map_option (\<lambda>n. - int n) (digits_only r) else map_option int (digits_only s)) of
            None \<Rightarrow> None
          | Some i \<Rightarrow> if - (2 ^ 63) \<le> i \<and> i < 2 ^ 63 then Some i else None)"

definition parse_uint :: "nat \<Rightarrow> string \<Rightarrow> nat option" where
  "parse_uint bits s =
     (case digits_only s of None \<Rightarrow> None | Some n \<Rightarrow> if n < 2 ^ bits then Some n else None)"

definition set_int :: "json \<Rightarrow> int \<Rightarrow> int \<times> bool" where
  "set_int v old =
     (case v of
        JNumber s \<Rightarrow> (case parse_int64 s of Some i \<Rightarrow> (i, True) | None \<Rightarrow> (old, False))
      | JNull \<Rightarrow> (old, True)
      | _ \<Rightarrow> (old, False))"

definition set_uint :: "nat \<Rightarrow> json \<Rightarrow> nat \<Rightarrow> nat \<times> bool" where
  "set_uint bits v old =
     (case v of
        JNumber s \<Rightarrow> (case parse_uint bits s of Some n \<Rightarrow> (n, True) | None \<Rightarrow> (old, False))
      | JNull \<Rightarrow> (old, True)
      | _ \<Rightarrow> (old, False))"

definition set_text :: "json \<Rightarrow> string \<Rightarrow> string \<times> bool" where
  "set_text v old = (case v of JText s \<Rightarrow> (s, True) | JNull \<Rightarrow> (old, True) | _ \<Rightarrow> (old, False))"

text \<open>A \<open>[]byte\<close> is base64 text, or an array of small numbers; \<open>null\<close> makes it nil.\<close>

definition set_bytes :: "json \<Rightarrow> string \<Rightarrow> string \<times> bool" where
  "set_bytes v old =
     (case v of
        JText s \<Rightarrow> (case b64_decode s of Some b \<Rightarrow> (b, True) | None \<Rightarrow> (old, False))
      | JNull \<Rightarrow> ([], True)
      | JArray xs \<Rightarrow> (map (\<lambda>x. char_of (fst (set_uint 8 x 0))) xs, list_all (\<lambda>x. snd (set_uint 8 x 0)) xs)
      | _ \<Rightarrow> (old, False))"

text \<open>An object sets the fields in its order; \<open>null\<close> sets none; any other value is an error.\<close>

fun set_fields :: "(string \<Rightarrow> json \<Rightarrow> 'a \<Rightarrow> 'a \<times> bool) \<Rightarrow> (string \<times> json) list \<Rightarrow> 'a \<Rightarrow> 'a \<times> bool" where
  "set_fields f [] x = (x, True)"
| "set_fields f ((k, v) # r) x =
     (let (y, ok) = f k v x; (z, ok2) = set_fields f r y in (z, ok \<and> ok2))"

definition json_unmarshal :: "(string \<Rightarrow> json \<Rightarrow> 'a \<Rightarrow> 'a \<times> bool) \<Rightarrow> string \<Rightarrow> 'a \<Rightarrow> 'a \<times> bool" where
  "json_unmarshal f buf x =
     (case json_parse buf of
        None \<Rightarrow> (x, False)
      | Some (JObject kvs) \<Rightarrow> set_fields f kvs x
      | Some JNull \<Rightarrow> (x, True)
      | Some _ \<Rightarrow> (x, False))"

lemma json_unmarshal_struct:
  assumes "kvs \<noteq> []" and "list_all field_ok kvs"
  shows "json_unmarshal f (print_struct kvs) x = set_fields f (map (\<lambda>(k, v). (k, field_json v)) kvs) x"
  using json_parse_struct [OF assms] by (simp add: json_unmarshal_def)

section \<open>What was printed is read back\<close>

lemma digits_only_show_nat: "digits_only (show_nat n) = Some n"
  using show_nat_digits [of n] show_nat_not_Nil [of n] digits_value_show_nat [of n]
  by (simp add: digits_only_def list_all_iff)

lemma parse_show_int:
  assumes "- (2 ^ 63) \<le> i" and "i < 2 ^ 63"
  shows "parse_int64 (show_int i) = Some i"
proof (cases "i < 0")
  case True
  then show ?thesis using assms digits_only_show_nat [of "nat (- i)"] by (simp add: parse_int64_def show_int_def)
next
  case False
  obtain c r where cr: "show_nat (nat i) = c # r" using show_nat_not_Nil by (metis neq_Nil_conv)
  have "c \<noteq> CHR ''-''" using show_nat_no_minus [OF cr] .
  then show ?thesis
    using False assms digits_only_show_nat [of "nat i"] cr by (simp add: parse_int64_def show_int_def)
qed

lemma parse_show_uint: "n < 2 ^ bits \<Longrightarrow> parse_uint bits (show_nat n) = Some n"
  by (simp add: parse_uint_def digits_only_show_nat)

lemma show_int_nat: "show_int (int n) = show_nat n"
  by (simp add: show_int_def)

lemma set_int_field: "- (2 ^ 63) \<le> i \<Longrightarrow> i < 2 ^ 63 \<Longrightarrow> set_int (field_json (FInt i)) old = (i, True)"
  by (simp add: set_int_def parse_show_int)

lemma set_uint_field: "n < 2 ^ bits \<Longrightarrow> set_uint bits (field_json (FInt (int n))) old = (n, True)"
  by (simp add: set_uint_def show_int_nat parse_show_uint)

lemma set_text_field: "set_text (field_json (FText s)) old = (s, True)"
  by (simp add: set_text_def)

lemma set_bytes_field: "set_bytes (field_json (FText (b64_encode s))) old = (s, True)"
  "set_bytes (field_json FNull) old = ([], True)"
  by (simp_all add: set_bytes_def b64_decode_encode)

lemma ascii_b64: "ascii (b64_encode s)"
  using b64_encode_out b64_out_plain(3) unfolding ascii_def by blast

section \<open>Lengths\<close>

lemma length_show_nat: "n < 10 ^ Suc k \<Longrightarrow> length (show_nat n) \<le> Suc k"
proof (induction k arbitrary: n)
  case 0
  then show ?case by (simp add: show_nat.simps [of n])
next
  case (Suc k)
  show ?case
  proof (cases "n < 10")
    case True
    then show ?thesis by (simp add: show_nat.simps [of n])
  next
    case False
    have "n div 10 < 10 ^ Suc k" using Suc.prems by (simp add: less_mult_imp_div_less)
    then show ?thesis using Suc.IH [of "n div 10"] False by (simp add: show_nat.simps [of n])
  qed
qed

lemma length_show_int:
  assumes "- (2 ^ 63) \<le> i" and "i < 2 ^ 63"
  shows "length (show_int i) \<le> 20"
proof -
  have "nat (- i) < 10 ^ Suc 18" if "i < 0" using assms(1) that by simp
  moreover have "nat i < 10 ^ Suc 18" using assms(2) by simp
  ultimately show ?thesis
    using length_show_nat [of "nat (- i)" 18] length_show_nat [of "nat i" 18] by (simp add: show_int_def)
qed

lemma length_b64: "length (b64_encode s) = 4 * ((length s + 2) div 3)"
proof -
  have "length (b64_groups ns) = 4 * ((length ns + 2) div 3)" for ns
  proof (induction ns rule: b64_groups.induct)
    case (4 a b c r)
    have "(length (a # b # c # r) + 2) div 3 = (length r + 2) div 3 + 1" by simp
    then show ?case using 4 by (simp only: b64_groups.simps length_append) simp
  qed simp_all
  then show ?thesis by (simp add: b64_encode_def)
qed

lemma length_print_plain:
  assumes "\<forall>c \<in> set s. escape_char c = [c]"
  shows "length (print_text s) = length s + 2"
proof -
  have "concat (map escape_char s) = s" using assms by (induction s) simp_all
  then show ?thesis by (simp add: print_text_def)
qed

lemma escape_b64: "c \<in> set (b64_encode s) \<Longrightarrow> escape_char c = [c]"
proof -
  assume "c \<in> set (b64_encode s)"
  then have o: "b64_out c" by (rule b64_encode_out)
  have "32 \<le> (of_char c :: nat)" by (rule b64_out_plain(4) [OF o])
  then have "c \<noteq> CHR 0x09" by auto
  then show ?thesis using b64_out_plain [OF o] by (simp add: escape_char_def)
qed

end
