(* ===== verification/LspWire.thy ===== *)
theory LspWire
  imports LspConnect GoDecode
begin

text \<open>
  The messages of the protocol on the wire: \<open>json.Marshal\<close> and \<open>json.Unmarshal\<close> at the type
  \<open>Message\<close>, and the way of a message from \<open>ssend\<close> through the sockets to the \<open>req\<close> channel of the
  other end.
\<close>

definition type_code :: "MsgType \<Rightarrow> int" where
  "type_code t = (case t of MsgConnect \<Rightarrow> 0 | MsgData \<Rightarrow> 1 | MsgAck \<Rightarrow> 2 | MsgTypeOther n \<Rightarrow> n)"

definition code_type :: "int \<Rightarrow> MsgType" where
  "code_type n = (if n = 0 then MsgConnect else if n = 1 then MsgData else if n = 2 then MsgAck else MsgTypeOther n)"

text \<open>
  A nil payload is written as \<open>null\<close>, an empty one as the empty text; both are \<open>[]\<close> here, and
  \<open>nilp\<close> says which it is.
\<close>

definition Message_fields :: "bool \<Rightarrow> Message \<Rightarrow> (string \<times> field) list" where
  "Message_fields nilp m =
     [(''Type'', FInt (type_code (Type m))), (''ConnID'', FInt (ConnID m)), (''SeqNum'', FInt (SeqNum m)),
      (''Payload'', if nilp \<and> Payload m = [] then FNull else FText (b64_encode (Payload m)))]"

definition marshal_Message :: "bool \<Rightarrow> Message \<Rightarrow> bytes" where
  "marshal_Message nilp m = print_struct (Message_fields nilp m)"

definition Message_set :: "string \<Rightarrow> json \<Rightarrow> Message \<Rightarrow> Message \<times> bool" where
  "Message_set k v m =
     (if same_key k ''Type'' then (let (n, ok) = set_int v (type_code (Type m)) in (m\<lparr>Type := code_type n\<rparr>, ok))
      else if same_key k ''ConnID'' then (let (n, ok) = set_int v (ConnID m) in (m\<lparr>ConnID := n\<rparr>, ok))
      else if same_key k ''SeqNum'' then (let (n, ok) = set_int v (SeqNum m) in (m\<lparr>SeqNum := n\<rparr>, ok))
      else if same_key k ''Payload'' then (let (b, ok) = set_bytes v (Payload m) in (m\<lparr>Payload := b\<rparr>, ok))
      else (m, True))"

text \<open>The call in \<open>connectHandler\<close>, which drops the message when there is an error.\<close>

definition unmarshal_Message :: "bytes \<Rightarrow> Message option" where
  "unmarshal_Message buf =
     (case json_unmarshal Message_set buf zero_Message of (m, ok) \<Rightarrow> if ok then Some m else None)"

text \<open>The messages that a Go program can hold: 64-bit numbers.\<close>

definition int64 :: "int \<Rightarrow> bool" where
  "int64 i \<longleftrightarrow> - (2 ^ 63) \<le> i \<and> i < 2 ^ 63"

definition message_ok :: "Message \<Rightarrow> bool" where
  "message_ok m \<longleftrightarrow> int64 (type_code (Type m)) \<and> code_type (type_code (Type m)) = Type m \<and>
     int64 (ConnID m) \<and> int64 (SeqNum m)"

lemma keys_differ [simp]:
  "same_key ''Type'' ''Type''" "\<not> same_key ''ConnID'' ''Type''" "\<not> same_key ''SeqNum'' ''Type''"
  "\<not> same_key ''Payload'' ''Type''" "same_key ''ConnID'' ''ConnID''" "\<not> same_key ''SeqNum'' ''ConnID''"
  "\<not> same_key ''Payload'' ''ConnID''" "same_key ''SeqNum'' ''SeqNum''" "\<not> same_key ''Payload'' ''SeqNum''"
  "same_key ''Payload'' ''Payload''"
  by (simp_all add: same_key_def lower_char_def)

lemma unmarshal_marshal_Message:
  assumes "message_ok m"
  shows "unmarshal_Message (marshal_Message nilp m) = Some m"
proof -
  have ok: "list_all field_ok (Message_fields nilp m)"
    using ascii_b64 [of "Payload m"] by (simp add: Message_fields_def ascii_def)
  have ne: "Message_fields nilp m \<noteq> []" by (simp add: Message_fields_def)
  have i: "set_int (field_json (FInt i)) old = (i, True)" if "int64 i" for i old
    using that set_int_field by (simp add: int64_def)
  have b: "set_bytes (field_json (if nilp \<and> Payload m = [] then FNull else FText (b64_encode (Payload m)))) old =
      (Payload m, True)" for old
    using set_bytes_field by simp
  have "set_fields Message_set (map (\<lambda>(k, v). (k, field_json v)) (Message_fields nilp m)) zero_Message = (m, True)"
    using assms unfolding Message_fields_def list.map prod.case set_fields.simps Message_set_def
    by (simp add: i b message_ok_def Let_def del: field_json.simps)
  then show ?thesis
    by (simp add: unmarshal_Message_def marshal_Message_def json_unmarshal_struct [OF ne ok])
qed

section \<open>From one end to the other\<close>

text \<open>The text of a message with at most 1400 bytes fits into the reader's buffer.\<close>

lemma length_marshal_Message:
  assumes m: "message_ok m" and l: "length (Payload m) \<le> 1400"
  shows "length (marshal_Message nilp m) \<le> 2000"
proof -
  have i: "length (show_int (type_code (Type m))) \<le> 20" "length (show_int (ConnID m)) \<le> 20"
    "length (show_int (SeqNum m)) \<le> 20"
    using m length_show_int by (simp_all add: message_ok_def int64_def)
  have "length (print_text (b64_encode (Payload m))) = length (b64_encode (Payload m)) + 2"
    by (rule length_print_plain) (use escape_b64 in blast)
  also have "length (b64_encode (Payload m)) \<le> 4 * 467" unfolding length_b64 using l by (intro mult_left_mono) auto
  finally have p: "length (print_field (if nilp \<and> Payload m = [] then FNull else FText (b64_encode (Payload m)))) \<le> 1870"
    by simp
  have k: "length (print_text ''Type'') = 6" "length (print_text ''ConnID'') = 8" "length (print_text ''SeqNum'') = 8"
    "length (print_text ''Payload'') = 9"
    by (subst length_print_plain; simp add: escape_char_def)+
  show ?thesis
    using i p k by (simp add: marshal_Message_def Message_fields_def print_struct_def)
qed

text \<open>The calls of the two ends, with the socket layer of \<open>lspnet\<close> in between.\<close>

definition wire_ssend ::
    "netstate \<Rightarrow> UDPConn \<Rightarrow> int \<Rightarrow> (nat \<times> bool) \<Rightarrow> bool \<Rightarrow> Message \<Rightarrow> UDPAddr option
     \<Rightarrow> (bytes \<times> addr option) option \<times> bool" where
  "wire_ssend n c r sys nilp m a =
     Connect_ssend (\<lambda>m. Some (marshal_Message nilp m)) (WriteToUDP n c r sys) m a"

definition wire_send ::
    "netstate \<Rightarrow> UDPConn \<Rightarrow> int \<Rightarrow> (nat \<times> bool) \<Rightarrow> bool \<Rightarrow> Message \<Rightarrow> (bytes \<times> addr option) option \<times> bool" where
  "wire_send n c r sys nilp m =
     Connect_send (\<lambda>m. Some (marshal_Message nilp m)) (UDPConn_Write n c r sys) m"

definition wire_receive ::
    "netstate \<Rightarrow> UDPConn \<Rightarrow> ((bytes \<times> addr) option \<times> int) list \<Rightarrow> effect list" where
  "wire_receive n c ds =
     (case ReadFromUDP n c ds of
        None \<Rightarrow> []
      | Some (None, _) \<Rightarrow> connectHandler unmarshal_Message [ReadError]
      | Some (Some (d, a), _) \<Rightarrow> connectHandler unmarshal_Message [Datagram d (UDPAddr_String a)])"

lemma wire_ssend_datagram:
  "wire_ssend n c r sys nilp m (Some to) = (Some (d, dst), ok) \<Longrightarrow> d = marshal_Message nilp m \<and> dst = Some (naddr to)"
  using write_read by (auto simp: wire_ssend_def Connect_ssend_def split: prod.splits if_splits)

lemma wire_send_datagram: "wire_send n c r sys nilp m = (Some (d, dst), ok) \<Longrightarrow> d = marshal_Message nilp m"
  by (auto simp: wire_send_def Connect_send_def UDPConn_Write_def UDPConn_write_def split: if_splits)

lemma wire_sent:
  assumes "wire_ssend n c r sys nilp m (Some to) = (Some (d, dst), ok) \<or> wire_send n c r sys nilp m = (Some (d, dst), ok)"
  shows "d = marshal_Message nilp m"
  using assms by (elim disjE) (simp_all add: wire_ssend_datagram wire_send_datagram)

text \<open>Whatever of it arrives is read as the message that was sent.\<close>

lemma wire_receive_sent:
  assumes m: "message_ok m" "length (Payload m) \<le> 1400" and r: "\<not> dropIt (readDropPercent n c) r"
  shows "wire_receive n c ((Some (marshal_Message nilp m, src), r) # ds) = [Req (Pkt (Some m) (Some src) receive_kind)]"
proof -
  have "take 2000 (marshal_Message nilp m) = marshal_Message nilp m"
    using length_marshal_Message [OF m, of nilp] by simp
  then show ?thesis
    using r unmarshal_marshal_Message [OF m(1), of nilp] by (simp add: wire_receive_def UDPAddr_String_def)
qed

end
