(* ===== verification/BitWire.thy ===== *)
theory BitWire
  imports LspWire BitScheduler
begin

text \<open>
  The messages of the mining system inside the payloads of the protocol: \<open>json.Marshal\<close> and
  \<open>json.Unmarshal\<close> at the type \<open>Message\<close> of \<open>bitcoin/message.go\<close>. None of the three programs looks at
  the error of \<open>Unmarshal\<close>: they go on with what the call left in the new struct.
\<close>

definition btype_code :: "BMsgType \<Rightarrow> int" where
  "btype_code t = (case t of Join \<Rightarrow> 0 | Request \<Rightarrow> 1 | Result \<Rightarrow> 2 | BMsgTypeOther n \<Rightarrow> n)"

definition code_btype :: "int \<Rightarrow> BMsgType" where
  "code_btype n = (if n = 0 then Join else if n = 1 then Request else if n = 2 then Result else BMsgTypeOther n)"

definition BMessage_fields :: "BMessage \<Rightarrow> (string \<times> field) list" where
  "BMessage_fields m =
     [(''Type'', FInt (btype_code (BType m))), (''Data'', FText (Data m)), (''Lower'', FInt (uint (Lower m))),
      (''Upper'', FInt (uint (Upper m))), (''Hash'', FInt (uint (HashOf m))),
      (''Nonce'', FInt (uint (Nonce m)))]"

definition marshal_BMessage :: "BMessage \<Rightarrow> bytes" where
  "marshal_BMessage m = print_struct (BMessage_fields m)"

definition set_word :: "json \<Rightarrow> uint64 \<Rightarrow> uint64 \<times> bool" where
  "set_word v old = (let (n, ok) = set_uint 64 v (unat old) in (word_of_nat n, ok))"

definition BMessage_set :: "string \<Rightarrow> json \<Rightarrow> BMessage \<Rightarrow> BMessage \<times> bool" where
  "BMessage_set k v m =
     (if same_key k ''Type'' then (let (n, ok) = set_int v (btype_code (BType m)) in (m\<lparr>BType := code_btype n\<rparr>, ok))
      else if same_key k ''Data'' then (let (s, ok) = set_text v (Data m) in (m\<lparr>Data := s\<rparr>, ok))
      else if same_key k ''Lower'' then (let (w, ok) = set_word v (Lower m) in (m\<lparr>Lower := w\<rparr>, ok))
      else if same_key k ''Upper'' then (let (w, ok) = set_word v (Upper m) in (m\<lparr>Upper := w\<rparr>, ok))
      else if same_key k ''Hash'' then (let (w, ok) = set_word v (HashOf m) in (m\<lparr>HashOf := w\<rparr>, ok))
      else if same_key k ''Nonce'' then (let (w, ok) = set_word v (Nonce m) in (m\<lparr>Nonce := w\<rparr>, ok))
      else (m, True))"

definition unmarshal_BMessage :: "bytes \<Rightarrow> BMessage" where
  "unmarshal_BMessage buf = fst (json_unmarshal BMessage_set buf NewJoin)"

text \<open>What a Go program can hold, with a text of plain characters.\<close>

definition bmessage_ok :: "BMessage \<Rightarrow> bool" where
  "bmessage_ok m \<longleftrightarrow> int64 (btype_code (BType m)) \<and> code_btype (btype_code (BType m)) = BType m \<and> ascii (Data m)"

lemma bmessage_ok_kinds [simp]:
  "bmessage_ok (NewRequest d l u) \<longleftrightarrow> ascii d" "bmessage_ok (NewResult h n)" "bmessage_ok NewJoin"
  by (simp_all add: bmessage_ok_def int64_def btype_code_def code_btype_def NewRequest_def NewResult_def NewJoin_def
      ascii_def)

lemma bit_keys_differ [simp]:
  "\<not> same_key ''Data'' ''Type''" "\<not> same_key ''Lower'' ''Type''" "\<not> same_key ''Upper'' ''Type''"
  "\<not> same_key ''Hash'' ''Type''" "\<not> same_key ''Nonce'' ''Type''" "same_key ''Data'' ''Data''"
  "\<not> same_key ''Lower'' ''Data''" "\<not> same_key ''Upper'' ''Data''" "\<not> same_key ''Hash'' ''Data''"
  "\<not> same_key ''Nonce'' ''Data''" "same_key ''Lower'' ''Lower''" "\<not> same_key ''Upper'' ''Lower''"
  "\<not> same_key ''Hash'' ''Lower''" "\<not> same_key ''Nonce'' ''Lower''" "same_key ''Upper'' ''Upper''"
  "\<not> same_key ''Hash'' ''Upper''" "\<not> same_key ''Nonce'' ''Upper''" "same_key ''Hash'' ''Hash''"
  "\<not> same_key ''Nonce'' ''Hash''" "same_key ''Nonce'' ''Nonce''"
  by (simp_all add: same_key_def lower_char_def)

lemma unat_small: "unat (w :: uint64) < 2 ^ 64"
  using unsigned_less [of w] by simp

lemma set_word_field: "set_word (field_json (FInt (uint w))) old = (w, True)"
proof -
  have "uint w = int (unat w)" by simp
  then show ?thesis using set_uint_field [OF unat_small [of w]] by (simp add: set_word_def del: field_json.simps)
qed

lemma unmarshal_marshal_BMessage:
  assumes "bmessage_ok m"
  shows "unmarshal_BMessage (marshal_BMessage m) = m"
proof -
  have ok: "list_all field_ok (BMessage_fields m)"
    using assms by (simp add: BMessage_fields_def bmessage_ok_def ascii_def)
  have ne: "BMessage_fields m \<noteq> []" by (simp add: BMessage_fields_def)
  have i: "set_int (field_json (FInt i)) old = (i, True)" if "int64 i" for i old
    using that set_int_field by (simp add: int64_def)
  have "set_fields BMessage_set (map (\<lambda>(k, v). (k, field_json v)) (BMessage_fields m)) NewJoin = (m, True)"
    using assms unfolding BMessage_fields_def list.map prod.case set_fields.simps BMessage_set_def
    by (simp add: i set_word_field set_text_field bmessage_ok_def Let_def del: field_json.simps)
  then show ?thesis
    by (simp add: unmarshal_BMessage_def marshal_BMessage_def json_unmarshal_struct [OF ne ok])
qed

section \<open>Lengths\<close>

lemma length_escape: "length (concat (map escape_char s)) \<le> 6 * length s"
proof (induction s)
  case (Cons c s)
  have "length (escape_char c) \<le> 6" by (simp add: escape_char_def)
  with Cons show ?case by simp
qed simp

lemma length_show_word: "length (show_int (uint (w :: uint64))) \<le> 20"
proof -
  have "unat w < 10 ^ Suc 19" using unat_small [of w] by simp
  then have "length (show_nat (unat w)) \<le> 20" using length_show_nat [of "unat w" 19] by simp
  moreover have "uint w = int (unat w)" by simp
  then have "show_int (uint w) = show_nat (unat w)" by (simp only: show_int_nat)
  ultimately show ?thesis by simp
qed

lemma length_marshal_BMessage:
  assumes m: "bmessage_ok m" and l: "length (Data m) \<le> 200"
  shows "length (marshal_BMessage m) \<le> 1400"
proof -
  have t: "length (show_int (btype_code (BType m))) \<le> 20"
    using m length_show_int by (simp add: bmessage_ok_def int64_def)
  have d: "length (print_text (Data m)) \<le> 1202" using length_escape [of "Data m"] l by (simp add: print_text_def)
  have k: "length (print_text ''Type'') = 6" "length (print_text ''Data'') = 6" "length (print_text ''Lower'') = 7"
    "length (print_text ''Upper'') = 7" "length (print_text ''Hash'') = 6" "length (print_text ''Nonce'') = 7"
    by (subst length_print_plain; simp add: escape_char_def)+
  show ?thesis
    using t d k length_show_word [of "Lower m"] length_show_word [of "Upper m"] length_show_word [of "HashOf m"]
      length_show_word [of "Nonce m"]
    by (simp add: marshal_BMessage_def BMessage_fields_def print_struct_def)
qed

text \<open>A payload that is no JSON is taken for a \<open>Join\<close>.\<close>

lemma unmarshal_BMessage_garbage: "json_parse buf = None \<Longrightarrow> unmarshal_BMessage buf = NewJoin"
  by (simp add: unmarshal_BMessage_def json_unmarshal_def)

end
