(* ===== verification/BitDialogue.thy ===== *)
theory BitDialogue
  imports BitWire BitMiner LspStreams
begin

text \<open>
  The mining messages over a session of the protocol: the parts of both programs between the struct
  of a message and the payloads of a connection, and the miner program as a transformer of streams.
  What one side reads is a prefix of what the other side wrote, message by message, and so the
  results that the server reads from a miner are the miner's answers to the requests, in order.
\<close>

section \<open>Streams of mining messages\<close>

text \<open>The messages behind the payloads that a reader has taken so far.\<close>

definition messages_read :: "bytes list \<Rightarrow> BMessage list" where
  "messages_read ps = map unmarshal_BMessage ps"

definition payloads :: "BMessage list \<Rightarrow> bytes list" where
  "payloads ms = map marshal_BMessage ms"

lemma messages_read_payloads:
  "\<forall>m \<in> set ms. bmessage_ok m \<Longrightarrow> messages_read (take n (payloads ms)) = take n ms"
  unfolding messages_read_def payloads_def take_map map_map o_def
  by (rule map_idI) (use unmarshal_marshal_BMessage in \<open>blast dest: in_set_takeD\<close>)

lemma up_messages:
  assumes "up_reach cid c0 s0 l" and "client_fresh cid W c0" and "server_fresh cid (W + int d) s0"
    and "l_hist l = payloads ms" and "\<forall>m \<in> set ms. bmessage_ok m"
  shows "\<exists>n. messages_read (l_out l) = take n ms"
  using up_prefix [OF assms(1-3)] messages_read_payloads [OF assms(5)] unfolding assms(4) by metis

lemma down_messages:
  assumes "down_reach cid s0 c0 l" and "server_fresh cid W s0" and "client_fresh cid (W + int d) c0"
    and "l_hist l = payloads ms" and "\<forall>m \<in> set ms. bmessage_ok m"
  shows "\<exists>n. messages_read (l_out l) = take n ms"
  using down_prefix [OF assms(1-3)] messages_read_payloads [OF assms(5)] unfolding assms(4) by metis

section \<open>The miner on a stream of requests\<close>

text \<open>The messages that a run of the miner writes.\<close>

fun written :: "miner_effect \<Rightarrow> BMessage option" where
  "written (MWrite m) = Some m"
| "written _ = None"

definition miner_writes :: "miner_effect list \<Rightarrow> BMessage list" where
  "miner_writes es = List.map_filter written es"

lemma miner_writes_simps [simp]:
  "miner_writes [] = []" "miner_writes (e # es) = (case written e of None \<Rightarrow> miner_writes es | Some m \<Rightarrow> m # miner_writes es)"
  by (simp_all add: miner_writes_def List.map_filter_def split: option.splits)

definition answers :: "(string \<Rightarrow> uint64 \<Rightarrow> uint64) \<Rightarrow> BMessage \<Rightarrow> BMessage \<Rightarrow> bool" where
  "answers hash r m \<longleftrightarrow>
     (\<exists>h n. m = NewResult h n \<and> honest_result (hash (Data r)) (Lower r) (Upper r) h n)"

definition minable :: "BMessage \<Rightarrow> bool" where
  "minable r \<longleftrightarrow> Lower r \<le> Upper r \<and> Upper r < max_word"

lemma miner_loop_answers:
  "\<forall>r \<in> set rs. minable r \<Longrightarrow>
     \<exists>es. miner_loop hash (map (\<lambda>r. (Some r, True)) rs) = Some es \<and> list_all2 (answers hash) rs (miner_writes es)"
proof (induction rs)
  case (Cons r rs)
  obtain h n where hn: "miner_turn hash (Some r) True = Some ([MWrite (NewResult h n)], True)"
    "honest_result (hash (Data r)) (Lower r) (Upper r) h n"
    using miner_turn_honest [of r hash] Cons.prems by (auto simp: minable_def)
  obtain es where es: "miner_loop hash (map (\<lambda>r. (Some r, True)) rs) = Some es"
    "list_all2 (answers hash) rs (miner_writes es)"
    using Cons by auto
  have "answers hash r (NewResult h n)" using hn(2) by (auto simp: answers_def)
  then show ?case using hn(1) es by auto
qed simp

lemma answers_ok: "list_all2 (answers hash) rs ms \<Longrightarrow> \<forall>m \<in> set ms. bmessage_ok m"
proof (induction rule: list_all2_induct)
  case (Cons r rs m ms)
  have "bmessage_ok m" using Cons.hyps(1) by (auto simp: answers_def)
  then show ?case using Cons.IH by simp
qed simp

text \<open>
  A miner whose reads come from one direction of a session and whose writes go into the other: what
  the server reads is the \<open>Join\<close> and then the answers to its requests, one by one.
\<close>

lemma dialogue:
  assumes fresh: "client_fresh cid W c0" "server_fresh cid W s0"
    and dn: "down_reach cid s0 c0 dn" "l_hist dn = payloads rs" "\<forall>r \<in> set rs. bmessage_ok r \<and> minable r"
    and run: "miner_loop hash (map (\<lambda>m. (Some m, True)) (messages_read (l_out dn))) = Some es"
    and up: "up_reach cid c0 s0 u" "l_hist u = payloads (take j (NewJoin # miner_writes es))"
  shows "\<exists>k xs. messages_read (l_out u) = take k (NewJoin # xs) \<and> length xs \<le> length rs \<and>
    list_all2 (answers hash) (take (length xs) rs) xs"
proof -
  obtain n where n: "messages_read (l_out dn) = take n rs"
    using down_messages [where d = 0, OF dn(1) fresh(2) _ dn(2)] fresh(1) dn(3) by auto
  have mn: "\<forall>r \<in> set (take n rs). minable r" using dn(3) by (auto dest: in_set_takeD)
  obtain es' where es': "miner_loop hash (map (\<lambda>r. (Some r, True)) (take n rs)) = Some es'"
    "list_all2 (answers hash) (take n rs) (miner_writes es')"
    using miner_loop_answers [OF mn] by blast
  have a: "list_all2 (answers hash) (take n rs) (miner_writes es)"
    using es' run n by simp
  have len: "length (take n rs) = length (miner_writes es)" by (rule list_all2_lengthD [OF a])
  have ok: "\<forall>m \<in> set (take j (NewJoin # miner_writes es)). bmessage_ok m"
    using answers_ok [OF a] by (auto dest!: in_set_takeD)
  obtain k where k: "messages_read (l_out u) = take k (take j (NewJoin # miner_writes es))"
    using up_messages [where d = 0, OF up(1) fresh(1) _ up(2) ok] fresh(2) by auto
  have le: "length (miner_writes es) \<le> length rs" using len by simp
  have "take (length (miner_writes es)) rs = take n rs"
    using arg_cong [OF len, of "\<lambda>i. take i rs"] by (simp add: min_def split: if_splits)
  then have "list_all2 (answers hash) (take (length (miner_writes es)) rs) (miner_writes es)" using a by simp
  then show ?thesis using k le unfolding take_take by blast
qed

end
