(* ===== verification/WireClaims.thy ===== *)
theory WireClaims
  imports BitDialogue BitDemo LspProgress
begin

text \<open>
  The properties of the messages on the wire, from the sender's struct through JSON, base64 and the
  socket layer to the receiver's struct.
\<close>

section \<open>The protocol\<close>

text \<open>
  C18. What \<open>send\<close> or \<open>ssend\<close> puts on the wire for a message with at most 1400 bytes of payload, the
  reader of the other end hands to its handler as that same message, with the sender's address: it
  fits into the reader's buffer, parses, and comes back unchanged, a nil payload as well as any bytes.
\<close>

theorem message_travels:
  assumes "message_ok m" and "length (Payload m) \<le> 1400"
    and "wire_ssend n1 c1 r1 sys nilp m (Some to) = (Some (d, dst), ok) \<or> wire_send n1 c1 r1 sys nilp m = (Some (d, dst), ok)"
    and "\<not> dropIt (readDropPercent n2 c2) r2"
  shows "wire_receive n2 c2 ((Some (d, src), r2) # ds) = [Req (Pkt (Some m) (Some src) receive_kind)]"
  unfolding wire_sent [OF assms(3)] by (rule wire_receive_sent [OF assms(1,2,4)])

theorem message_travels_witness:
  "wire_receive init_netstate \<lparr>nconn = 0\<rparr>
     [(Some (marshal_Message False (NewData 1 1 ''hi''), ''cli''), 0)] =
   [Req (Pkt (Some (NewData 1 1 ''hi'')) (Some ''cli'') receive_kind)]"
proof -
  have p: "readDropPercent init_netstate \<lparr>nconn = 0\<rparr> = 0" "writeDropPercent init_netstate \<lparr>nconn = 0\<rparr> = 0"
    by (simp_all add: readDropPercent_def writeDropPercent_def init_netstate_def)
  have "wire_send init_netstate \<lparr>nconn = 0\<rparr> 0 (10, False) False (NewData 1 1 ''hi'') =
      (Some (marshal_Message False (NewData 1 1 ''hi''), None), True)"
    by (simp add: wire_send_def Connect_send_def UDPConn_Write_def UDPConn_write_def dropIt_def p)
  then show ?thesis
    by (intro message_travels [OF _ _ disjI2])
      (simp_all add: message_ok_def int64_def type_code_def code_type_def NewData_def dropIt_def p)
qed

section \<open>The mining system\<close>

text \<open>
  C22. A message of the mining system whose text is ASCII and has at most 200 characters travels in one
  data message of the protocol, over the wire and back, and is read as the message it was.
\<close>

theorem mining_message_travels:
  assumes "bmessage_ok b" and "length (Data b) \<le> 200" and "int64 cid" and "int64 k"
    and "wire_ssend n1 c1 r1 sys False (NewData cid k (marshal_BMessage b)) (Some to) = (Some (d, dst), ok) \<or>
      wire_send n1 c1 r1 sys False (NewData cid k (marshal_BMessage b)) = (Some (d, dst), ok)"
    and "\<not> dropIt (readDropPercent n2 c2) r2"
  shows "\<exists>m. wire_receive n2 c2 ((Some (d, src), r2) # ds) = [Req (Pkt (Some m) (Some src) receive_kind)] \<and>
    ConnID m = cid \<and> SeqNum m = k \<and> unmarshal_BMessage (Payload m) = b"
proof -
  let ?m = "NewData cid k (marshal_BMessage b)"
  have m: "message_ok ?m" "length (Payload ?m) \<le> 1400"
    using assms(3,4) length_marshal_BMessage [OF assms(1,2)]
    by (simp_all add: message_ok_def int64_def type_code_def code_type_def NewData_def)
  have "wire_receive n2 c2 ((Some (d, src), r2) # ds) = [Req (Pkt (Some ?m) (Some src) receive_kind)]"
    unfolding wire_sent [OF assms(5)] by (rule wire_receive_sent [OF m assms(6)])
  moreover have "unmarshal_BMessage (Payload ?m) = b"
    using unmarshal_marshal_BMessage [OF assms(1)] by (simp add: NewData_def)
  ultimately show ?thesis by (intro exI [of _ ?m]) (simp add: NewData_def)
qed

theorem mining_message_travels_witness:
  "\<exists>m. wire_receive init_netstate \<lparr>nconn = 0\<rparr>
      [(Some (marshal_Message False (NewData 1 1 (marshal_BMessage demo_job)), ''cli''), 0)] =
    [Req (Pkt (Some m) (Some ''cli'') receive_kind)] \<and> unmarshal_BMessage (Payload m) = demo_job"
proof -
  let ?m = "NewData 1 1 (marshal_BMessage demo_job)"
  have p: "readDropPercent init_netstate \<lparr>nconn = 0\<rparr> = 0" "writeDropPercent init_netstate \<lparr>nconn = 0\<rparr> = 0"
    by (simp_all add: readDropPercent_def writeDropPercent_def init_netstate_def)
  have j: "bmessage_ok demo_job" "length (Data demo_job) \<le> 200" "int64 1"
    by (simp_all add: demo_job_def ascii_def int64_def)
  have w: "wire_send init_netstate \<lparr>nconn = 0\<rparr> 0 (10, False) False ?m = (Some (marshal_Message False ?m, None), True)"
    by (simp add: wire_send_def Connect_send_def UDPConn_Write_def UDPConn_write_def dropIt_def p)
  have d: "\<not> dropIt (readDropPercent init_netstate \<lparr>nconn = 0\<rparr>) 0" by (simp add: p dropIt_def)
  show ?thesis
    using mining_message_travels [OF j(1,2) j(3) j(3) disjI2 [OF w] d, of "''cli''" "[]"] by blast
qed





end
