(* ===== verification/Spec2Isabelle.thy ===== *)
theory Spec2Isabelle
  imports LspClaims LspGoClaims BitClaims WireClaims
begin

text \<open>
  A model of the Go repository \<open>dbm\<close>: the Live Sequence Protocol over UDP (\<open>lsp\<close>, on top of
  \<open>lspnet\<close>), the distributed bitcoin miner that runs over it (\<open>bitcoin\<close>), and the two test
  programs \<open>crunner\<close> and \<open>srunner\<close>. All paths below are relative to \<open>src/src/github.com/cmu440\<close>.

  \<^bold>\<open>How the parts interact.\<close> An LSP client or server is one goroutine that takes packets from its
  channel \<open>req\<close> and runs a handler for each. Packets come from the calls of the API, from the
  goroutine that reads datagrams (\<open>connectHandler\<close>), from the timer (\<open>Timers\<close>), and from the
  handlers themselves. Because one goroutine runs all handlers, a handler is modelled as a
  function from the state and a packet to the new state and the list of its effects: datagrams
  sent, packets posted, answers to waiting calls. Where the code can dereference a nil pointer the
  result is \<open>None\<close>. What Go leaves open is an argument: the order of a \<open>range\<close> loop over a map, what
  the network delivers, which write fails. Theorems are for every value of those arguments.

  \<^bold>\<open>Theories, in the order of the code.\<close>
  \<^item> \<open>GoPrelude\<close>: Go's maps as finite maps with \<open>len\<close>, lookup with a default and \<open>range\<close>; decimal
    printing; outcomes (a state with effects, or a panic) and loops over them.
  \<^item> \<open>LspNet\<close>: \<open>lspnet/conn.go\<close>, \<open>net.go\<close>, \<open>staff.go\<close>, \<open>addr.go\<close>. \<open>LspMessage\<close>: \<open>lsp/message.go\<close> and
    \<open>params.go\<close>. \<open>LspConnect\<close>: \<open>lsp/common.go\<close>; its garbled constant names are given the names that
    the other files use, in their order.
  \<^item> \<open>LspWindow\<close>, \<open>LspReceive\<close>: the sliding window, the code that client and server share on a
    \<open>Connect\<close> (the loops in \<open>handleReceive\<close> and \<open>handleWrite\<close> of both), with the invariants
    \<open>snd_inv\<close> and \<open>rcv_inv\<close> of its two halves.
  \<^item> \<open>LspClient\<close>, \<open>LspServer\<close>: \<open>lsp/client_impl.go\<close> and \<open>server_impl.go\<close>, one definition per
    function and per case of the handlers' switches. \<open>LspClientProps\<close>, \<open>LspServerProps\<close>: what each
    handler does to one connection.
  \<^item> \<open>LspLink\<close>: two endpoints and the network between them, which may lose, repeat and reorder
    datagrams; the interfaces \<open>window_sender\<close> and \<open>window_receiver\<close>, and \<open>reliable_link\<close>, which proves
    from them that the reader gets a prefix of what was written. \<open>LspClientLink\<close> and
    \<open>LspServerLink\<close> interpret the interfaces on the client and on one connection of the server,
    \<open>LspStreams\<close> puts them together in both directions. Seen from the applications each direction
    refines a queue (\<open>queue_step\<close>).
  \<^item> \<open>LspLive\<close>: progress of a link, with the interfaces \<open>live_sender\<close> and \<open>live_receiver\<close> and their
    composition \<open>live_link\<close>; \<open>LspClientLive\<close> and \<open>LspServerLive\<close> interpret them, \<open>LspProgress\<close> puts
    them together and has the run in which the window comes to rest.
  \<^item> \<open>LspServerSafe\<close>: the server's tables agree with each other in every reachable state, so no
    handler panics. \<open>LspClientSafe\<close>: when \<open>Close\<close> of the client may return, and the loss of a silent
    server. \<open>LspMore\<close>: epochs, \<open>CloseConn\<close>, \<open>Close\<close> of the server. \<open>LspRunners\<close>: the two test programs.
  \<^item> \<open>LspGoroutines\<close>: client and server as goroutines (handler, timer, reader, any number of callers of
    the API) over channels with the capacities that \<open>NewClient\<close>, \<open>NewServer\<close> and \<open>NewConnection\<close> give
    them; one step is one operation, and a send on a full channel waits. \<open>LspEndpoints\<close>: interfaces
    \<open>sending_goroutines\<close> and \<open>receiving_goroutines\<close>, under which every step of such a system is a step
    of an endpoint of \<open>LspLink\<close> or none. \<open>LspWorld\<close>: a client, a server and the network, with the
    four interpretations. \<open>LspWorldDemo\<close>: a concrete run. \<open>LspBlocked\<close>: the states in which
    goroutines wait for ever, and the schedules that lead there. \<open>LspWorldClose\<close>: sessions of orderly
    applications, and what has arrived when \<open>Close\<close> gets its answer. \<open>LspNewClient\<close>: the goroutines that
    \<open>NewClient\<close> starts, until it returns. \<open>LspServerSystem\<close>: those of a server from \<open>NewServer\<close> on.
  \<^item> \<open>BitMessage\<close>: \<open>bitcoin/message.go\<close> and \<open>hash.go\<close> with SHA-256. \<open>BitMiner\<close>, \<open>BitClient\<close>:
    \<open>miner/miner.go\<close> and \<open>client/client.go\<close>. \<open>BitScheduler\<close>: \<open>server/server.go\<close>.
  \<^item> \<open>BitSchedulerProps\<close>, \<open>BitSchedulerInv\<close>: the invariant of the scheduler and that every turn keeps
    it. \<open>BitJob\<close>: the ranges of a job partition its nonces, and what the results add up to; the
    interface \<open>mining_service\<close>, interpreted on the miner program. \<open>BitService\<close>: the server from its
    start, with the requests read so far. \<open>BitRuns\<close>: progress, and jobs that do not end.
  \<^item> \<open>GoBase64\<close>, \<open>GoJson\<close>, \<open>GoJsonProps\<close>, \<open>GoDecode\<close>: base64 and \<open>encoding/json\<close> as the code uses them, a
    lexer and a parser for all JSON texts and the printer of a struct of numbers and texts.
    \<open>LspWire\<close>, \<open>BitWire\<close>: both kinds of messages as JSON, and the way of a message over the sockets.
    \<open>BitDialogue\<close>: streams of mining messages over a session, and the miner as their transformer.
  \<^item> \<open>LspDemo\<close>, \<open>LspPanic\<close>, \<open>BitDemo\<close>: concrete runs. \<open>LspClaims\<close>, \<open>LspGoClaims\<close>, \<open>BitClaims\<close>,
    \<open>WireClaims\<close> and this theory: the properties.

  \<^bold>\<open>What is shown.\<close> Each direction of a connection delivers the written messages in order, without
  gap or duplicate, over a lossy network, and loses none of them; from every state with the
  connection still open all that was written can still be delivered; the window bounds hold; the
  server does not panic as long as the application writes only to established connections, and does
  otherwise; silent peers are dropped after the epoch limit. What the applications read is a prefix
  of what they wrote, however the goroutines are scheduled, and after a \<open>Close\<close> without loss nothing is
  missing at the server; but a schedule can block a client for ever: on its own queue, on messages that
  nobody reads, in a \<open>NewClient\<close> without a server, in a \<open>Close\<close> after the loss of the server, and with a
  handler that stays behind after \<open>Close\<close>. Whatever request the mining server answers, it answers to
  the client that asked, in the order of the requests, with the least hash of all nonces asked for,
  which is what a single miner would have answered; the miner's search computes that minimum for its
  range. A message of either kind comes out of JSON, base64 and the sockets as it went in, and the whole
  way from the command line over the network to the printed line is one theorem
  (\<open>request_to_answer\<close>).

  \<^bold>\<open>Bounds.\<close> Sequence numbers, connection numbers and counters are Go's \<open>int\<close> and are modelled as
  unbounded integers: they grow by one per message, so that 63 bits do not overflow in practice.
  Hashes and nonces are 64-bit words with wrap-around; where a property needs that the arithmetic of
  \<open>assign\<close> does not wrap it says so. The miner's loop is a partial function: its value is \<open>None\<close>
  where it does not end. Runs of goroutines are lists of moves, without a bound; the capacities of the
  channels are those of the code.

  \<^bold>\<open>Not modelled.\<close> The handlers pass a message as a value; that its JSON form carries it unchanged is
  shown apart, for texts of ASCII characters (other bytes are printed as they are, where Go
  replaces what is not UTF-8). Further the sockets of package \<open>net\<close>, the log files, the flag
  package's parsing, the tests and archives. In \<open>LspGoroutines\<close> a handler's turn changes the struct in
  one step and then carries out its operations, so that a call of the API which looks at a field of
  the struct without a lock sees it before or after the turn, not in between; the packets a timer or a
  reader posts are those of their loops, with the time that passes left open. \<open>common.go\<close> as
  committed does not compile (line 12 and lines 72 to 74); the model follows the evident meaning, with the \<open>select\<close> at the head of \<open>connectHandler\<close>'s loop.
\<close>

section \<open>The whole system\<close>

text \<open>The answer that the scheduler writes, as the line that the client program prints for it.\<close>

lemma answer_line:
  assumes "nonce \<noteq> []" and "\<forall>c \<in> set nonce. is_digit_char c" and "digits_value nonce < 2 ^ 64"
    and "service Hash reqs s" and "waitans s" and "\<not> jobgiveup s"
    and "request_no reqs (currid s) = (c, NewRequest dat 0 (ParseUint nonce))"
    and "fair_choice ch" and "sched_turn ch rd s = Some (s', es)"
  shows "\<exists>h n rest. es = WriteMsg c (NewResult h n) # rest \<and>
    client_main [prog, host, dat, nonce] True True True (Some (NewResult h n)) =
      [ClWrite (NewRequest dat 0 (ParseUint nonce)),
       Println (''Result '' @ show_nat (unat h) @ '' '' @ show_nat (unat n)), ClClose] \<and>
    unat n \<le> digits_value nonce \<and> h = Hash dat n \<and>
    (\<forall>k. unat k \<le> digits_value nonce \<longrightarrow> h \<le> Hash dat k)"
proof -
  let ?u = "ParseUint nonce"
  have u: "unat ?u = digits_value nonce" by (rule ParseUint_value [OF assms(1-3)])
  note A = service_answer [OF assms(4,5)]
  have least: "least_answer (range_answers (Hash dat) 0 ?u) (Answer (ans1 s) (ans2 s))"
    using A(3) by (simp add: assms(7))
  have "job_done ch s = Some (s', es)" using assms(5,9) by (simp add: sched_turn_def)
  then obtain rest where "es = WriteMsg c (NewResult (ans1 s) (ans2 s)) # rest"
    using A(2) assms(6,7) by (auto simp: job_done_def Let_def andthen_Some split: if_splits)
  moreover have "client_main [prog, host, dat, nonce] True True True (Some (NewResult (ans1 s) (ans2 s))) =
      [ClWrite (NewRequest dat 0 ?u),
       Println (''Result '' @ show_nat (unat (ans1 s)) @ '' '' @ show_nat (unat (ans2 s))), ClClose]"
    by (simp add: client_main_def printResult_def FormatUint_def Let_def)
  moreover have "unat (ans2 s) \<le> digits_value nonce \<and> ans1 s = Hash dat (ans2 s)"
    using least u by (auto simp: least_answer_def range_answers_def word_le_nat_alt)
  moreover have "ans1 s \<le> Hash dat k" if "unat k \<le> digits_value nonce" for k
  proof -
    have "Answer (ans1 s) (ans2 s) \<le> Answer (Hash dat k) k"
      using least that u by (auto simp: least_answer_def range_answers_def word_le_nat_alt)
    then show ?thesis by (auto simp: less_eq_answer_def)
  qed
  ultimately show ?thesis by blast
qed

text \<open>What the scheduler writes to one connection in a turn.\<close>

fun to_conn :: "int \<Rightarrow> sched_effect \<Rightarrow> BMessage option" where
  "to_conn c (WriteMsg i m) = (if i = c then Some m else None)"

lemma first_message:
  assumes "l_out l = take n (l_hist l)" and "l_out l \<noteq> []" and "l_hist l = payloads (take j (m # ms))" and "bmessage_ok m"
  shows "hd (messages_read (l_out l)) = m"
  using assms by (cases n; cases j) (auto simp: payloads_def messages_read_def unmarshal_marshal_BMessage)

text \<open>
  C3. From the command line to the printed line, over the network. The client program writes its request
  to its connection, the server reads it from there and in the end writes the answer back; both go as
  JSON through sessions that lose, repeat and reorder datagrams. When the request that the server
  answers is the one it has read from that connection, what the client has read first is the answer,
  and it prints the least hash over all nonces up to the number on the command line, with its nonce.
\<close>

theorem request_to_answer:
  assumes "client_fresh cid W c0" and "server_fresh cid W s0"
    and "nonce \<noteq> []" and "\<forall>c \<in> set nonce. is_digit_char c" and "digits_value nonce < 2 ^ 64" and "ascii dat"
    and "up_reach cid c0 s0 u" and "l_hist u = payloads [NewRequest dat 0 (ParseUint nonce)]" and "l_out u \<noteq> []"
    and "service Hash reqs s" and "waitans s" and "\<not> jobgiveup s"
    and "request_no reqs (currid s) = (cid, hd (messages_read (l_out u)))"
    and "fair_choice ch" and "sched_turn ch rd s = Some (s', es)"
    and "down_reach cid s0 c0 d" and "l_hist d = payloads (take j (List.map_filter (to_conn cid) es))" and "l_out d \<noteq> []"
  shows "\<exists>h n. client_main [prog, host, dat, nonce] True True True (Some (hd (messages_read (l_out d)))) =
      [ClWrite (NewRequest dat 0 (ParseUint nonce)),
       Println (''Result '' @ show_nat (unat h) @ '' '' @ show_nat (unat n)), ClClose] \<and>
    unat n \<le> digits_value nonce \<and> h = Hash dat n \<and>
    (\<forall>k. unat k \<le> digits_value nonce \<longrightarrow> h \<le> Hash dat k)"
proof -
  obtain n where n: "l_out u = take n (l_hist u)" using up_prefix [where d = 0, OF assms(7,1)] assms(2) by auto
  have "hd (messages_read (l_out u)) = NewRequest dat 0 (ParseUint nonce)"
    by (rule first_message [OF n assms(9), where j = 1 and ms = "[]"]) (simp_all add: assms(6,8))
  then have r: "request_no reqs (currid s) = (cid, NewRequest dat 0 (ParseUint nonce))" using assms(13) by simp
  obtain h k rest where es: "es = WriteMsg cid (NewResult h k) # rest"
    and c: "client_main [prog, host, dat, nonce] True True True (Some (NewResult h k)) =
        [ClWrite (NewRequest dat 0 (ParseUint nonce)),
         Println (''Result '' @ show_nat (unat h) @ '' '' @ show_nat (unat k)), ClClose]"
      "unat k \<le> digits_value nonce \<and> h = Hash dat k \<and> (\<forall>k. unat k \<le> digits_value nonce \<longrightarrow> h \<le> Hash dat k)"
    using answer_line [OF assms(3-5,10-12) r assms(14,15)] by metis
  obtain i where i: "l_out d = take i (l_hist d)" using down_prefix [where d = 0, OF assms(16,2)] assms(1) by auto
  have "hd (messages_read (l_out d)) = NewResult h k"
    by (rule first_message [OF i assms(18), where ms = "List.map_filter (to_conn cid) rest"]) (simp_all add: assms(17) es)
  then show ?thesis using c by metis
qed

text \<open>A session number 9 for the run of \<open>BitDemo\<close>, whose request came from connection 9.\<close>

definition demo_client9 :: client where
  "demo_client9 = demo_client\<lparr>c_conId := 9\<rparr>"

definition demo_server9 :: server where
  "demo_server9 =
     (new_server NewParams)\<lparr>s_conn := fmupd 9 demo_conn fmempty, s_connCt := 10,
        s_closepend := fmupd 9 False fmempty, s_closeack := fmupd 9 False fmempty,
        s_sendct := fmupd 9 1 fmempty, s_addmap := fmupd ''cli'' 9 fmempty,
        s_pendconn := fmupd 9 1 fmempty, s_readct := fmupd 9 1 fmempty\<rparr>"

lemma demo_session9:
  "client_fresh 9 1 demo_client9" "client_ready demo_client9" "client_reading demo_client9"
  "server_fresh 9 1 demo_server9" "server_listening 9 demo_server9" "fmlookup (s_conn demo_server9) 9 = Some demo_conn"
  "\<not> losted demo_conn"
  by (simp_all add: client_fresh_def client_ready_def client_reading_def server_fresh_def server_listening_def demo_client9_def
      demo_server9_def demo_defs srv_tags_def conn_tags_def mget_def)

theorem request_to_answer_witness:
  "\<exists>h n r. client_main [''client'', ''host:1'', ''x'', ''1''] True True True (Some r) =
      [ClWrite (NewRequest ''x'' 0 1),
       Println (''Result '' @ show_nat (unat h) @ '' '' @ show_nat (unat n)), ClClose] \<and>
    h = Hash ''x'' n \<and> h \<le> Hash ''x'' 0 \<and> h \<le> Hash ''x'' 1"
proof -
  obtain s where s: "service Hash [(9, demo_job)] s" "waitans s" "\<not> jobgiveup s" "currid s = 1"
    by (rule demo_service_any)
  have p: "ParseUint ''1'' = 1" by (simp add: ParseUint_def is_digit_char_def)
  have v: "digits_value ''1'' = 1" by (simp add: digits_value_def)
  have a: "ascii ''x''" by (simp add: ascii_def)
  obtain u where u: "up_reach 9 demo_client9 demo_server9 u" "l_hist u = payloads [NewRequest ''x'' 0 (ParseUint ''1'')]"
    "l_out u = payloads [NewRequest ''x'' 0 (ParseUint ''1'')]"
    using up_delivers [where d = 0 and ps = "payloads [NewRequest ''x'' 0 (ParseUint ''1'')]", OF demo_session9(1,2) _ demo_session9(5)]
      demo_session9(4) by auto
  have "hd (messages_read (l_out u)) = demo_job"
    using a by (simp add: u(3) payloads_def messages_read_def unmarshal_marshal_BMessage p demo_job_def)
  then have r: "request_no [(9, demo_job)] (currid s) = (9, hd (messages_read (l_out u)))"
    by (simp add: s(4) request_no_def)
  have inv: "sched_inv s" using service_inv_reach [OF s(1)] by (simp add: service_inv_def)
  obtain s' es where t: "sched_turn demo_choice (ReadErr 0) s = Some (s', es)"
    using sched_turn_inv [OF inv demo_choice_fair, of "ReadErr 0"] by (metis turn_ok.simps(1))
  have r0: "request_no [(9, demo_job)] (currid s) = (9, NewRequest ''x'' 0 (ParseUint ''1''))"
    by (simp add: s(4) request_no_def demo_job_def p)
  obtain h n rest where es: "es = WriteMsg 9 (NewResult h n) # rest"
    using answer_line [where prog = "''c''" and host = "''h''", OF _ _ _ s(1-3) r0 demo_choice_fair t] by (auto simp: is_digit_char_def v)
  let ?ps = "payloads (take 1 (List.map_filter (to_conn 9) es))"
  obtain d where d: "down_reach 9 demo_server9 demo_client9 d" "l_hist d = ?ps" "l_out d = ?ps"
    using down_delivers [where d = 0 and ps = ?ps, OF demo_session9(4,6,7) _ demo_session9(3)] demo_session9(1) by auto
  have "\<exists>h n. client_main [''client'', ''host:1'', ''x'', ''1''] True True True (Some (hd (messages_read (l_out d)))) =
      [ClWrite (NewRequest ''x'' 0 (ParseUint ''1'')),
       Println (''Result '' @ show_nat (unat h) @ '' '' @ show_nat (unat n)), ClClose] \<and>
    unat n \<le> digits_value ''1'' \<and> h = Hash ''x'' n \<and> (\<forall>k. unat k \<le> digits_value ''1'' \<longrightarrow> h \<le> Hash ''x'' k)"
    by (rule request_to_answer [OF demo_session9(1,4) _ _ _ a u(1,2) _ s(1-3) r demo_choice_fair t d(1,2)])
      (simp_all add: v is_digit_char_def u(3) d(3) es payloads_def)
  then show ?thesis unfolding v p by (metis unat_1 unat_0 le_refl zero_le)
qed

end
